(* ===== verification/Prelude.thy ===== *)
theory Prelude
  imports Main "HOL-Library.Word"
begin

text \<open>
  The shared layer of the development: names for the machine types of the C code, byte
  buffers with bounds-checked copies (the C library's \<open>memcpy\<close> and \<open>memset\<close>, with an access
  outside the object as \<open>None\<close>), little-endian integers as the x86 target stores them, and
  the generic facts on lists, words and folds that the components use.
\<close>

unbundle bit_operations_syntax

type_synonym u8 = "8 word"
type_synonym u16 = "16 word"
type_synonym u32 = "32 word"
type_synonym u64 = "64 word"
type_synonym bytes = "8 word list"

named_theorems mem_simps \<open>bounds-checked memory: when a copy succeeds and what it leaves\<close>
named_theorems len_simps \<open>lengths of the buffers the operations return\<close>

section \<open>Objects in memory\<close>

text \<open>
  \<open>mem_read off n buf\<close> is reading \<open>n\<close> elements at offset \<open>off\<close> of the object \<open>buf\<close>,
  \<open>mem_write off xs buf\<close> is writing \<open>xs\<close> there. Outside the object both are undefined
  behaviour in C, here \<open>None\<close>.
\<close>

definition mem_read :: "nat \<Rightarrow> nat \<Rightarrow> 'a list \<Rightarrow> 'a list option" where
  "mem_read off n buf =
     (if off + n \<le> length buf then Some (take n (drop off buf)) else None)"

definition mem_write :: "nat \<Rightarrow> 'a list \<Rightarrow> 'a list \<Rightarrow> 'a list option" where
  "mem_write off xs buf =
     (if off + length xs \<le> length buf
      then Some (take off buf @ xs @ drop (off + length xs) buf) else None)"

text \<open>The same write where the program's types keep it inside the object.\<close>

definition splice :: "nat \<Rightarrow> 'a list \<Rightarrow> 'a list \<Rightarrow> 'a list" where
  "splice off xs buf = take off buf @ xs @ drop (off + length xs) buf"

definition slice :: "nat \<Rightarrow> nat \<Rightarrow> 'a list \<Rightarrow> 'a list" where
  "slice off n buf = take n (drop off buf)"

lemma mem_read_Some [mem_simps]:
  "off + n \<le> length buf \<Longrightarrow> mem_read off n buf = Some (slice off n buf)"
  by (simp add: mem_read_def slice_def)

lemma mem_read_None [mem_simps]: "length buf < off + n \<Longrightarrow> mem_read off n buf = None"
  by (simp add: mem_read_def)

lemma mem_write_Some [mem_simps]:
  "off + length xs \<le> length buf \<Longrightarrow> mem_write off xs buf = Some (splice off xs buf)"
  by (simp add: mem_write_def splice_def)

lemma mem_write_None [mem_simps]:
  "length buf < off + length xs \<Longrightarrow> mem_write off xs buf = None"
  by (simp add: mem_write_def)

lemma length_splice [simp, len_simps]:
  "off + length xs \<le> length buf \<Longrightarrow> length (splice off xs buf) = length buf"
  by (simp add: splice_def)

lemma length_slice [simp, len_simps]:
  "off + n \<le> length buf \<Longrightarrow> length (slice off n buf) = n"
  by (simp add: slice_def)

lemma slice_splice_same:
  "off + length xs \<le> length buf \<Longrightarrow> slice off (length xs) (splice off xs buf) = xs"
  by (simp add: slice_def splice_def)

lemma nth_splice:
  assumes "off + length xs \<le> length buf" and "i < length buf"
  shows "splice off xs buf ! i =
    (if i < off then buf ! i else if i < off + length xs then xs ! (i - off) else buf ! i)"
proof -
  have "min (length buf) off = off" using assms(1) by simp
  then show ?thesis
    using assms by (auto simp: splice_def nth_append)
qed

lemma nth_slice: "i < n \<Longrightarrow> off + n \<le> length buf \<Longrightarrow> slice off n buf ! i = buf ! (off + i)"
  by (simp add: slice_def)

text \<open>A read is not affected by a write that does not overlap it.\<close>

lemma slice_splice_disjoint:
  assumes "off + length xs \<le> length buf" and "o' + n \<le> length buf"
    and "o' + n \<le> off \<or> off + length xs \<le> o'"
  shows "slice o' n (splice off xs buf) = slice o' n buf"
  using assms by (intro nth_equalityI) (auto simp: nth_slice nth_splice)

lemma slice_slice: "a + m \<le> n \<Longrightarrow> slice a m (slice b n xs) = slice (b + a) m xs"
  by (simp add: slice_def take_drop min_def ac_simps)

lemma slice_0 [simp]: "slice 0 (length xs) xs = xs"
  by (simp add: slice_def)

text \<open>Cutting a buffer into parts, and a write that replaces one part.\<close>

lemma split_at:
  assumes "n \<le> length xs"
  obtains a b where "xs = a @ b" "length a = n"
  using assms that [of "take n xs" "drop n xs"] by simp

lemma mem_write_part:
  "off = length a \<Longrightarrow> length xs = length ys \<Longrightarrow> mem_write off xs (a @ ys @ b) = Some (a @ xs @ b)"
  by (simp add: mem_write_def)

section \<open>Little-endian integers\<close>

definition le16 :: "u8 \<Rightarrow> u8 \<Rightarrow> u16" where
  "le16 b0 b1 = ucast b0 OR push_bit 8 (ucast b1)"

definition le16_bytes :: "u16 \<Rightarrow> bytes" where
  "le16_bytes w = [ucast w, ucast (drop_bit 8 w)]"

definition le32 :: "u8 \<Rightarrow> u8 \<Rightarrow> u8 \<Rightarrow> u8 \<Rightarrow> u32" where
  "le32 b0 b1 b2 b3 =
     ucast b0 OR push_bit 8 (ucast b1) OR push_bit 16 (ucast b2) OR push_bit 24 (ucast b3)"

definition le32_bytes :: "u32 \<Rightarrow> bytes" where
  "le32_bytes w = [ucast w, ucast (drop_bit 8 w), ucast (drop_bit 16 w), ucast (drop_bit 24 w)]"

lemma length_le_bytes [simp, len_simps]:
  "length (le16_bytes w) = 2" "length (le32_bytes v) = 4"
  by (simp_all add: le16_bytes_def le32_bytes_def)

lemma le16_roundtrip: "le16 (le16_bytes w ! 0) (le16_bytes w ! 1) = w"
  by (rule bit_word_eqI)
     (auto simp: le16_def le16_bytes_def bit_or_iff bit_push_bit_iff bit_ucast_iff
        bit_drop_bit_eq)

lemma le16_bytes_le16: "le16_bytes (le16 a b) = [a, b]"
  unfolding le16_def le16_bytes_def list.inject
  by (intro conjI bit_word_eqI)
     (auto simp: bit_or_iff bit_push_bit_iff bit_ucast_iff bit_drop_bit_eq
        dest: bit_imp_le_length)

lemma bit_le32: "bit (le32 a b c d) n \<longleftrightarrow>
   (if n < 8 then bit a n else if n < 16 then bit b (n - 8)
    else if n < 24 then bit c (n - 16) else n < 32 \<and> bit d (n - 24))"
  by (auto simp: le32_def bit_or_iff bit_push_bit_iff bit_ucast_iff dest: bit_imp_le_length)

lemma le32_bytes_le32 [simp]: "le32_bytes (le32 a b c d) = [a, b, c, d]"
  unfolding le32_bytes_def list.inject
  by (intro conjI bit_word_eqI refl)
     (auto simp: bit_ucast_iff bit_drop_bit_eq bit_le32 dest: bit_imp_le_length)

lemma le32_roundtrip:
  "le32 (le32_bytes w ! 0) (le32_bytes w ! 1) (le32_bytes w ! 2) (le32_bytes w ! 3) = w"
  by (rule bit_word_eqI)
     (auto simp: bit_ucast_iff bit_drop_bit_eq bit_le32 le32_bytes_def dest: bit_imp_le_length)

lemma le32_xor:
  "le32 a b c d XOR le32 a' b' c' d' = le32 (a XOR a') (b XOR b') (c XOR c') (d XOR d')"
  by (rule bit_word_eqI) (auto simp: bit_le32 bit_xor_iff)

text \<open>Byte \<open>k\<close> of a word, as \<open>(w >> 8 * k) & 0xFF\<close> takes it.\<close>

lemma and_255_ucast: "(w :: u32) AND 255 = ucast (ucast w :: u8)"
proof -
  have "w AND 255 = w AND mask 8" by (simp add: mask_eq_exp_minus_1)
  also have "\<dots> = ucast (ucast w :: u8)"
    by (rule bit_word_eqI) (auto simp: bit_and_iff bit_mask_iff bit_ucast_iff)
  finally show ?thesis .
qed

lemma unat_u8_less: "unat (x :: u8) < 256"
  using unsigned_less [of x, where ?'a = nat] by simp

lemma unat_ucast_u8_u32: "unat (ucast (x :: u8) :: u32) = unat x"
  using unat_u8_less [of x] by (simp add: unsigned_ucast_eq take_bit_nat_eq_self_iff)

lemma le32_byte:
  "unat (le32 a b c d AND 255) = unat a"
  "unat (drop_bit 8 (le32 a b c d) AND 255) = unat b"
  "unat (drop_bit 16 (le32 a b c d) AND 255) = unat c"
  "unat (drop_bit 24 (le32 a b c d) AND 255) = unat d"
proof -
  have "ucast (le32 a b c d) = a" "ucast (drop_bit 8 (le32 a b c d)) = b"
    "ucast (drop_bit 16 (le32 a b c d)) = c" "ucast (drop_bit 24 (le32 a b c d)) = d"
    using le32_bytes_le32 [of a b c d] by (simp_all add: le32_bytes_def)
  then show
    "unat (le32 a b c d AND 255) = unat a"
    "unat (drop_bit 8 (le32 a b c d) AND 255) = unat b"
    "unat (drop_bit 16 (le32 a b c d) AND 255) = unat c"
    "unat (drop_bit 24 (le32 a b c d) AND 255) = unat d"
    by (simp_all add: and_255_ucast unat_ucast_u8_u32)
qed

section \<open>Exclusive or\<close>

lemma xor_cancel_right [simp]: "((x :: 'a :: len word) XOR y) XOR y = x"
  by (simp add: xor.assoc)

lemma xor_cancel_left [simp]: "(x :: 'a :: len word) XOR (x XOR y) = y"
  by (simp add: xor.assoc [symmetric])

lemmas xor_ac = xor.assoc xor.commute xor.left_commute

section \<open>Folds\<close>

text \<open>A fold undone step by step in the opposite order.\<close>

lemma fold_inverse:
  assumes "\<And>i b. i \<in> set is \<Longrightarrow> P b \<Longrightarrow> P (f i b) \<and> g i (f i b) = b" and "P b"
  shows "fold g (rev is) (fold f is b) = b \<and> P (fold f is b)"
  using assms
proof (induction "is" arbitrary: b rule: rev_induct)
  case Nil
  then show ?case by simp
next
  case (snoc i xs)
  then have "P (fold f xs b)" "fold g (rev xs) (fold f xs b) = b"
    by auto
  then show ?case using snoc.prems(1) [of i "fold f xs b"] by simp
qed

lemma fold_invariant_set:
  assumes "\<And>i b. i \<in> set is \<Longrightarrow> P b \<Longrightarrow> P (f i b)" and "P b"
  shows "P (fold f is b)"
  using assms by (induction "is" arbitrary: b) auto

section \<open>Lists of a known length\<close>

lemma length_Suc_conv_obtain:
  "length xs = Suc n \<longleftrightarrow> (\<exists>y ys. xs = y # ys \<and> length ys = n)"
  by (cases xs) auto

lemma list16E:
  assumes "length xs = 16"
  obtains a0 a1 a2 a3 a4 a5 a6 a7 a8 a9 a10 a11 a12 a13 a14 a15
  where "xs = [a0, a1, a2, a3, a4, a5, a6, a7, a8, a9, a10, a11, a12, a13, a14, a15]"
  using assms by (auto simp: numeral_eq_Suc length_Suc_conv_obtain)

section \<open>Tables and element-wise loops\<close>

text \<open>
  \<open>table_from n f xs\<close> spells out that \<open>f\<close> takes the values \<open>xs\<close> at \<open>n, n + 1, ...\<close>. Used with
  a constant array of up to 256 elements it yields one lookup equation per index.
\<close>

primrec table_from :: "u8 \<Rightarrow> (nat \<Rightarrow> 'a) \<Rightarrow> 'a list \<Rightarrow> bool" where
  "table_from n f [] = True"
| "table_from n f (x # xs) = (f (unat n) = x \<and> table_from (n + 1) f xs)"

lemma table_from_nth:
  "unat n + length xs \<le> 256 \<Longrightarrow> (\<And>i. i < length xs \<Longrightarrow> f (unat n + i) = xs ! i) \<Longrightarrow> table_from n f xs"
proof (induction xs arbitrary: n)
  case Nil
  then show ?case by simp
next
  case (Cons x xs)
  show ?case
  proof (cases "xs = []")
    case True
    then show ?thesis using Cons.prems(2) [of 0] by simp
  next
    case False
    then have "unat n < 255" using Cons.prems(1) by (cases xs) auto
    then have u: "unat (n + 1) = Suc (unat n)"
      by (simp add: unat_word_ariths)
    have "table_from (n + 1) f xs"
    proof (rule Cons.IH)
      show "unat (n + 1) + length xs \<le> 256" using Cons.prems(1) u by simp
      show "f (unat (n + 1) + i) = xs ! i" if "i < length xs" for i
        using Cons.prems(2) [of "Suc i"] that u by simp
    qed
    then show ?thesis using Cons.prems(2) [of 0] by simp
  qed
qed

lemma table_nth: "xs = ys \<Longrightarrow> length ys \<le> 256 \<Longrightarrow> table_from 0 ((!) xs) ys"
  by (rule table_from_nth) simp_all

text \<open>Unfolding an interval of numerals.\<close>

lemma upt_numeral_unfold:
  "[0..<numeral k] = (0 :: nat) # [Suc 0..<numeral k]"
  "[Suc 0..<numeral k] = (if k = Num.One then [] else Suc 0 # [2..<numeral k])"
proof -
  show "[0..<numeral k] = (0 :: nat) # [Suc 0..<numeral k]"
    by (simp add: upt_conv_Cons)
  show "[Suc 0..<numeral k] = (if k = Num.One then [] else Suc 0 # [2..<numeral k])"
    by (cases k) (simp_all add: upt_conv_Cons numeral_2_eq_2)
qed

text \<open>The loop \<open>for (i = 0; i < n; i++) v[i] = f(i, v[i])\<close>.\<close>

lemma fold_update_map:
  assumes "n \<le> length xs"
  shows "fold (\<lambda>i v. v[i := f i (v ! i)]) [0..<n] xs =
    map (\<lambda>i. if i < n then f i (xs ! i) else xs ! i) [0..<length xs]"
  using assms
proof (induction n)
  case 0
  then show ?case by (simp add: map_nth)
next
  case (Suc n)
  then show ?case by (auto intro!: nth_equalityI simp: nth_list_update)
qed

text \<open>A property of all bytes, checked on the 256 of them.\<close>

lemma all_bytes:
  assumes "\<And>i. i \<in> set [0..<256] \<Longrightarrow> P (word_of_nat i)"
  shows "P (x :: u8)"
  using assms [of "unat x"] unat_u8_less [of x] by simp

end
