(* ===== verification/Event_Loops.thy ===== *)
theory Event_Loops
  imports Prelude
begin

text \<open>
  The loops over the results of \<open>epoll_wait\<close> that every session of a client or a relay ends in. A handler takes
  one result and the session's state, and says whether the session goes on; \<open>None\<close> is an access outside an
  object. The loop runs it until the session ends, after which \<open>finish\<close> is done, or the results are used up.
  The locale has what all of them share; each session's theory interprets it on its own loop.
\<close>

locale event_loop =
  fixes handle :: "'e \<Rightarrow> 's \<Rightarrow> (bool \<times> 's) option"
    and finish :: "'s \<Rightarrow> 's"
    and run :: "'e list \<Rightarrow> 's \<Rightarrow> (bool \<times> 's) option"
  assumes run_Nil: "run [] w = Some (False, w)"
    and run_Cons: "run (e # es) w =
      Option.bind (handle e w) (\<lambda>(ok, w). if ok then run es w else Some (True, finish w))"
begin

text \<open>Results in two portions.\<close>

lemma run_append:
  "run (es @ fs) w = Option.bind (run es w) (\<lambda>(ended, w). if ended then Some (True, w) else run fs w)"
  by (induction es arbitrary: w) (auto simp: run_Nil run_Cons split: Option.bind_splits)

text \<open>What comes after the end changes nothing.\<close>

lemma run_ended: "run es w = Some (True, w') \<Longrightarrow> run (es @ fs) w = Some (True, w')"
  by (simp add: run_append)

text \<open>A relation that the handler respects holds between the states before and after any run.\<close>

lemma run_relates:
  assumes "\<And>w. R w w" "\<And>u v w. R u v \<Longrightarrow> R v w \<Longrightarrow> R u w" "\<And>w. R w (finish w)"
    and "\<And>e w ok w'. e \<in> set es \<Longrightarrow> handle e w = Some (ok, w') \<Longrightarrow> R w w'" "run es w = Some (ended, w')"
  shows "R w w'"
  using assms(4,5)
proof (induction es arbitrary: w)
  case Nil
  then show ?case using assms(1) by (simp add: run_Nil)
next
  case (Cons e es)
  then obtain ok v where v: "handle e w = Some (ok, v)" by (auto simp: run_Cons split: Option.bind_splits)
  show ?case
  proof (cases ok)
    case True
    then show ?thesis using assms(2) Cons v by (fastforce simp: run_Cons)
  next
    case False
    then show ?thesis using assms(2,3) Cons v by (fastforce simp: run_Cons)
  qed
qed

lemma run_keeps:
  assumes "\<And>w. P w \<Longrightarrow> P (finish w)" "\<And>e w ok w'. e \<in> set es \<Longrightarrow> P w \<Longrightarrow> handle e w = Some (ok, w') \<Longrightarrow> P w'"
    and "run es w = Some (ended, w')" "P w"
  shows "P w'"
  using run_relates [where R = "\<lambda>w w'. P w \<longrightarrow> P w'", OF _ _ _ _ assms(3)] assms(1,2,4) by blast

text \<open>A handler that never fails and always goes on keeps the session running.\<close>

lemma run_goes_on:
  assumes "P w" "\<And>e w. e \<in> set es \<Longrightarrow> P w \<Longrightarrow> \<exists>w'. handle e w = Some (True, w') \<and> P w'"
  shows "\<exists>w'. run es w = Some (False, w') \<and> P w'"
  using assms
proof (induction es arbitrary: w)
  case Nil
  then show ?case by (simp add: run_Nil)
next
  case (Cons e es)
  then obtain v where "handle e w = Some (True, v)" "P v" by fastforce
  then show ?case using Cons by (simp add: run_Cons)
qed

end

end
