(* ===== verification/AES.thy ===== *)
theory AES
  imports Prelude
begin

text \<open>
  The block cipher of \<open>src/encryptions/aes\<close>. A block (\<open>aes_block128_t\<close>) is the list of its
  16 bytes: \<open>bytes[c][r]\<close> of the C union is element \<open>4 * c + r\<close>, and \<open>bytes[0][i]\<close>, which the
  loops over a whole block use, is element \<open>i\<close>. The union's other view, four \<open>uint32_t\<close>
  columns, is the little-endian reading of the same bytes (\<open>block_columns\<close>). The round keys
  (\<open>aes_keys_t\<close>) are a list of 11 blocks. Every operation is the C function of the same name;
  the lemmas show that the inverse operations undo the forward ones on every block, so
  that \<open>aes_decrypt128\<close> undoes \<open>aes_encrypt128\<close>, and relate the tables and the loops to the field
  GF(2^8) they implement.
\<close>

type_synonym block = bytes

definition AES_BLOCK128_SIZE :: nat where "AES_BLOCK128_SIZE = 16"
definition AES_BLOCK128_ROUNDS :: nat where "AES_BLOCK128_ROUNDS = 10"
definition AES_BLOCK128_KEYS :: nat where "AES_BLOCK128_KEYS = AES_BLOCK128_ROUNDS + 1"

abbreviation is_block :: "block \<Rightarrow> bool" where
  "is_block b \<equiv> length b = 16"

section \<open>The tables\<close>

definition sbox :: "u8 list" where
  "sbox = [
  0x63, 0x7C, 0x77, 0x7B, 0xF2, 0x6B, 0x6F, 0xC5, 0x30, 0x01, 0x67, 0x2B, 0xFE, 0xD7, 0xAB, 0x76,
  0xCA, 0x82, 0xC9, 0x7D, 0xFA, 0x59, 0x47, 0xF0, 0xAD, 0xD4, 0xA2, 0xAF, 0x9C, 0xA4, 0x72, 0xC0,
  0xB7, 0xFD, 0x93, 0x26, 0x36, 0x3F, 0xF7, 0xCC, 0x34, 0xA5, 0xE5, 0xF1, 0x71, 0xD8, 0x31, 0x15,
  0x04, 0xC7, 0x23, 0xC3, 0x18, 0x96, 0x05, 0x9A, 0x07, 0x12, 0x80, 0xE2, 0xEB, 0x27, 0xB2, 0x75,
  0x09, 0x83, 0x2C, 0x1A, 0x1B, 0x6E, 0x5A, 0xA0, 0x52, 0x3B, 0xD6, 0xB3, 0x29, 0xE3, 0x2F, 0x84,
  0x53, 0xD1, 0x00, 0xED, 0x20, 0xFC, 0xB1, 0x5B, 0x6A, 0xCB, 0xBE, 0x39, 0x4A, 0x4C, 0x58, 0xCF,
  0xD0, 0xEF, 0xAA, 0xFB, 0x43, 0x4D, 0x33, 0x85, 0x45, 0xF9, 0x02, 0x7F, 0x50, 0x3C, 0x9F, 0xA8,
  0x51, 0xA3, 0x40, 0x8F, 0x92, 0x9D, 0x38, 0xF5, 0xBC, 0xB6, 0xDA, 0x21, 0x10, 0xFF, 0xF3, 0xD2,
  0xCD, 0x0C, 0x13, 0xEC, 0x5F, 0x97, 0x44, 0x17, 0xC4, 0xA7, 0x7E, 0x3D, 0x64, 0x5D, 0x19, 0x73,
  0x60, 0x81, 0x4F, 0xDC, 0x22, 0x2A, 0x90, 0x88, 0x46, 0xEE, 0xB8, 0x14, 0xDE, 0x5E, 0x0B, 0xDB,
  0xE0, 0x32, 0x3A, 0x0A, 0x49, 0x06, 0x24, 0x5C, 0xC2, 0xD3, 0xAC, 0x62, 0x91, 0x95, 0xE4, 0x79,
  0xE7, 0xC8, 0x37, 0x6D, 0x8D, 0xD5, 0x4E, 0xA9, 0x6C, 0x56, 0xF4, 0xEA, 0x65, 0x7A, 0xAE, 0x08,
  0xBA, 0x78, 0x25, 0x2E, 0x1C, 0xA6, 0xB4, 0xC6, 0xE8, 0xDD, 0x74, 0x1F, 0x4B, 0xBD, 0x8B, 0x8A,
  0x70, 0x3E, 0xB5, 0x66, 0x48, 0x03, 0xF6, 0x0E, 0x61, 0x35, 0x57, 0xB9, 0x86, 0xC1, 0x1D, 0x9E,
  0xE1, 0xF8, 0x98, 0x11, 0x69, 0xD9, 0x8E, 0x94, 0x9B, 0x1E, 0x87, 0xE9, 0xCE, 0x55, 0x28, 0xDF,
  0x8C, 0xA1, 0x89, 0x0D, 0xBF, 0xE6, 0x42, 0x68, 0x41, 0x99, 0x2D, 0x0F, 0xB0, 0x54, 0xBB, 0x16]"

definition inv_sbox :: "u8 list" where
  "inv_sbox = [
  0x52, 0x09, 0x6A, 0xD5, 0x30, 0x36, 0xA5, 0x38, 0xBF, 0x40, 0xA3, 0x9E, 0x81, 0xF3, 0xD7, 0xFB,
  0x7C, 0xE3, 0x39, 0x82, 0x9B, 0x2F, 0xFF, 0x87, 0x34, 0x8E, 0x43, 0x44, 0xC4, 0xDE, 0xE9, 0xCB,
  0x54, 0x7B, 0x94, 0x32, 0xA6, 0xC2, 0x23, 0x3D, 0xEE, 0x4C, 0x95, 0x0B, 0x42, 0xFA, 0xC3, 0x4E,
  0x08, 0x2E, 0xA1, 0x66, 0x28, 0xD9, 0x24, 0xB2, 0x76, 0x5B, 0xA2, 0x49, 0x6D, 0x8B, 0xD1, 0x25,
  0x72, 0xF8, 0xF6, 0x64, 0x86, 0x68, 0x98, 0x16, 0xD4, 0xA4, 0x5C, 0xCC, 0x5D, 0x65, 0xB6, 0x92,
  0x6C, 0x70, 0x48, 0x50, 0xFD, 0xED, 0xB9, 0xDA, 0x5E, 0x15, 0x46, 0x57, 0xA7, 0x8D, 0x9D, 0x84,
  0x90, 0xD8, 0xAB, 0x00, 0x8C, 0xBC, 0xD3, 0x0A, 0xF7, 0xE4, 0x58, 0x05, 0xB8, 0xB3, 0x45, 0x06,
  0xD0, 0x2C, 0x1E, 0x8F, 0xCA, 0x3F, 0x0F, 0x02, 0xC1, 0xAF, 0xBD, 0x03, 0x01, 0x13, 0x8A, 0x6B,
  0x3A, 0x91, 0x11, 0x41, 0x4F, 0x67, 0xDC, 0xEA, 0x97, 0xF2, 0xCF, 0xCE, 0xF0, 0xB4, 0xE6, 0x73,
  0x96, 0xAC, 0x74, 0x22, 0xE7, 0xAD, 0x35, 0x85, 0xE2, 0xF9, 0x37, 0xE8, 0x1C, 0x75, 0xDF, 0x6E,
  0x47, 0xF1, 0x1A, 0x71, 0x1D, 0x29, 0xC5, 0x89, 0x6F, 0xB7, 0x62, 0x0E, 0xAA, 0x18, 0xBE, 0x1B,
  0xFC, 0x56, 0x3E, 0x4B, 0xC6, 0xD2, 0x79, 0x20, 0x9A, 0xDB, 0xC0, 0xFE, 0x78, 0xCD, 0x5A, 0xF4,
  0x1F, 0xDD, 0xA8, 0x33, 0x88, 0x07, 0xC7, 0x31, 0xB1, 0x12, 0x10, 0x59, 0x27, 0x80, 0xEC, 0x5F,
  0x60, 0x51, 0x7F, 0xA9, 0x19, 0xB5, 0x4A, 0x0D, 0x2D, 0xE5, 0x7A, 0x9F, 0x93, 0xC9, 0x9C, 0xEF,
  0xA0, 0xE0, 0x3B, 0x4D, 0xAE, 0x2A, 0xF5, 0xB0, 0xC8, 0xEB, 0xBB, 0x3C, 0x83, 0x53, 0x99, 0x61,
  0x17, 0x2B, 0x04, 0x7E, 0xBA, 0x77, 0xD6, 0x26, 0xE1, 0x69, 0x14, 0x63, 0x55, 0x21, 0x0C, 0x7D]"

section \<open>The operations on a block\<close>

definition cpy_block128 :: "block \<Rightarrow> block \<Rightarrow> block" where
  "cpy_block128 value operand = operand"

definition xor_block128 :: "block \<Rightarrow> block \<Rightarrow> block" where
  "xor_block128 value operand =
     fold (\<lambda>i v. v[i := v ! i XOR operand ! i]) [0..<16] value"

definition sub_bytes_block128 :: "block \<Rightarrow> block" where
  "sub_bytes_block128 value = fold (\<lambda>i v. v[i := sbox ! unat (v ! i)]) [0..<16] value"

definition inv_sub_bytes_block128 :: "block \<Rightarrow> block" where
  "inv_sub_bytes_block128 value = fold (\<lambda>i v. v[i := inv_sbox ! unat (v ! i)]) [0..<16] value"

text \<open>\<open>bytes[c][r]\<close>, read and written.\<close>

definition get_byte :: "block \<Rightarrow> nat \<Rightarrow> nat \<Rightarrow> u8" where
  "get_byte b c r = b ! (4 * c + r)"

definition set_byte :: "nat \<Rightarrow> nat \<Rightarrow> u8 \<Rightarrow> block \<Rightarrow> block" where
  "set_byte c r v b = b[4 * c + r := v]"

text \<open>One assignment \<open>bytes[c][r] = bytes[c'][r']\<close> of the shift functions.\<close>

definition move_byte :: "nat \<Rightarrow> nat \<Rightarrow> nat \<Rightarrow> nat \<Rightarrow> block \<Rightarrow> block" where
  "move_byte c r c' r' b = set_byte c r (get_byte b c' r') b"

definition shift_rows_block128 :: "block \<Rightarrow> block" where
  "shift_rows_block128 b =
     (let tmp = get_byte b 0 1;
          b = move_byte 0 1 1 1 b; b = move_byte 1 1 2 1 b; b = move_byte 2 1 3 1 b;
          b = set_byte 3 1 tmp b;
          tmp = get_byte b 0 2; b = move_byte 0 2 2 2 b; b = set_byte 2 2 tmp b;
          tmp = get_byte b 1 2; b = move_byte 1 2 3 2 b; b = set_byte 3 2 tmp b;
          tmp = get_byte b 3 3;
          b = move_byte 3 3 2 3 b; b = move_byte 2 3 1 3 b; b = move_byte 1 3 0 3 b
      in set_byte 0 3 tmp b)"

definition inv_shift_rows_block128 :: "block \<Rightarrow> block" where
  "inv_shift_rows_block128 b =
     (let tmp = get_byte b 3 1;
          b = move_byte 3 1 2 1 b; b = move_byte 2 1 1 1 b; b = move_byte 1 1 0 1 b;
          b = set_byte 0 1 tmp b;
          tmp = get_byte b 0 2; b = move_byte 0 2 2 2 b; b = set_byte 2 2 tmp b;
          tmp = get_byte b 1 2; b = move_byte 1 2 3 2 b; b = set_byte 3 2 tmp b;
          tmp = get_byte b 0 3;
          b = move_byte 0 3 1 3 b; b = move_byte 1 3 2 3 b; b = move_byte 2 3 3 3 b
      in set_byte 3 3 tmp b)"

definition mul2 :: "u8 \<Rightarrow> u8" where
  "mul2 x = push_bit 1 x XOR (drop_bit 7 x * 0x1B)"

definition mul3 :: "u8 \<Rightarrow> u8" where
  "mul3 x = mul2 x XOR x"

definition mix_column :: "nat \<Rightarrow> block \<Rightarrow> block" where
  "mix_column col b =
     (let a0 = get_byte b col 0; a1 = get_byte b col 1;
          a2 = get_byte b col 2; a3 = get_byte b col 3;
          b = set_byte col 0 (mul2 a0 XOR mul3 a1 XOR a2 XOR a3) b;
          b = set_byte col 1 (a0 XOR mul2 a1 XOR mul3 a2 XOR a3) b;
          b = set_byte col 2 (a0 XOR a1 XOR mul2 a2 XOR mul3 a3) b
      in set_byte col 3 (mul3 a0 XOR a1 XOR a2 XOR mul2 a3) b)"

definition mix_columns_block128 :: "block \<Rightarrow> block" where
  "mix_columns_block128 b = fold mix_column [0..<4] b"

lemma drop_bit_1_less: "factor \<noteq> (0 :: u8) \<Longrightarrow> unat (drop_bit (Suc 0) factor) < unat factor"
  unfolding unat_drop_bit_eq by (simp add: drop_bit_eq_div unat_gt_0)

text \<open>The loop of \<open>mul\<close>: it ends because the factor is halved.\<close>

function mul_loop :: "u8 \<Rightarrow> u8 \<Rightarrow> u8 \<Rightarrow> u8" where
  "mul_loop res x factor =
     (if factor = 0 then res
      else mul_loop (if factor AND 1 \<noteq> 0 then res XOR x else res) (mul2 x) (drop_bit 1 factor))"
  by pat_completeness auto

termination
  by (relation "measure (\<lambda>(res, x, factor). unat factor)") (auto intro: drop_bit_1_less)

declare mul_loop.simps [simp del]

definition mul :: "u8 \<Rightarrow> u8 \<Rightarrow> u8" where
  "mul x factor = mul_loop 0 x factor"

definition inv_mix_column :: "nat \<Rightarrow> block \<Rightarrow> block" where
  "inv_mix_column col b =
     (let a0 = get_byte b col 0; a1 = get_byte b col 1;
          a2 = get_byte b col 2; a3 = get_byte b col 3;
          b = set_byte col 0 (mul a0 0x0E XOR mul a1 0x0B XOR mul a2 0x0D XOR mul a3 0x09) b;
          b = set_byte col 1 (mul a0 0x09 XOR mul a1 0x0E XOR mul a2 0x0B XOR mul a3 0x0D) b;
          b = set_byte col 2 (mul a0 0x0D XOR mul a1 0x09 XOR mul a2 0x0E XOR mul a3 0x0B) b
      in set_byte col 3 (mul a0 0x0B XOR mul a1 0x0D XOR mul a2 0x09 XOR mul a3 0x0E) b)"

definition inv_mix_columns_block128 :: "block \<Rightarrow> block" where
  "inv_mix_columns_block128 b = fold inv_mix_column [0..<4] b"

section \<open>The round keys\<close>

definition aes_round_constants :: "u32 list" where
  "aes_round_constants = [
  0x00000001, 0x00000002, 0x00000004, 0x00000008,
  0x00000010, 0x00000020, 0x00000040, 0x00000080,
  0x0000001B, 0x00000036]"

definition sub_word :: "u32 \<Rightarrow> u32" where
  "sub_word word =
     push_bit 24 (ucast (sbox ! unat (drop_bit 24 word AND 0xFF))) OR
     push_bit 16 (ucast (sbox ! unat (drop_bit 16 word AND 0xFF))) OR
     push_bit 8 (ucast (sbox ! unat (drop_bit 8 word AND 0xFF))) OR
     ucast (sbox ! unat (word AND 0xFF))"

definition rot_word :: "u32 \<Rightarrow> u32" where
  "rot_word word = drop_bit 8 word OR push_bit 24 word"

text \<open>The \<open>columns\<close> view of a block, and the block with given columns.\<close>

definition block_columns :: "block \<Rightarrow> u32 list" where
  "block_columns b =
     map (\<lambda>c. le32 (get_byte b c 0) (get_byte b c 1) (get_byte b c 2) (get_byte b c 3)) [0..<4]"

definition columns_block :: "u32 list \<Rightarrow> block" where
  "columns_block ws = concat (map le32_bytes ws)"

text \<open>One iteration of the key schedule: the words of the next round key from the previous.\<close>

definition next_round_words :: "u32 list \<Rightarrow> u32 \<Rightarrow> u32 list" where
  "next_round_words prev rc =
     (let g_prev = sub_word (rot_word (prev ! 3)) XOR rc;
          curr0 = prev ! 0 XOR g_prev;
          curr1 = prev ! 1 XOR curr0;
          curr2 = prev ! 2 XOR curr1;
          curr3 = prev ! 3 XOR curr2
      in [curr0, curr1, curr2, curr3])"

definition aes_generate_keys128 :: "block \<Rightarrow> block list" where
  "aes_generate_keys128 base_key =
     fold (\<lambda>round keys. keys @
            [columns_block (next_round_words (block_columns (keys ! (round - 1)))
                              (aes_round_constants ! (round - 1)))])
          [1..<AES_BLOCK128_KEYS] [base_key]"

section \<open>The cipher\<close>

definition enc_round :: "block \<Rightarrow> block \<Rightarrow> block" where
  "enc_round key r =
     xor_block128 (mix_columns_block128 (shift_rows_block128 (sub_bytes_block128 r))) key"

definition aes_encrypt128 :: "block \<Rightarrow> block \<Rightarrow> block" where
  "aes_encrypt128 data key =
     (let keys = aes_generate_keys128 key;
          result = xor_block128 data (keys ! 0);
          result = fold (\<lambda>i. enc_round (keys ! i)) [1..<AES_BLOCK128_ROUNDS] result;
          result = sub_bytes_block128 result;
          result = shift_rows_block128 result
      in xor_block128 result (keys ! AES_BLOCK128_ROUNDS))"

definition dec_round :: "block \<Rightarrow> block \<Rightarrow> block" where
  "dec_round key r =
     inv_sub_bytes_block128 (inv_shift_rows_block128
       (inv_mix_columns_block128 (xor_block128 r key)))"

definition aes_decrypt128 :: "block \<Rightarrow> block \<Rightarrow> block" where
  "aes_decrypt128 encrypt key =
     (let keys = aes_generate_keys128 key;
          result = xor_block128 encrypt (keys ! AES_BLOCK128_ROUNDS);
          result = inv_shift_rows_block128 result;
          result = inv_sub_bytes_block128 result;
          result = fold (\<lambda>i. dec_round (keys ! i)) (rev [1..<AES_BLOCK128_ROUNDS]) result
      in xor_block128 result (keys ! 0))"

section \<open>Looking up the tables\<close>

lemmas sbox_table = table_nth [OF sbox_def, simplified]
lemmas inv_sbox_table = table_nth [OF inv_sbox_def, simplified]

lemma length_sbox [simp]: "length sbox = 256" "length inv_sbox = 256"
  by (simp_all add: sbox_def inv_sbox_def)

text \<open>The two tables are inverse permutations of the bytes.\<close>

lemma inv_sbox_sbox_index:
  "list_all (\<lambda>i. inv_sbox ! unat (sbox ! i) = word_of_nat i) [0..<256]"
  by (simp add: sbox_table inv_sbox_table upt_numeral_unfold upt_rec_numeral)

lemma inv_sbox_sbox [simp]: "inv_sbox ! unat (sbox ! unat x) = x"
proof (rule all_bytes [where x = x])
  fix i :: nat assume "i \<in> set [0..<256]"
  then show "inv_sbox ! unat (sbox ! unat (word_of_nat i :: u8)) = word_of_nat i"
    using inv_sbox_sbox_index by (simp add: list_all_iff unsigned_of_nat take_bit_eq_mod)
qed

section \<open>The loops over a block\<close>

lemma xor_block128_map:
  "is_block v \<Longrightarrow> xor_block128 v k = map (\<lambda>i. v ! i XOR k ! i) [0..<16]"
  unfolding xor_block128_def
  by (subst fold_update_map [where f = "\<lambda>i x. x XOR k ! i"]) simp_all

lemma sub_bytes_block128_map:
  "is_block v \<Longrightarrow> sub_bytes_block128 v = map (\<lambda>x. sbox ! unat x) v"
  unfolding sub_bytes_block128_def
  by (subst fold_update_map [where f = "\<lambda>i x. sbox ! unat x"]) (auto intro: nth_equalityI)

lemma inv_sub_bytes_block128_map:
  "is_block v \<Longrightarrow> inv_sub_bytes_block128 v = map (\<lambda>x. inv_sbox ! unat x) v"
  unfolding inv_sub_bytes_block128_def
  by (subst fold_update_map [where f = "\<lambda>i x. inv_sbox ! unat x"]) (auto intro: nth_equalityI)

lemma length_set_byte [simp, len_simps]: "length (set_byte c r v b) = length b"
  by (simp add: set_byte_def)

lemma length_move_byte [simp, len_simps]: "length (move_byte c r c' r' b) = length b"
  by (simp add: move_byte_def)

lemma length_block_ops [simp, len_simps]:
  "is_block b \<Longrightarrow> is_block (xor_block128 b k)"
  "is_block b \<Longrightarrow> is_block (sub_bytes_block128 b)"
  "is_block b \<Longrightarrow> is_block (inv_sub_bytes_block128 b)"
  "is_block b \<Longrightarrow> is_block (shift_rows_block128 b)"
  "is_block b \<Longrightarrow> is_block (inv_shift_rows_block128 b)"
  by (simp_all add: xor_block128_map sub_bytes_block128_map inv_sub_bytes_block128_map
      shift_rows_block128_def inv_shift_rows_block128_def Let_def)

lemma length_mix_column [simp, len_simps]:
  "length (mix_column c b) = length b" "length (inv_mix_column c b) = length b"
  by (simp_all add: mix_column_def inv_mix_column_def Let_def)

lemma length_mix_columns [simp, len_simps]:
  "length (mix_columns_block128 b) = length b" "length (inv_mix_columns_block128 b) = length b"
  unfolding mix_columns_block128_def inv_mix_columns_block128_def
  by (rule fold_invariant_set; simp)+

section \<open>Each operation is undone by its inverse\<close>

lemma xor_xor_block: "is_block b \<Longrightarrow> xor_block128 (xor_block128 b k) k = b"
  by (rule nth_equalityI) (simp_all add: xor_block128_map)

lemma inv_sub_sub_block: "is_block b \<Longrightarrow> inv_sub_bytes_block128 (sub_bytes_block128 b) = b"
  by (simp add: sub_bytes_block128_map inv_sub_bytes_block128_map comp_def)

lemmas byte_access = get_byte_def set_byte_def move_byte_def

lemma shift_rows_explicit:
  "shift_rows_block128 [a0, a1, a2, a3, a4, a5, a6, a7, a8, a9, a10, a11, a12, a13, a14, a15] =
   [a0, a5, a10, a15, a4, a9, a14, a3, a8, a13, a2, a7, a12, a1, a6, a11]"
  by (simp add: shift_rows_block128_def byte_access Let_def)

lemma inv_shift_rows_explicit:
  "inv_shift_rows_block128 [a0, a1, a2, a3, a4, a5, a6, a7, a8, a9, a10, a11, a12, a13, a14, a15] =
   [a0, a13, a10, a7, a4, a1, a14, a11, a8, a5, a2, a15, a12, a9, a6, a3]"
  by (simp add: inv_shift_rows_block128_def byte_access Let_def)

lemma inv_shift_shift_block:
  assumes "is_block b"
  shows "inv_shift_rows_block128 (shift_rows_block128 b) = b"
  using assms by (rule list16E) (simp add: shift_rows_explicit inv_shift_rows_explicit)

section \<open>Multiplication in GF(2^8)\<close>

text \<open>\<open>mul2\<close> is multiplication by the field's generator, and it is linear.\<close>

lemma drop_bit_7_u8: "drop_bit 7 (x :: u8) = (if bit x 7 then 1 else 0)"
proof (rule bit_word_eqI)
  fix n
  show "bit (drop_bit 7 x) n \<longleftrightarrow> bit (if bit x 7 then 1 else 0 :: u8) n"
    by (cases n) (auto simp: bit_drop_bit_eq bit_1_iff dest: bit_imp_le_length)
qed

lemma mul2_alt: "mul2 x = push_bit 1 x XOR (if bit x 7 then 0x1B else 0)"
  by (simp add: mul2_def drop_bit_7_u8)

lemma mul2_xor: "mul2 (x XOR y) = mul2 x XOR mul2 y"
  by (auto simp: mul2_alt bit_xor_iff push_bit_xor xor_ac)

lemma mul2_0 [simp]: "mul2 0 = 0"
  by (simp add: mul2_alt)

lemma mul_constants:
  "mul x 0x09 = x XOR mul2 (mul2 (mul2 x))"
  "mul x 0x0B = x XOR mul2 x XOR mul2 (mul2 (mul2 x))"
  "mul x 0x0D = x XOR mul2 (mul2 x) XOR mul2 (mul2 (mul2 x))"
  "mul x 0x0E = mul2 x XOR mul2 (mul2 x) XOR mul2 (mul2 (mul2 x))"
  by (simp_all add: mul_def mul_loop.simps xor_ac)

text \<open>
  The loop adds up the multiples \<open>x\<close>, \<open>2x\<close>, \<open>4x\<close>, ... selected by the bits of the factor.
\<close>

primrec gf_sum :: "nat \<Rightarrow> u8 \<Rightarrow> u8 \<Rightarrow> u8" where
  "gf_sum 0 x factor = 0"
| "gf_sum (Suc n) x factor = (if bit factor 0 then x else 0) XOR gf_sum n (mul2 x) (drop_bit 1 factor)"

lemma gf_sum_xor: "gf_sum n (x XOR y) factor = gf_sum n x factor XOR gf_sum n y factor"
  by (induction n arbitrary: x y factor) (auto simp: mul2_xor xor_ac)

lemma gf_sum_zero [simp]: "gf_sum n x 0 = 0"
  by (induction n arbitrary: x) auto

lemma mul_loop_gf_sum:
  "drop_bit n factor = 0 \<Longrightarrow> mul_loop res x factor = res XOR gf_sum n x factor"
proof (induction n arbitrary: res x factor)
  case 0
  then show ?case by (simp add: mul_loop.simps)
next
  case (Suc n)
  have odd: "factor AND 1 \<noteq> 0 \<longleftrightarrow> bit factor 0"
    by (simp add: and_one_eq bit_0 odd_iff_mod_2_eq_one)
  show ?case
  proof (cases "factor = 0")
    case True
    then show ?thesis by (simp add: mul_loop.simps)
  next
    case False
    have "drop_bit n (drop_bit 1 factor) = 0"
      using Suc.prems by (simp add: drop_bit_drop_bit add.commute)
    from Suc.IH [OF this] show ?thesis
      using False odd by (subst mul_loop.simps) (auto simp: xor_ac)
  qed
qed

lemma drop_bit_8_u8 [simp]: "drop_bit 8 (factor :: u8) = 0"
  by (rule bit_word_eqI) (simp add: bit_drop_bit_eq)

lemma mul_gf_sum: "mul x factor = gf_sum 8 x factor"
  using mul_loop_gf_sum [of 8 factor 0 x] by (simp add: mul_def)

lemma mul_xor: "mul (x XOR y) factor = mul x factor XOR mul y factor"
  by (simp add: mul_gf_sum gf_sum_xor)

section \<open>Mixing the columns\<close>

text \<open>The matrix of \<open>inv_mix_columns_block128\<close> is the inverse of that of \<open>mix_columns_block128\<close>.\<close>

definition mixed :: "u8 \<Rightarrow> u8 \<Rightarrow> u8 \<Rightarrow> u8 \<Rightarrow> u8" where
  "mixed a b c d = mul2 a XOR mul3 b XOR c XOR d"

definition unmixed :: "u8 \<Rightarrow> u8 \<Rightarrow> u8 \<Rightarrow> u8 \<Rightarrow> u8" where
  "unmixed a b c d = mul a 0x0E XOR mul b 0x0B XOR mul c 0x0D XOR mul d 0x09"

lemma unmixed_mixed:
  "unmixed (mixed a b c d) (mixed b c d a) (mixed c d a b) (mixed d a b c) = a"
  by (simp add: unmixed_def mixed_def mul_constants mul3_def mul2_xor xor_ac)

lemma mix_column_mixed:
  "mix_column c b =
     set_byte c 3 (mixed (get_byte b c 3) (get_byte b c 0) (get_byte b c 1) (get_byte b c 2))
    (set_byte c 2 (mixed (get_byte b c 2) (get_byte b c 3) (get_byte b c 0) (get_byte b c 1))
    (set_byte c 1 (mixed (get_byte b c 1) (get_byte b c 2) (get_byte b c 3) (get_byte b c 0))
    (set_byte c 0 (mixed (get_byte b c 0) (get_byte b c 1) (get_byte b c 2) (get_byte b c 3)) b)))"
  by (simp add: mix_column_def mixed_def Let_def xor_ac)

lemma inv_mix_column_unmixed:
  "inv_mix_column c b =
     set_byte c 3 (unmixed (get_byte b c 3) (get_byte b c 0) (get_byte b c 1) (get_byte b c 2))
    (set_byte c 2 (unmixed (get_byte b c 2) (get_byte b c 3) (get_byte b c 0) (get_byte b c 1))
    (set_byte c 1 (unmixed (get_byte b c 1) (get_byte b c 2) (get_byte b c 3) (get_byte b c 0))
    (set_byte c 0 (unmixed (get_byte b c 0) (get_byte b c 1) (get_byte b c 2) (get_byte b c 3)) b)))"
  by (simp add: inv_mix_column_def unmixed_def Let_def xor_ac)

lemma fold_upt_4: "fold f [0..<4] b = f 3 (f 2 (f (Suc 0) (f 0 b)))"
  by (simp add: upt_numeral_unfold upt_rec_numeral)

lemma inv_mix_mix_block:
  assumes "is_block b"
  shows "inv_mix_columns_block128 (mix_columns_block128 b) = b"
  using assms
  by (rule list16E)
    (simp add: inv_mix_columns_block128_def mix_columns_block128_def fold_upt_4
      mix_column_mixed inv_mix_column_unmixed byte_access unmixed_mixed)

section \<open>The cipher is undone by the decipher\<close>

lemma length_block_columns [simp, len_simps]: "length (block_columns b) = 4"
  by (simp add: block_columns_def)

lemma length_columns_block [simp, len_simps]: "length (columns_block ws) = 4 * length ws"
  by (induction ws) (simp_all add: columns_block_def)

lemma length_next_round_words [simp, len_simps]: "length (next_round_words ws rc) = 4"
  by (simp add: next_round_words_def Let_def)

text \<open>The schedule yields 11 round keys, each of them a block.\<close>

definition are_round_keys :: "nat \<Rightarrow> block list \<Rightarrow> bool" where
  "are_round_keys n keys \<longleftrightarrow> length keys = n \<and> list_all is_block keys"

lemma round_keys_step:
  "is_block k \<Longrightarrow> are_round_keys (Suc n) (fold (\<lambda>i keys. keys @
     [columns_block (next_round_words (block_columns (keys ! (i - 1))) (rcs ! (i - 1)))])
     [1..<Suc n] [k])"
  by (induction n) (simp_all add: are_round_keys_def)

lemma round_keys: "is_block k \<Longrightarrow> are_round_keys 11 (aes_generate_keys128 k)"
  using round_keys_step [of k 10 aes_round_constants]
  by (simp add: aes_generate_keys128_def AES_BLOCK128_KEYS_def AES_BLOCK128_ROUNDS_def)

lemma length_enc_round [simp, len_simps]: "is_block b \<Longrightarrow> is_block (enc_round k b)"
  by (simp add: enc_round_def)

lemma length_dec_round [simp, len_simps]: "is_block b \<Longrightarrow> is_block (dec_round k b)"
  by (simp add: dec_round_def)

lemma dec_enc_round: "is_block b \<Longrightarrow> dec_round k (enc_round k b) = b"
  by (simp add: dec_round_def enc_round_def xor_xor_block inv_mix_mix_block
      inv_shift_shift_block inv_sub_sub_block)

lemma rounds_inverse:
  assumes "is_block b"
  shows "fold (\<lambda>i. dec_round (keys ! i)) (rev is) (fold (\<lambda>i. enc_round (keys ! i)) is b) = b \<and>
         is_block (fold (\<lambda>i. enc_round (keys ! i)) is b)"
  by (rule fold_inverse [where P = is_block, OF _ assms]) (simp add: dec_enc_round)

lemma length_aes_encrypt128 [simp, len_simps]: "is_block b \<Longrightarrow> is_block (aes_encrypt128 b key)"
  by (simp add: aes_encrypt128_def Let_def rounds_inverse)

lemma length_aes_decrypt128 [simp, len_simps]:
  assumes "is_block b"
  shows "is_block (aes_decrypt128 b key)"
proof -
  have "is_block (fold (\<lambda>i. dec_round (keys ! i)) is c)" if "is_block c" for keys "is" c
    by (rule fold_invariant_set [where P = is_block, OF _ that]) simp
  then show ?thesis using assms by (simp add: aes_decrypt128_def Let_def)
qed

lemma aes_decrypt_encrypt:
  assumes "is_block b"
  shows "aes_decrypt128 (aes_encrypt128 b key) key = b"
proof -
  define keys where "keys = aes_generate_keys128 key"
  define r where "r = fold (\<lambda>i. enc_round (keys ! i)) [1..<AES_BLOCK128_ROUNDS]
    (xor_block128 b (keys ! 0))"
  have b: "is_block (xor_block128 b (keys ! 0))" and r: "is_block r"
    using assms rounds_inverse by (simp_all add: r_def)
  have "aes_encrypt128 b key =
      xor_block128 (shift_rows_block128 (sub_bytes_block128 r)) (keys ! AES_BLOCK128_ROUNDS)"
    by (simp add: aes_encrypt128_def Let_def r_def keys_def)
  then have "aes_decrypt128 (aes_encrypt128 b key) key =
      xor_block128 (fold (\<lambda>i. dec_round (keys ! i)) (rev [1..<AES_BLOCK128_ROUNDS]) r) (keys ! 0)"
    using r by (simp add: aes_decrypt128_def Let_def keys_def xor_xor_block
        inv_shift_shift_block inv_sub_sub_block)
  also have "\<dots> = xor_block128 (xor_block128 b (keys ! 0)) (keys ! 0)"
    using rounds_inverse [OF b] by (simp add: r_def)
  finally show ?thesis using assms by (simp add: xor_xor_block)
qed

section \<open>The key schedule against the standard\<close>

text \<open>
  FIPS 197 defines the schedule on words of four bytes: word \<open>i\<close> is word \<open>i - 4\<close> plus the word
  before, which is first rotated, substituted and added to \<open>[x^(i/4 - 1), 0, 0, 0]\<close> when \<open>i\<close> is a
  multiple of 4. The code runs it on little-endian 32-bit integers.
\<close>

fun fips_word :: "bytes \<Rightarrow> nat \<Rightarrow> bytes" where
  "fips_word key i =
     (if i < 4 then slice (4 * i) 4 key
      else if i mod 4 = 0 then
        map2 (XOR) (fips_word key (i - 4))
          (map2 (XOR) (map (\<lambda>x. sbox ! unat x) (rotate1 (fips_word key (i - 1))))
             [(mul2 ^^ (i div 4 - 1)) 1, 0, 0, 0])
      else map2 (XOR) (fips_word key (i - 4)) (fips_word key (i - 1)))"

declare fips_word.simps [simp del]

definition fips_round_key :: "bytes \<Rightarrow> nat \<Rightarrow> bytes" where
  "fips_round_key key r = concat (map (\<lambda>c. fips_word key (4 * r + c)) [0..<4])"

lemma rot_word_le32: "rot_word (le32 a b c d) = le32 b c d a"
  unfolding rot_word_def
  by (rule bit_word_eqI) (auto simp: bit_le32 bit_or_iff bit_push_bit_iff bit_drop_bit_eq dest: bit_imp_le_length)

lemma sub_word_le32: "sub_word (le32 a b c d) =
  le32 (sbox ! unat a) (sbox ! unat b) (sbox ! unat c) (sbox ! unat d)"
  unfolding sub_word_def le32_byte by (simp add: le32_def or.commute or.left_commute)

lemma length4E:
  assumes "length xs = 4"
  obtains a b c d where "xs = [a, b, c, d]"
  using assms by (auto simp: numeral_eq_Suc length_Suc_conv_obtain)

lemma next_round_words_bytes:
  fixes rc :: u8
  assumes "length w0 = 4" "length w1 = 4" "length w2 = 4" "length w3 = 4"
  defines "v0 \<equiv> map2 (XOR) w0 (map2 (XOR) (map (\<lambda>x. sbox ! unat x) (rotate1 w3)) [rc, 0, 0, 0])"
  defines "v1 \<equiv> map2 (XOR) w1 v0"
  defines "v2 \<equiv> map2 (XOR) w2 v1"
  shows "columns_block (next_round_words (block_columns (w0 @ w1 @ w2 @ w3)) (le32 rc 0 0 0)) =
    v0 @ v1 @ v2 @ map2 (XOR) w3 v2"
  using assms(1-4)
  by (elim length4E)
     (simp add: v0_def v1_def v2_def next_round_words_def block_columns_def columns_block_def
        upt_numeral_unfold upt_rec_numeral get_byte_def le32_xor rot_word_le32 sub_word_le32)

lemma length_fips_word: "is_block key \<Longrightarrow> length (fips_word key i) = 4"
proof (induction key i rule: fips_word.induct)
  case (1 key i)
  then show ?case by (subst fips_word.simps) simp
qed

lemma rcon_table:
  "r < 10 \<Longrightarrow> aes_round_constants ! r = le32 ((mul2 ^^ r) 1) 0 0 0"
  by (simp add: numeral_eq_Suc less_Suc_eq aes_round_constants_def le32_def; elim disjE; simp add: mul2_alt)


lemma fips_word_split:
  "fips_word key (4 * r + 4) = map2 (XOR) (fips_word key (4 * r))
     (map2 (XOR) (map (\<lambda>x. sbox ! unat x) (rotate1 (fips_word key (4 * r + 3))))
        [(mul2 ^^ r) 1, 0, 0, 0])"
  "fips_word key (4 * r + 5) = map2 (XOR) (fips_word key (4 * r + 1)) (fips_word key (4 * r + 4))"
  "fips_word key (4 * r + 6) = map2 (XOR) (fips_word key (4 * r + 2)) (fips_word key (4 * r + 5))"
  "fips_word key (4 * r + 7) = map2 (XOR) (fips_word key (4 * r + 3)) (fips_word key (4 * r + 6))"
proof -
  have m: "(4 * r + 5) mod 4 \<noteq> 0" "(4 * r + 6) mod 4 \<noteq> 0" "(4 * r + 7) mod 4 \<noteq> 0"
    by presburger+
  have step0: "fips_word key i = map2 (XOR) (fips_word key k)
       (map2 (XOR) (map (\<lambda>x. sbox ! unat x) (rotate1 (fips_word key j))) [(mul2 ^^ r) 1, 0, 0, 0])"
    if "i = 4 * r + 4" "i = Suc j" "i = k + 4" for i j k
    using that by (subst fips_word.simps) simp
  have step: "fips_word key i = map2 (XOR) (fips_word key k) (fips_word key j)"
    if "i mod 4 \<noteq> 0" "i = Suc j" "i = k + 4" for i j k
  proof -
    from that(1,3) have "k mod 4 \<noteq> 0" by simp
    then show ?thesis using that(2,3) by (subst fips_word.simps) auto
  qed
  show
    "fips_word key (4 * r + 4) = map2 (XOR) (fips_word key (4 * r))
       (map2 (XOR) (map (\<lambda>x. sbox ! unat x) (rotate1 (fips_word key (4 * r + 3))))
          [(mul2 ^^ r) 1, 0, 0, 0])"
    "fips_word key (4 * r + 5) = map2 (XOR) (fips_word key (4 * r + 1)) (fips_word key (4 * r + 4))"
    "fips_word key (4 * r + 6) = map2 (XOR) (fips_word key (4 * r + 2)) (fips_word key (4 * r + 5))"
    "fips_word key (4 * r + 7) = map2 (XOR) (fips_word key (4 * r + 3)) (fips_word key (4 * r + 6))"
    by (rule step0 step m; simp)+
qed

lemma fips_round_key_words:
  "fips_round_key key r = fips_word key (4 * r) @ fips_word key (4 * r + 1) @
     fips_word key (4 * r + 2) @ fips_word key (4 * r + 3)"
  by (simp add: fips_round_key_def upt_numeral_unfold upt_rec_numeral)

lemma fips_round_key_0:
  assumes "is_block key"
  shows "fips_round_key key 0 = key"
  using assms
  by (rule list16E)
     (simp add: fips_round_key_words fips_word.simps slice_def numeral_eq_Suc)

lemma fips_round_key_step:
  assumes "is_block key" and "r < 10"
  shows "columns_block (next_round_words (block_columns (fips_round_key key r))
           (aes_round_constants ! r)) = fips_round_key key (Suc r)"
proof -
  have "fips_round_key key (Suc r) = fips_word key (4 * r + 4) @ fips_word key (4 * r + 5) @
      fips_word key (4 * r + 6) @ fips_word key (4 * r + 7)"
    by (simp add: fips_round_key_words add_ac)
  then show ?thesis
    unfolding fips_round_key_words [of key r] rcon_table [OF assms(2)] fips_word_split
    by (subst next_round_words_bytes) (simp_all add: length_fips_word assms(1))
qed

lemma round_keys_fips:
  assumes "is_block key" and "n \<le> 10"
  shows "fold (\<lambda>i keys. keys @
     [columns_block (next_round_words (block_columns (keys ! (i - 1))) (aes_round_constants ! (i - 1)))])
     [1..<Suc n] [key] = map (fips_round_key key) [0..<Suc n]"
  using assms(2)
proof (induction n)
  case 0
  then show ?case by (simp add: fips_round_key_0 assms(1))
next
  case (Suc n)
  then show ?case
    using fips_round_key_step [OF assms(1), of n] by (simp add: nth_append)
qed

lemma round_keys_schedule:
  assumes "is_block key"
  shows "aes_generate_keys128 key = map (fips_round_key key) [0..<11]"
  using round_keys_fips [OF assms, of 10]
  by (simp add: aes_generate_keys128_def AES_BLOCK128_KEYS_def AES_BLOCK128_ROUNDS_def del: upt_Suc)

section \<open>Evaluation\<close>

text \<open>
  The operations on a block given by its bytes. With these equations and the lookup equations of the
  tables the simplifier computes the cipher on concrete data.
\<close>

lemma xor_block_explicit:
 "xor_block128 [a0, a1, a2, a3, a4, a5, a6, a7, a8, a9, a10, a11, a12, a13, a14, a15]
   [b0, b1, b2, b3, b4, b5, b6, b7, b8, b9, b10, b11, b12, b13, b14, b15] =
  [a0 XOR b0, a1 XOR b1, a2 XOR b2, a3 XOR b3, a4 XOR b4, a5 XOR b5, a6 XOR b6, a7 XOR b7,
   a8 XOR b8, a9 XOR b9, a10 XOR b10, a11 XOR b11, a12 XOR b12, a13 XOR b13, a14 XOR b14, a15 XOR b15]"
  by (simp add: xor_block128_map upt_numeral_unfold upt_rec_numeral)
lemma sub_explicit:
 "sub_bytes_block128 [a0, a1, a2, a3, a4, a5, a6, a7, a8, a9, a10, a11, a12, a13, a14, a15] =
  map (\<lambda>x. sbox ! unat x) [a0, a1, a2, a3, a4, a5, a6, a7, a8, a9, a10, a11, a12, a13, a14, a15]"
  by (simp add: sub_bytes_block128_map)
lemma inv_sub_explicit:
 "inv_sub_bytes_block128 [a0, a1, a2, a3, a4, a5, a6, a7, a8, a9, a10, a11, a12, a13, a14, a15] =
  map (\<lambda>x. inv_sbox ! unat x) [a0, a1, a2, a3, a4, a5, a6, a7, a8, a9, a10, a11, a12, a13, a14, a15]"
  by (simp add: inv_sub_bytes_block128_map)
lemma mix_explicit:
 "mix_columns_block128 [a0, a1, a2, a3, a4, a5, a6, a7, a8, a9, a10, a11, a12, a13, a14, a15] =
  [mixed a0 a1 a2 a3, mixed a1 a2 a3 a0, mixed a2 a3 a0 a1, mixed a3 a0 a1 a2,
   mixed a4 a5 a6 a7, mixed a5 a6 a7 a4, mixed a6 a7 a4 a5, mixed a7 a4 a5 a6,
   mixed a8 a9 a10 a11, mixed a9 a10 a11 a8, mixed a10 a11 a8 a9, mixed a11 a8 a9 a10,
   mixed a12 a13 a14 a15, mixed a13 a14 a15 a12, mixed a14 a15 a12 a13, mixed a15 a12 a13 a14]"
  by (simp add: mix_columns_block128_def fold_upt_4 mix_column_mixed byte_access)
lemma unmix_explicit:
 "inv_mix_columns_block128 [a0, a1, a2, a3, a4, a5, a6, a7, a8, a9, a10, a11, a12, a13, a14, a15] =
  [unmixed a0 a1 a2 a3, unmixed a1 a2 a3 a0, unmixed a2 a3 a0 a1, unmixed a3 a0 a1 a2,
   unmixed a4 a5 a6 a7, unmixed a5 a6 a7 a4, unmixed a6 a7 a4 a5, unmixed a7 a4 a5 a6,
   unmixed a8 a9 a10 a11, unmixed a9 a10 a11 a8, unmixed a10 a11 a8 a9, unmixed a11 a8 a9 a10,
   unmixed a12 a13 a14 a15, unmixed a13 a14 a15 a12, unmixed a14 a15 a12 a13, unmixed a15 a12 a13 a14]"
  by (simp add: inv_mix_columns_block128_def fold_upt_4 inv_mix_column_unmixed byte_access)

lemma next_round_explicit:
  fixes rc :: u8
  shows "columns_block (next_round_words (block_columns
     [a0, a1, a2, a3, a4, a5, a6, a7, a8, a9, a10, a11, a12, a13, a14, a15]) (le32 rc 0 0 0)) =
   (let b0 = a0 XOR (sbox ! unat a13) XOR rc; b1 = a1 XOR (sbox ! unat a14); b2 = a2 XOR (sbox ! unat a15); b3 = a3 XOR (sbox ! unat a12);
        b4 = a4 XOR b0; b5 = a5 XOR b1; b6 = a6 XOR b2; b7 = a7 XOR b3;
        b8 = a8 XOR b4; b9 = a9 XOR b5; b10 = a10 XOR b6; b11 = a11 XOR b7
    in [b0, b1, b2, b3, b4, b5, b6, b7, b8, b9, b10, b11, a12 XOR b8, a13 XOR b9, a14 XOR b10, a15 XOR b11])"
  using next_round_words_bytes [of "[a0,a1,a2,a3]" "[a4,a5,a6,a7]" "[a8,a9,a10,a11]" "[a12,a13,a14,a15]" rc]
  by (simp add: Let_def)

definition next_key :: "block \<Rightarrow> u8 \<Rightarrow> block" where
  "next_key b rc = columns_block (next_round_words (block_columns b) (le32 rc 0 0 0))"

lemmas next_key_explicit = next_round_explicit [folded next_key_def]

lemma aes_keys_rec: "aes_generate_keys128 key = 
 (let k1 = next_key key 1; k2 = next_key k1 2; k3 = next_key k2 4; k4 = next_key k3 8;
  k5 = next_key k4 0x10;k6 = next_key k5 0x20;k7 = next_key k6 0x40;k8 = next_key k7 0x80;k9 = next_key k8 0x1b;k10 = next_key k9 0x36
  in [key, k1,k2,k3,k4,k5,k6,k7,k8,k9,k10])"
  by (simp add: aes_generate_keys128_def AES_BLOCK128_KEYS_def AES_BLOCK128_ROUNDS_def upt_numeral_unfold upt_rec_numeral next_key_def aes_round_constants_def Let_def le32_def)

lemmas aes_eval = xor_block_explicit sub_explicit inv_sub_explicit mix_explicit unmix_explicit shift_rows_explicit inv_shift_rows_explicit
  sbox_table inv_sbox_table aes_keys_rec next_key_explicit enc_round_def dec_round_def
  mixed_def unmixed_def mul_constants mul3_def mul2_def AES_BLOCK128_ROUNDS_def
  upt_numeral_unfold upt_rec_numeral

text \<open>The example of FIPS 197, appendix C.1.\<close>

lemma aes_fips197_example:
  "aes_encrypt128
     [0x00, 0x11, 0x22, 0x33, 0x44, 0x55, 0x66, 0x77, 0x88, 0x99, 0xaa, 0xbb, 0xcc, 0xdd, 0xee, 0xff]
     [0x00, 0x01, 0x02, 0x03, 0x04, 0x05, 0x06, 0x07, 0x08, 0x09, 0x0a, 0x0b, 0x0c, 0x0d, 0x0e, 0x0f] =
     [0x69, 0xc4, 0xe0, 0xd8, 0x6a, 0x7b, 0x04, 0x30, 0xd8, 0xcd, 0xb7, 0x80, 0x70, 0xb4, 0xc5, 0x5a]"
  by (simp add: aes_encrypt128_def aes_eval)

section \<open>Properties\<close>

text \<open>C25. Decryption inverts encryption on every block, under every key.\<close>

theorem aes_decrypt_inverts_encrypt:
  assumes "is_block b"
  shows "aes_decrypt128 (aes_encrypt128 b key) key = b"
  using assms by (rule aes_decrypt_encrypt)

lemma aes_decrypt_inverts_encrypt_witness:
  "is_block (replicate 16 (7 :: u8)) \<and>
   aes_decrypt128 (aes_encrypt128 (replicate 16 7) (replicate 16 9)) (replicate 16 9) = replicate 16 7"
  using aes_decrypt_inverts_encrypt [of "replicate 16 7" "replicate 16 9"] by simp

text \<open>C26. The key expansion is the one of FIPS 197: the eleven round keys are the 44 words of the standard's
  recurrence, although the code works on little-endian machine words.\<close>

theorem aes_key_schedule_fips:
  assumes "is_block key"
  shows "aes_generate_keys128 key = map (fips_round_key key) [0..<11]"
  using round_keys_schedule [OF assms] .

theorem aes_key_schedule_fips_witness:
  "aes_generate_keys128 [0x2b, 0x7e, 0x15, 0x16, 0x28, 0xae, 0xd2, 0xa6, 0xab, 0xf7, 0x15, 0x88, 0x09, 0xcf, 0x4f, 0x3c] =
   map (fips_round_key [0x2b, 0x7e, 0x15, 0x16, 0x28, 0xae, 0xd2, 0xa6, 0xab, 0xf7, 0x15, 0x88, 0x09, 0xcf, 0x4f, 0x3c]) [0..<11]"
  by (rule aes_key_schedule_fips) simp

end
