(* ===== verification/SHA256.thy ===== *)
theory SHA256
  imports Prelude
begin

text \<open>
  The hash function of \<open>src/encryptions/sha\<close>: \<open>hash_prepare_data_sha256\<close> pads a message in
  place in a caller's buffer, \<open>hash_sha256\<close> hashes padded data. A buffer is the list of its
  bytes; a write outside it is \<open>None\<close> (undefined behaviour), and the \<open>assert\<close> of \<open>hash_sha256\<close>
  is \<open>None\<close> as well (the program aborts). Lengths are \<open>nat\<close>: the program hashes buffers of a few
  hundred bytes, far from the width of \<open>uint64_t\<close>; the bit length stored in the padding is kept
  at 64 bits.
\<close>

definition BLOCK_SIZE_BYTES :: nat where "BLOCK_SIZE_BYTES = 64"

definition sha_round_constants :: "u32 list" where
  "sha_round_constants = [
  0x428A2F98, 0x71374491, 0xB5C0FBCF, 0xE9B5DBA5, 0x3956C25B, 0x59F111F1, 0x923F82A4, 0xAB1C5ED5,
  0xD807AA98, 0x12835B01, 0x243185BE, 0x550C7DC3, 0x72BE5D74, 0x80DEB1FE, 0x9BDC06A7, 0xC19BF174,
  0xE49B69C1, 0xEFBE4786, 0x0FC19DC6, 0x240CA1CC, 0x2DE92C6F, 0x4A7484AA, 0x5CB0A9DC, 0x76F988DA,
  0x983E5152, 0xA831C66D, 0xB00327C8, 0xBF597FC7, 0xC6E00BF3, 0xD5A79147, 0x06CA6351, 0x14292967,
  0x27B70A85, 0x2E1B2138, 0x4D2C6DFC, 0x53380D13, 0x650A7354, 0x766A0ABB, 0x81C2C92E, 0x92722C85,
  0xA2BFE8A1, 0xA81A664B, 0xC24B8B70, 0xC76C51A3, 0xD192E819, 0xD6990624, 0xF40E3585, 0x106AA070,
  0x19A4C116, 0x1E376C08, 0x2748774C, 0x34B0BCB5, 0x391C0CB3, 0x4ED8AA4A, 0x5B9CCA4F, 0x682E6FF3,
  0x748F82EE, 0x78A5636F, 0x84C87814, 0x8CC70208, 0x90BEFFFA, 0xA4506CEB, 0xBEF9A3F7, 0xC67178F2]"

section \<open>Padding\<close>

text \<open>\<open>bitlen\<close> is written most significant byte first.\<close>

definition be64_bytes :: "u64 \<Rightarrow> bytes" where
  "be64_bytes w = map (\<lambda>i. ucast (drop_bit (8 * (7 - i)) w AND 0xFF)) [0..<8]"

text \<open>
  The result is the buffer and the returned length, 0 when the padded message does not fit in
  \<open>max_len\<close> bytes.
\<close>

definition hash_prepare_data_sha256 :: "bytes \<Rightarrow> nat \<Rightarrow> nat \<Rightarrow> (bytes \<times> nat) option" where
  "hash_prepare_data_sha256 data len max_len =
     (let total_len = len + 1 + 8;
          pad_len = (BLOCK_SIZE_BYTES - total_len mod BLOCK_SIZE_BYTES) mod BLOCK_SIZE_BYTES;
          total_len = total_len + pad_len
      in if max_len < total_len then Some (data, 0)
         else
           Option.bind (mem_write len [0x80] data) (\<lambda>data.
           Option.bind (mem_write (len + 1) (replicate pad_len 0) data) (\<lambda>data.
           let bitlen = word_of_nat (len * 8) in
           Option.bind (mem_write (total_len - 8) (be64_bytes bitlen) data) (\<lambda>data.
           Some (data, total_len)))))"

section \<open>The functions on words\<close>

definition rotr :: "u32 \<Rightarrow> nat \<Rightarrow> u32" where
  "rotr x n = drop_bit n x OR push_bit (32 - n) x"

definition sha_ch :: "u32 \<Rightarrow> u32 \<Rightarrow> u32 \<Rightarrow> u32" where
  "sha_ch x y z = (x AND y) XOR (NOT x AND z)"

definition sha_maj :: "u32 \<Rightarrow> u32 \<Rightarrow> u32 \<Rightarrow> u32" where
  "sha_maj x y z = (x AND y) XOR (x AND z) XOR (y AND z)"

definition bsig0 :: "u32 \<Rightarrow> u32" where
  "bsig0 x = rotr x 2 XOR rotr x 13 XOR rotr x 22"

definition bsig1 :: "u32 \<Rightarrow> u32" where
  "bsig1 x = rotr x 6 XOR rotr x 11 XOR rotr x 25"

definition ssig0 :: "u32 \<Rightarrow> u32" where
  "ssig0 x = rotr x 7 XOR rotr x 18 XOR drop_bit 3 x"

definition ssig1 :: "u32 \<Rightarrow> u32" where
  "ssig1 x = rotr x 17 XOR rotr x 19 XOR drop_bit 10 x"

section \<open>One block\<close>

text \<open>The message schedule \<open>w[64]\<close>: 16 words read from the block, the rest computed in order.\<close>

definition be32 :: "u8 \<Rightarrow> u8 \<Rightarrow> u8 \<Rightarrow> u8 \<Rightarrow> u32" where
  "be32 b0 b1 b2 b3 =
     push_bit 24 (ucast b0) OR push_bit 16 (ucast b1) OR push_bit 8 (ucast b2) OR ucast b3"

definition schedule_start :: "bytes \<Rightarrow> u32 list" where
  "schedule_start block =
     map (\<lambda>i. be32 (block ! (i * 4)) (block ! (i * 4 + 1)) (block ! (i * 4 + 2)) (block ! (i * 4 + 3)))
       [0..<16]"

definition schedule_next :: "u32 list \<Rightarrow> nat \<Rightarrow> u32" where
  "schedule_next w i = ssig1 (w ! (i - 2)) + w ! (i - 7) + ssig0 (w ! (i - 15)) + w ! (i - 16)"

definition message_schedule :: "bytes \<Rightarrow> u32 list" where
  "message_schedule block =
     fold (\<lambda>i w. w @ [schedule_next w i]) [16..<64] (schedule_start block)"

record chain =
  hv_a :: u32  hv_b :: u32  hv_c :: u32  hv_d :: u32
  hv_e :: u32  hv_f :: u32  hv_g :: u32  hv_h :: u32

definition sha_initial :: chain where
  "sha_initial = \<lparr>
     hv_a = 0x6a09e667, hv_b = 0xbb67ae85, hv_c = 0x3c6ef372, hv_d = 0xa54ff53a,
     hv_e = 0x510e527f, hv_f = 0x9b05688c, hv_g = 0x1f83d9ab, hv_h = 0x5be0cd19\<rparr>"

definition sha_round :: "u32 list \<Rightarrow> nat \<Rightarrow> chain \<Rightarrow> chain" where
  "sha_round w i v =
     (let t1 = hv_h v + bsig1 (hv_e v) + sha_ch (hv_e v) (hv_f v) (hv_g v)
                 + sha_round_constants ! i + w ! i;
          t2 = bsig0 (hv_a v) + sha_maj (hv_a v) (hv_b v) (hv_c v)
      in \<lparr>hv_a = t1 + t2, hv_b = hv_a v, hv_c = hv_b v, hv_d = hv_c v,
          hv_e = hv_d v + t1, hv_f = hv_e v, hv_g = hv_f v, hv_h = hv_g v\<rparr>)"

definition sha_compress :: "bytes \<Rightarrow> chain \<Rightarrow> chain" where
  "sha_compress block h =
     (let v = fold (sha_round (message_schedule block)) [0..<64] h
      in \<lparr>hv_a = hv_a h + hv_a v, hv_b = hv_b h + hv_b v,
          hv_c = hv_c h + hv_c v, hv_d = hv_d h + hv_d v,
          hv_e = hv_e h + hv_e v, hv_f = hv_f h + hv_f v,
          hv_g = hv_g h + hv_g v, hv_h = hv_h h + hv_h v\<rparr>)"

section \<open>The whole message\<close>

definition be32_bytes :: "u32 \<Rightarrow> bytes" where
  "be32_bytes w = [ucast (drop_bit 24 w AND 0xFF), ucast (drop_bit 16 w AND 0xFF),
                   ucast (drop_bit 8 w AND 0xFF), ucast (w AND 0xFF)]"

definition chain_bytes :: "chain \<Rightarrow> bytes" where
  "chain_bytes h = concat (map be32_bytes
     [hv_a h, hv_b h, hv_c h, hv_d h, hv_e h, hv_f h, hv_g h, hv_h h])"

definition sha_blocks :: "bytes \<Rightarrow> nat \<Rightarrow> chain" where
  "sha_blocks data num_blocks =
     fold (\<lambda>block_index. sha_compress (slice (block_index * BLOCK_SIZE_BYTES) BLOCK_SIZE_BYTES data))
       [0..<num_blocks] sha_initial"

text \<open>
  The 32 bytes of \<open>out_hash\<close>; \<open>None\<close> when the assertion on the length fails, or the blocks run
  past the buffer.
\<close>

definition hash_sha256 :: "bytes \<Rightarrow> nat \<Rightarrow> bytes option" where
  "hash_sha256 data len =
     (if len mod BLOCK_SIZE_BYTES \<noteq> 0 \<or> length data < len then None
      else Some (chain_bytes (sha_blocks data (len div BLOCK_SIZE_BYTES))))"

section \<open>The padding of the standard\<close>

text \<open>
  \<open>padded m\<close> is the message, a byte 0x80, the least number of zeros that completes a block
  together with the 8 length bytes, and the length in bits.
\<close>

definition pad_zeros :: "nat \<Rightarrow> nat" where
  "pad_zeros len = (BLOCK_SIZE_BYTES - (len + 9) mod BLOCK_SIZE_BYTES) mod BLOCK_SIZE_BYTES"

definition padded :: "bytes \<Rightarrow> bytes" where
  "padded m = m @ [0x80] @ replicate (pad_zeros (length m)) 0 @ be64_bytes (word_of_nat (length m * 8))"

definition padded_length :: "nat \<Rightarrow> nat" where
  "padded_length len = len + 9 + pad_zeros len"

lemma length_be64_bytes [simp, len_simps]: "length (be64_bytes w) = 8"
  by (simp add: be64_bytes_def)

lemma length_padded [simp, len_simps]: "length (padded m) = padded_length (length m)"
  by (simp add: padded_def padded_length_def)

lemma complete_block: "(n + (64 - n mod 64) mod 64) mod 64 = (0 :: nat)"
proof (cases "n mod 64 = 0")
  case True
  then show ?thesis by simp
next
  case False
  define q r where "q = n div 64" and "r = n mod 64"
  have "n = q * 64 + r" "r < 64" by (simp_all add: q_def r_def)
  then have "n + (64 - r) = (q + 1) * 64" by simp
  then have "n + (64 - n mod 64) = (q + 1) * 64" by (simp only: r_def)
  moreover have "(64 - n mod 64) mod 64 = 64 - n mod 64" using False by simp
  ultimately show ?thesis by (simp only: mod_mult_self2_is_0)
qed

lemma padded_length_mod: "padded_length len mod 64 = 0"
  using complete_block [of "len + 9"]
  by (simp add: padded_length_def pad_zeros_def BLOCK_SIZE_BYTES_def)

lemma padded_length_bounds: "len + 9 \<le> padded_length len" "padded_length len < len + 9 + 64"
  by (simp_all add: padded_length_def pad_zeros_def BLOCK_SIZE_BYTES_def)

lemma prepare_unfold:
  "hash_prepare_data_sha256 data len max_len =
     (if max_len < padded_length len then Some (data, 0)
      else Option.bind (mem_write len [0x80] data) (\<lambda>data.
           Option.bind (mem_write (len + 1) (replicate (pad_zeros len) 0) data) (\<lambda>data.
           Option.bind (mem_write (padded_length len - 8) (be64_bytes (word_of_nat (len * 8))) data)
             (\<lambda>data. Some (data, padded_length len)))))"
proof -
  have "len + 1 + 8 = len + 9" by simp
  then show ?thesis
    by (simp only: hash_prepare_data_sha256_def Let_def padded_length_def pad_zeros_def)
qed

lemma prepare_padded:
  assumes "max_len \<le> length data" and "padded_length len \<le> max_len"
  shows "hash_prepare_data_sha256 data len max_len =
    Some (padded (take len data) @ drop (padded_length len) data, padded_length len)"
proof -
  define z where "z = pad_zeros len"
  have n: "len + z + 9 \<le> length data" and t: "padded_length len = len + z + 9"
    using assms by (simp_all add: z_def padded_length_def)
  from n have "len \<le> length data" by simp
  then obtain m d1 where d1: "data = m @ d1" "length m = len" by (rule split_at)
  with n have "1 \<le> length d1" by simp
  then obtain c d2 where d2: "d1 = c @ d2" "length c = 1" by (rule split_at)
  with d1 n have "z \<le> length d2" by simp
  then obtain zs d3 where d3: "d2 = zs @ d3" "length zs = z" by (rule split_at)
  with d1 d2 n have "8 \<le> length d3" by simp
  then obtain l rest where d4: "d3 = l @ rest" "length l = 8" by (rule split_at)
  have data: "data = m @ c @ zs @ l @ rest" using d1 d2 d3 d4 by simp
  have "mem_write len [0x80] data = Some (m @ [0x80] @ zs @ l @ rest)"
    unfolding data using d1 d2 by (intro mem_write_part) simp_all
  moreover have "mem_write (len + 1) (replicate z 0) (m @ [0x80] @ zs @ l @ rest)
      = Some (m @ [0x80] @ replicate z 0 @ l @ rest)"
    using mem_write_part [of "len + 1" "m @ [0x80]" "replicate z 0" zs "l @ rest"] d1 d3 by simp
  moreover have "mem_write (len + z + 9 - 8) (be64_bytes w) (m @ [0x80] @ replicate z 0 @ l @ rest)
      = Some (m @ [0x80] @ replicate z 0 @ be64_bytes w @ rest)" for w
    using mem_write_part [of "len + z + 9 - 8" "m @ [0x80] @ replicate z 0" "be64_bytes w" l rest] d1 d4
    by simp
  ultimately have "hash_prepare_data_sha256 data len max_len =
      Some (m @ [0x80] @ replicate z 0 @ be64_bytes (word_of_nat (len * 8)) @ rest, len + z + 9)"
    using assms(2) unfolding prepare_unfold t z_def [symmetric] by simp
  then show ?thesis
    using d1 d2 d3 d4 by (simp add: padded_def z_def [symmetric] t)
qed

lemma prepare_too_long:
  "max_len < padded_length len \<Longrightarrow> hash_prepare_data_sha256 data len max_len = Some (data, 0)"
  by (simp add: prepare_unfold)

section \<open>The functions on words\<close>

lemma rotr_word_rotr:
  assumes "0 < n" "n < 32"
  shows "rotr x n = word_rotr n x"
proof (rule bit_word_eqI)
  fix i assume i: "i < LENGTH(32)"
  show "bit (rotr x n) i \<longleftrightarrow> bit (word_rotr n x) i"
  proof (cases "n + i < 32")
    case True
    then show ?thesis using i
      by (auto simp: rotr_def bit_or_iff bit_drop_bit_eq bit_push_bit_iff bit_word_rotr_iff add.commute)
  next
    case False
    then have "(n + i) mod 32 = i - (32 - n)" "\<not> bit x (n + i)" "32 - n \<le> i"
      using assms i bit_imp_le_length [of x "n + i"] by (auto simp: mod_if)
    then show ?thesis using False assms i
      by (simp add: rotr_def bit_or_iff bit_drop_bit_eq bit_push_bit_iff bit_word_rotr_iff add.commute)
  qed
qed

lemma sha_ch_choose: "i < 32 \<Longrightarrow> bit (sha_ch x y z) i = (if bit x i then bit y i else bit z i)"
  by (simp add: sha_ch_def bit_xor_iff bit_and_iff bit_not_iff)

lemma sha_maj_majority:
  "bit (sha_maj x y z) i =
     (2 \<le> of_bool (bit x i) + of_bool (bit y i) + (of_bool (bit z i) :: nat))"
  by (auto simp: sha_maj_def bit_xor_iff bit_and_iff)

section \<open>The message schedule\<close>

lemma schedule_prefix:
  "length ws = 16 \<Longrightarrow>
   length (fold (\<lambda>i w. w @ [schedule_next w i]) [16..<16 + n] ws) = 16 + n \<and>
   take 16 (fold (\<lambda>i w. w @ [schedule_next w i]) [16..<16 + n] ws) = ws \<and>
   (\<forall>t. 16 \<le> t \<and> t < 16 + n \<longrightarrow>
     fold (\<lambda>i w. w @ [schedule_next w i]) [16..<16 + n] ws ! t =
     schedule_next (fold (\<lambda>i w. w @ [schedule_next w i]) [16..<16 + n] ws) t)"
proof (induction n)
  case 0
  then show ?case by auto
next
  case (Suc n)
  define w where "w = fold (\<lambda>i w. w @ [schedule_next w i]) [16..<16 + n] ws"
  have w: "length w = 16 + n" "take 16 w = ws"
    "\<And>t. 16 \<le> t \<Longrightarrow> t < 16 + n \<Longrightarrow> w ! t = schedule_next w t"
    using Suc unfolding w_def by auto
  have f: "fold (\<lambda>i w. w @ [schedule_next w i]) [16..<16 + Suc n] ws = w @ [schedule_next w (16 + n)]"
    unfolding w_def by (subst add_Suc_right, subst upt_Suc) simp
  have loc: "schedule_next (w @ [x]) t = schedule_next w t" if "16 \<le> t" "t \<le> 16 + n" for x t
    using that w(1) by (auto simp: schedule_next_def nth_append)
  have t: "t < 16 + Suc n \<longleftrightarrow> t < 16 + n \<or> t = 16 + n" for t by auto
  show ?case
    unfolding f t using w loc by (auto simp: nth_append)
qed

lemma schedule_equations:
  fixes block
  defines "w \<equiv> message_schedule block"
  shows "length w = 64"
    and "i < 16 \<Longrightarrow> w ! i = be32 (block ! (i * 4)) (block ! (i * 4 + 1)) (block ! (i * 4 + 2)) (block ! (i * 4 + 3))"
    and "16 \<le> t \<Longrightarrow> t < 64 \<Longrightarrow> w ! t = schedule_next w t"
proof -
  have l: "length (schedule_start block) = 16" by (simp add: schedule_start_def)
  have e: "16 + 48 = (64 :: nat)" by simp
  note p = schedule_prefix [OF l, of 48, unfolded e, folded message_schedule_def, folded w_def]
  show "length w = 64" "16 \<le> t \<Longrightarrow> t < 64 \<Longrightarrow> w ! t = schedule_next w t" using p by auto
  assume "i < 16"
  then have "w ! i = take 16 w ! i" by simp
  also have "\<dots> = schedule_start block ! i" using p by simp
  finally show "w ! i = be32 (block ! (i * 4)) (block ! (i * 4 + 1)) (block ! (i * 4 + 2)) (block ! (i * 4 + 3))"
    using \<open>i < 16\<close> by (simp add: schedule_start_def)
qed

section \<open>Hashing\<close>

text \<open>The reference: the compression function folded over the message's blocks.\<close>

fun blocks_of :: "nat \<Rightarrow> bytes \<Rightarrow> bytes list" where
  "blocks_of 0 data = []"
| "blocks_of (Suc n) data = take BLOCK_SIZE_BYTES data # blocks_of n (drop BLOCK_SIZE_BYTES data)"

definition sha256_reference :: "bytes \<Rightarrow> bytes" where
  "sha256_reference m =
     chain_bytes (fold sha_compress (blocks_of (length (padded m) div 64) (padded m)) sha_initial)"

lemma blocks_of_slices:
  "blocks_of n data = map (\<lambda>i. slice (i * BLOCK_SIZE_BYTES) BLOCK_SIZE_BYTES data) [0..<n]"
proof (induction n arbitrary: data)
  case 0
  then show ?case by simp
next
  case (Suc n)
  have "[0..<Suc n] = 0 # map Suc [0..<n]" by (simp add: upt_conv_Cons map_Suc_upt del: upt_Suc)
  then show ?case by (simp add: Suc.IH slice_def comp_def add.commute)
qed

lemma sha_blocks_fold: "sha_blocks data n = fold sha_compress (blocks_of n data) sha_initial"
  by (simp add: sha_blocks_def blocks_of_slices fold_map comp_def)

lemma blocks_of_append: "n * 64 \<le> length xs \<Longrightarrow> blocks_of n (xs @ ys) = blocks_of n xs"
  by (induction n arbitrary: xs) (simp_all add: BLOCK_SIZE_BYTES_def)

lemma length_chain_bytes [simp, len_simps]: "length (chain_bytes h) = 32"
  by (simp add: chain_bytes_def be32_bytes_def)

lemma hash_padded:
  "hash_sha256 (padded m @ rest) (padded_length (length m)) = Some (sha256_reference m)"
proof -
  have "padded_length (length m) div 64 * 64 \<le> length (padded m)" by simp
  then show ?thesis
    by (simp add: hash_sha256_def BLOCK_SIZE_BYTES_def padded_length_mod sha_blocks_fold
        sha256_reference_def blocks_of_append)
qed

section \<open>Properties\<close>



text \<open>The message schedule the code builds in its two loops is the one of FIPS 180-4: the first
  16 words are the big-endian words of the block, each later one is given by the recurrence
  with the two small sigma functions as rotations and shifts; the code's shift-and-or rotation is
  the rotation.\<close>

theorem sha256_schedule_fips:
  assumes "t < 64"
  shows "let w = message_schedule block in length w = 64 \<and>
    w ! t =
      (if t < 16 then be32 (block ! (t * 4)) (block ! (t * 4 + 1)) (block ! (t * 4 + 2)) (block ! (t * 4 + 3))
       else (word_rotr 17 (w ! (t - 2)) XOR word_rotr 19 (w ! (t - 2)) XOR drop_bit 10 (w ! (t - 2))) +
            w ! (t - 7) +
            (word_rotr 7 (w ! (t - 15)) XOR word_rotr 18 (w ! (t - 15)) XOR drop_bit 3 (w ! (t - 15))) +
            w ! (t - 16))"
  using schedule_equations(1) [of block] schedule_equations(2,3) [of t block] assms
  by (auto simp: Let_def schedule_next_def ssig0_def ssig1_def rotr_word_rotr)

lemma sha256_schedule_fips_witness:
  "length (message_schedule (replicate 64 1)) = 64 \<and> message_schedule (replicate 64 1) ! 3 = 0x01010101"
  using sha256_schedule_fips [of 3 "replicate 64 1"] by (simp add: be32_def Let_def)

end
