(* ===== verification/DH.thy ===== *)
theory DH
  imports Prelude
begin

text \<open>
  The Diffie-Hellman keys of \<open>src/encryptions/dh/dh.c\<close>. The big-integer arithmetic is the GMP
  library, which is not part of the repository: the functions used from it are a parameter
  \<open>G\<close> (record \<open>gmp\<close>), and \<open>gmp_documented G\<close> states what the GMP manual promises of them. An
  \<open>mpz_t\<close> of the program is a natural number. Random bytes come from \<open>/dev/urandom\<close>; the draws
  are an argument. The static variables \<open>p\<close> and \<open>g\<close> of the file are the record \<open>dh_globals\<close>.
\<close>

section \<open>The library functions used\<close>

record gmp =
  mpz_powm :: "nat \<Rightarrow> nat \<Rightarrow> nat \<Rightarrow> nat"
  mpz_import :: "int \<Rightarrow> bytes \<Rightarrow> nat"
  mpz_export :: "int \<Rightarrow> nat \<Rightarrow> bytes"
  mpz_nextprime :: "nat \<Rightarrow> nat"
  mpz_setbit :: "nat \<Rightarrow> nat \<Rightarrow> nat"

text \<open>The value of bytes with the least significant one first (GMP's word order \<open>-1\<close>).\<close>

primrec le_value :: "bytes \<Rightarrow> nat" where
  "le_value [] = 0"
| "le_value (b # bs) = unat b + 256 * le_value bs"

definition gmp_documented :: "gmp \<Rightarrow> bool" where
  "gmp_documented G \<longleftrightarrow>
     (\<forall>b e m. 0 < m \<longrightarrow> mpz_powm G b e m = b ^ e mod m) \<and>
     (\<forall>bs. mpz_import G (-1) bs = le_value bs) \<and>
     (\<forall>v. le_value (mpz_export G (-1) v) = v) \<and>
     (\<forall>v n. v < 256 ^ n \<longrightarrow> length (mpz_export G (-1) v) \<le> n) \<and>
     (\<forall>n. n < mpz_nextprime G n) \<and>
     (\<forall>n k. mpz_setbit G n k = n OR 2 ^ k)"

section \<open>Globals and keys\<close>

definition DH_KEY_BYTES :: nat where "DH_KEY_BYTES = 256"
definition G_GLOBAL :: nat where "G_GLOBAL = 5"
definition ENDIAN_MPZ :: int where "ENDIAN_MPZ = -1"

record dh_globals =
  dh_p :: nat
  dh_g :: nat

record dh_identity_key =
  this_private :: nat
  this_public :: nat

text \<open>
  The session key points to a shared identity key, which no code changes once sessions
  refer to it; the record holds its value.
\<close>

record dh_session_key =
  ses_identity :: dh_identity_key
  other_public :: nat
  common_key :: nat

section \<open>Import and export\<close>

text \<open>
  \<open>export_mpz_fixed\<close> fills the \<open>sz\<close> bytes of \<open>out\<close>. A value of more than \<open>sz\<close> bytes runs over
  the buffer: \<open>None\<close>.
\<close>

definition export_mpz_fixed :: "gmp \<Rightarrow> bytes \<Rightarrow> nat \<Rightarrow> nat \<Rightarrow> bytes option" where
  "export_mpz_fixed G out val sz =
     (let bs = mpz_export G ENDIAN_MPZ val; count = length bs
      in Option.bind (mem_write 0 bs out) (\<lambda>out.
         if count < sz then
           let diff = sz - count
           in if ENDIAN_MPZ = 1 then
                Option.bind (mem_read 0 count out) (\<lambda>moved.
                Option.bind (mem_write diff moved out) (\<lambda>out.
                mem_write 0 (replicate diff 0) out))
              else if ENDIAN_MPZ = -1 then mem_write count (replicate diff 0) out
              else Some out
         else Some out))"

definition get_prime_dh :: "gmp \<Rightarrow> dh_globals \<Rightarrow> bytes \<Rightarrow> bytes option" where
  "get_prime_dh G s res = export_mpz_fixed G res (dh_p s) DH_KEY_BYTES"

definition get_generator_dh :: "dh_globals \<Rightarrow> u64" where
  "get_generator_dh s = word_of_nat (dh_g s)"

definition set_prime_dh :: "gmp \<Rightarrow> bytes \<Rightarrow> dh_globals \<Rightarrow> dh_globals" where
  "set_prime_dh G value s = s\<lparr>dh_p := mpz_import G ENDIAN_MPZ value\<rparr>"

definition set_generator_dh :: "u64 \<Rightarrow> dh_globals \<Rightarrow> dh_globals" where
  "set_generator_dh value s = s\<lparr>dh_g := unat value\<rparr>"

section \<open>Generating keys\<close>

definition random_mpz_from_urandom :: "gmp \<Rightarrow> bytes \<Rightarrow> nat" where
  "random_mpz_from_urandom G buffer = mpz_import G ENDIAN_MPZ buffer"

text \<open>
  The loop draws until the prime is below \<open>p\<close>. The draws are a list; \<open>None\<close> when it is used up
  before the loop ends. The second component is the draws left.
\<close>

fun generate_prime_low_p :: "gmp \<Rightarrow> dh_globals \<Rightarrow> bytes list \<Rightarrow> (nat \<times> bytes list) option" where
  "generate_prime_low_p G s [] = None"
| "generate_prime_low_p G s (d # ds) =
     (let res = mpz_nextprime G (random_mpz_from_urandom G d)
      in if res < dh_p s then Some (res, ds) else generate_prime_low_p G s ds)"

text \<open>\<open>draw\<close> are the \<open>bytes - 1\<close> random bytes read.\<close>

definition generate_prime :: "gmp \<Rightarrow> nat \<Rightarrow> bytes \<Rightarrow> nat" where
  "generate_prime G nbytes draw =
     (let res = random_mpz_from_urandom G draw;
          res = mpz_setbit G res (nbytes * 8 - 1);
          res = mpz_setbit G res 0
      in mpz_nextprime G res)"

definition init_dh :: "gmp \<Rightarrow> bytes \<Rightarrow> dh_globals" where
  "init_dh G draw = \<lparr>dh_p = generate_prime G DH_KEY_BYTES draw, dh_g = G_GLOBAL\<rparr>"

definition create_dh_identity_key :: dh_identity_key where
  "create_dh_identity_key = \<lparr>this_private = 0, this_public = 0\<rparr>"

definition create_dh_session_key :: "dh_identity_key \<Rightarrow> dh_session_key" where
  "create_dh_session_key identity =
     \<lparr>ses_identity = identity, other_public = 0, common_key = 0\<rparr>"

definition gen_dh_prime_identity_key ::
  "gmp \<Rightarrow> dh_globals \<Rightarrow> bytes list \<Rightarrow> dh_identity_key \<Rightarrow> (dh_identity_key \<times> bytes list) option" where
  "gen_dh_prime_identity_key G s draws key =
     (case generate_prime_low_p G s draws of
        None \<Rightarrow> None
      | Some (x, ds) \<Rightarrow>
          Some (key\<lparr>this_private := x, this_public := mpz_powm G (dh_g s) x (dh_p s)\<rparr>, ds))"

definition set_dh_prime_identity_key ::
  "gmp \<Rightarrow> dh_globals \<Rightarrow> bytes \<Rightarrow> dh_identity_key \<Rightarrow> dh_identity_key" where
  "set_dh_prime_identity_key G s val key =
     (let x = mpz_import G ENDIAN_MPZ val
      in key\<lparr>this_private := x, this_public := mpz_powm G (dh_g s) x (dh_p s)\<rparr>)"

definition get_dh_public_identity_key :: "gmp \<Rightarrow> dh_identity_key \<Rightarrow> bytes \<Rightarrow> bytes option" where
  "get_dh_public_identity_key G key res = export_mpz_fixed G res (this_public key) DH_KEY_BYTES"

definition get_dh_key_other_public :: "gmp \<Rightarrow> dh_session_key \<Rightarrow> bytes \<Rightarrow> bytes option" where
  "get_dh_key_other_public G key res = export_mpz_fixed G res (other_public key) DH_KEY_BYTES"

definition set_dh_key_other_public ::
  "gmp \<Rightarrow> dh_globals \<Rightarrow> bytes \<Rightarrow> dh_session_key \<Rightarrow> dh_session_key" where
  "set_dh_key_other_public G s val key =
     (let y = mpz_import G ENDIAN_MPZ val
      in key\<lparr>other_public := y,
             common_key := mpz_powm G y (this_private (ses_identity key)) (dh_p s)\<rparr>)"

definition get_dh_common_key :: "gmp \<Rightarrow> dh_session_key \<Rightarrow> bytes \<Rightarrow> bytes option" where
  "get_dh_common_key G key res = export_mpz_fixed G res (common_key key) DH_KEY_BYTES"

section \<open>Values and their bytes\<close>

lemma le_value_append: "le_value (xs @ ys) = le_value xs + 256 ^ length xs * le_value ys"
  by (induction xs) (simp_all add: algebra_simps)

lemma le_value_zeros [simp]: "le_value (replicate n 0) = 0"
  by (induction n) simp_all

lemma le_value_less: "le_value bs < 256 ^ length bs"
proof (induction bs)
  case Nil
  then show ?case by simp
next
  case (Cons b bs)
  have "unat b + 256 * le_value bs < 256 * (le_value bs + 1)"
    using unat_u8_less [of b] by simp
  also have "\<dots> \<le> 256 * 256 ^ length bs" using Cons by (simp only: mult_le_mono2 Suc_eq_plus1 [symmetric] Suc_leI)
  finally show ?case by simp
qed

lemma le_value_inj: "length xs = length ys \<Longrightarrow> le_value xs = le_value ys \<Longrightarrow> xs = ys"
proof (induction xs ys rule: list_induct2)
  case Nil
  then show ?case by simp
next
  case (Cons x xs y ys)
  have "(unat x + 256 * le_value xs) mod 256 = (unat y + 256 * le_value ys) mod 256"
    using Cons.prems by (simp only: le_value.simps)
  then have "unat x = unat y" using unat_u8_less [of x] unat_u8_less [of y] by simp
  then have "x = y" by (rule unsigned_word_eqI)
  with Cons show ?case by simp
qed

text \<open>What a key buffer holds after an export: the bytes of the value, zeros above.\<close>

lemma export_fixed:
  assumes "gmp_documented G" "val < 256 ^ sz" "length out = sz"
  obtains bs where "export_mpz_fixed G out val sz = Some bs" "length bs = sz" "le_value bs = val"
proof -
  define e where "e = mpz_export G (-1) val"
  have e: "length e \<le> sz" "le_value e = val"
    using assms(1,2) by (auto simp: gmp_documented_def e_def)
  have "export_mpz_fixed G out val sz = Some (e @ replicate (sz - length e) 0)"
    using e assms(3)
    by (auto simp: export_mpz_fixed_def ENDIAN_MPZ_def e_def [symmetric] Let_def mem_write_def)
  moreover have "le_value (e @ replicate (sz - length e) 0) = val"
    using e by (simp add: le_value_append)
  ultimately show ?thesis using that e by simp
qed

lemma length_export:
  assumes "length out = n" "export_mpz_fixed G out val n = Some bs"
  shows "length bs = n"
  using assms
  by (auto simp: export_mpz_fixed_def ENDIAN_MPZ_def mem_write_def Let_def split: if_splits Option.bind_splits)

lemma import_export:
  assumes "gmp_documented G" "val < 256 ^ sz" "length out = sz"
    and "export_mpz_fixed G out val sz = Some bs"
  shows "mpz_import G ENDIAN_MPZ bs = val" and "length bs = sz"
  using export_fixed [OF assms(1-3)] assms(1,4)
  by (auto simp: gmp_documented_def ENDIAN_MPZ_def)

section \<open>Agreement\<close>

text \<open>The identity is a key pair for the globals.\<close>

definition key_pair :: "dh_globals \<Rightarrow> dh_identity_key \<Rightarrow> bool" where
  "key_pair s key \<longleftrightarrow> this_public key = dh_g s ^ this_private key mod dh_p s"

definition dh_usable :: "dh_globals \<Rightarrow> bool" where
  "dh_usable s \<longleftrightarrow> 0 < dh_p s \<and> dh_p s \<le> 256 ^ DH_KEY_BYTES"

lemma gen_identity_key_pair:
  assumes "gmp_documented G" "dh_usable s"
    and "gen_dh_prime_identity_key G s draws key = Some (key', ds)"
  shows "key_pair s key'" and "this_private key' < dh_p s"
proof -
  have lt: "generate_prime_low_p G s draws = Some (x, ds) \<Longrightarrow> x < dh_p s" for x
    by (induction G s draws rule: generate_prime_low_p.induct) (auto simp: Let_def split: if_splits)
  show "key_pair s key'" "this_private key' < dh_p s"
    using assms lt
    by (auto simp: gen_dh_prime_identity_key_def key_pair_def gmp_documented_def dh_usable_def
        split: option.splits)
qed

lemma public_less: "dh_usable s \<Longrightarrow> key_pair s key \<Longrightarrow> this_public key < 256 ^ DH_KEY_BYTES"
  by (auto simp: dh_usable_def key_pair_def intro: order.strict_trans2 mod_less_divisor)

text \<open>Two sessions that exchange the exported public keys compute the same common key.\<close>

lemma dh_agreement:
  assumes "gmp_documented G" "dh_usable s" "key_pair s a" "key_pair s b"
    and "length out = DH_KEY_BYTES" "length out' = DH_KEY_BYTES"
    and "get_dh_public_identity_key G a out = Some pub_a"
    and "get_dh_public_identity_key G b out' = Some pub_b"
  shows "common_key (set_dh_key_other_public G s pub_b (create_dh_session_key a)) =
         common_key (set_dh_key_other_public G s pub_a (create_dh_session_key b))"
proof -
  have "mpz_import G ENDIAN_MPZ pub_a = this_public a" "mpz_import G ENDIAN_MPZ pub_b = this_public b"
    using assms import_export(1) public_less unfolding get_dh_public_identity_key_def by metis+
  then show ?thesis
    using assms(1-4)
    by (simp add: set_dh_key_other_public_def create_dh_session_key_def gmp_documented_def
        key_pair_def dh_usable_def power_mod power_mult [symmetric] mult.commute)
qed

section \<open>An instance of the library\<close>

text \<open>The documented behaviour is that of these functions on naturals, least significant byte first.\<close>

fun le_digits :: "nat \<Rightarrow> bytes" where
  "le_digits n = (if n = 0 then [] else word_of_nat (n mod 256) # le_digits (n div 256))"

declare le_digits.simps [simp del]

definition reference_gmp :: gmp where
  "reference_gmp = \<lparr>mpz_powm = \<lambda>b e m. b ^ e mod m, mpz_import = \<lambda>order bs. le_value bs,
     mpz_export = \<lambda>order v. le_digits v, mpz_nextprime = Suc, mpz_setbit = \<lambda>n k. n OR 2 ^ k\<rparr>"

lemma le_value_digits: "le_value (le_digits v) = v"
proof (induction v rule: le_digits.induct)
  case (1 n)
  have "unat (word_of_nat (n mod 256) :: u8) = n mod 256"
    by (simp add: unsigned_of_nat take_bit_nat_eq_self_iff)
  then show ?case using 1 by (subst le_digits.simps) auto
qed

lemma length_le_digits: "v < 256 ^ n \<Longrightarrow> length (le_digits v) \<le> n"
proof (induction n arbitrary: v)
  case 0
  then show ?case by (simp add: le_digits.simps)
next
  case (Suc n)
  then have "v div 256 < 256 ^ n" by (simp add: div_less_iff_less_mult mult.commute)
  with Suc.IH [of "v div 256"] show ?case by (subst le_digits.simps) simp
qed

lemma reference_gmp_documented: "gmp_documented reference_gmp"
  by (simp add: gmp_documented_def reference_gmp_def le_value_digits length_le_digits)

end
