(* ===== verification/Encryptions.thy ===== *)
theory Encryptions
  imports AES SHA256 DH
begin

text \<open>
  The interface of the crypto library, \<open>src/encryptions/source/encryptions.c\<close>: globals, identity keys,
  the session key data (\<open>key_data_t\<close>), the derivation of the AES key from a Diffie-Hellman
  exchange, and \<open>symmetric_encrypt\<close>/\<open>symmetric_decrypt\<close>, which run AES over a buffer in place,
  16 bytes at a time, the rest padded with zeros and truncated. The functions return \<open>None\<close> where the program
  aborts.
\<close>

definition ASYMMETRIC_KEY_BYTES :: nat where "ASYMMETRIC_KEY_BYTES = 256"
definition SHA_PADDING :: nat where "SHA_PADDING = 64"
definition AES_BYTES :: nat where "AES_BYTES = 16"

type_synonym identity_key = dh_identity_key

record key_data =
  kd_identity :: identity_key
  kd_session :: dh_session_key
  symmetric_key :: block

section \<open>Globals and keys\<close>

definition init_encryption :: "gmp \<Rightarrow> bytes \<Rightarrow> dh_globals" where
  "init_encryption G draw = init_dh G draw"

definition get_globals :: "gmp \<Rightarrow> dh_globals \<Rightarrow> bytes \<Rightarrow> (u64 \<times> bytes) option" where
  "get_globals G s p = Option.bind (get_prime_dh G s p) (\<lambda>p. Some (get_generator_dh s, p))"

definition set_globals :: "gmp \<Rightarrow> u64 \<Rightarrow> bytes \<Rightarrow> dh_globals \<Rightarrow> dh_globals" where
  "set_globals G g p s = set_generator_dh g (set_prime_dh G p s)"

definition init_id_key ::
  "gmp \<Rightarrow> dh_globals \<Rightarrow> bytes list \<Rightarrow> (identity_key \<times> bytes list) option" where
  "init_id_key G s draws = gen_dh_prime_identity_key G s draws create_dh_identity_key"

definition init_key :: "identity_key \<Rightarrow> key_data" where
  "init_key identity = \<lparr>kd_identity = identity, kd_session = create_dh_session_key identity,
     symmetric_key = replicate 16 0\<rparr>"

text \<open>\<open>free_key\<close> clears the big integers and wipes the symmetric key.\<close>

definition free_key :: "key_data \<Rightarrow> key_data" where
  "free_key key = key\<lparr>kd_session := create_dh_session_key (ses_identity (kd_session key)),
     symmetric_key := replicate 16 0\<rparr>"

definition get_public_identity_key :: "gmp \<Rightarrow> identity_key \<Rightarrow> bytes \<Rightarrow> bytes option" where
  "get_public_identity_key G key res = get_dh_public_identity_key G key res"

definition get_other_public_key :: "gmp \<Rightarrow> key_data \<Rightarrow> bytes \<Rightarrow> bytes option" where
  "get_other_public_key G key res = get_dh_key_other_public G (kd_session key) res"

text \<open>
  The AES key is the first half of the SHA-256 of the 256 bytes of the common key. \<open>junk\<close> is what
  the local arrays (\<open>common_key\<close>, and the 64 spare bytes of \<open>common_key_sha_buffer\<close>) hold before
  they are written.
\<close>

definition derive_symmetric_key_from_public ::
  "gmp \<Rightarrow> dh_globals \<Rightarrow> bytes \<times> bytes \<Rightarrow> key_data \<Rightarrow> bytes \<Rightarrow> key_data option" where
  "derive_symmetric_key_from_public G s junk key data =
     (let key = key\<lparr>kd_session := set_dh_key_other_public G s data (kd_session key)\<rparr>
      in Option.bind (get_dh_common_key G (kd_session key) (fst junk)) (\<lambda>common.
         let buf = common @ snd junk in
         Option.bind (hash_prepare_data_sha256 buf ASYMMETRIC_KEY_BYTES (ASYMMETRIC_KEY_BYTES + SHA_PADDING))
           (\<lambda>(buf, len).
         if len = 0 \<or> ASYMMETRIC_KEY_BYTES + SHA_PADDING < len then None
         else Option.bind (hash_sha256 buf len) (\<lambda>sha.
              Some (key\<lparr>symmetric_key := take AES_BYTES sha\<rparr>)))))"

section \<open>Encrypting a buffer in place\<close>

text \<open>
  \<open>f\<close> is the block function with the key. The loop leaves the last block, whole or not, to the code
  after it; the loop's result is the buffer and \<open>index\<close>.
\<close>

function ecb_loop :: "(block \<Rightarrow> block) \<Rightarrow> bytes \<Rightarrow> nat \<Rightarrow> nat \<Rightarrow> bytes \<times> nat" where
  "ecb_loop f data len index =
     (if index + AES_BYTES < len
      then ecb_loop f (splice index (f (slice index AES_BYTES data)) data) len (index + AES_BYTES)
      else (data, index))"
  by pat_completeness auto
termination
  by (relation "measure (\<lambda>(f, data, len, index). len - index)") (auto simp: AES_BYTES_def)

declare ecb_loop.simps [simp del]

definition ecb_last :: "(block \<Rightarrow> block) \<Rightarrow> bytes \<Rightarrow> nat \<Rightarrow> nat \<Rightarrow> bytes" where
  "ecb_last f data len index =
     (let remainder = (len - index) mod 2 ^ 16
      in if remainder = 0 then data
         else
           let aes_data = splice 0 (slice index remainder data) (replicate AES_BYTES 0);
               aes_result = f aes_data
           in splice index (take remainder aes_result) data)"

definition symmetric_encrypt :: "key_data \<Rightarrow> bytes \<Rightarrow> nat \<Rightarrow> bytes" where
  "symmetric_encrypt key data len =
     (let f = (\<lambda>b. aes_encrypt128 b (symmetric_key key));
          (data, index) = ecb_loop f data len 0
      in ecb_last f data len index)"

definition symmetric_decrypt :: "key_data \<Rightarrow> bytes \<Rightarrow> nat \<Rightarrow> bytes" where
  "symmetric_decrypt key data len =
     (let f = (\<lambda>b. aes_decrypt128 b (symmetric_key key));
          (data, index) = ecb_loop f data len 0
      in ecb_last f data len index)"

section \<open>What the loops compute\<close>

text \<open>
  The specification: \<open>f\<close> on each whole block; a last part of less than 16 bytes is padded with
  zeros, transformed, and cut back.
\<close>

function ecb :: "(block \<Rightarrow> block) \<Rightarrow> bytes \<Rightarrow> bytes" where
  "ecb f data =
     (if 16 \<le> length data then f (take 16 data) @ ecb f (drop 16 data)
      else if data = [] then []
      else take (length data) (f (data @ replicate (16 - length data) 0)))"
  by pat_completeness auto
termination by (relation "measure (\<lambda>(f, data). length data)") auto

declare ecb.simps [simp del]

definition keeps_blocks :: "(block \<Rightarrow> block) \<Rightarrow> bool" where
  "keeps_blocks f \<longleftrightarrow> (\<forall>b. is_block b \<longrightarrow> is_block (f b))"

lemma keeps_blocksD: "keeps_blocks f \<Longrightarrow> is_block b \<Longrightarrow> is_block (f b)"
  by (simp add: keeps_blocks_def)

lemma ecb_last_spec:
  assumes "keeps_blocks f" "index \<le> length data" "length data \<le> index + 16"
  shows "ecb_last f data (length data) index = take index data @ ecb f (drop index data)"
proof -
  define r where "r = length data - index"
  have r: "r \<le> 16" "length (drop index data) = r" "(length data - index) mod 65536 = r"
    using assms by (simp_all add: r_def)
  have blk: "is_block (f (drop index data @ replicate (16 - r) 0))"
    using r by (intro keeps_blocksD [OF assms(1)]) simp
  have e: "ecb f [] = []" by (simp add: ecb.simps)
  show ?thesis
  proof (cases "r = 0")
    case True
    then show ?thesis using r e assms(2) by (simp add: ecb_last_def Let_def)
  next
    case False
    have pad: "splice 0 (slice index r data) (replicate AES_BYTES 0) =
        drop index data @ replicate (16 - r) 0"
      using r by (simp add: splice_def slice_def AES_BYTES_def)
    have "ecb_last f data (length data) index =
        take index data @ take r (f (drop index data @ replicate (16 - r) 0))"
      using False r blk assms(2) by (simp add: ecb_last_def pad Let_def) (simp add: splice_def)
    also have "take r (f (drop index data @ replicate (16 - r) 0)) = ecb f (drop index data)"
      using r False blk e by (subst ecb.simps) auto
    finally show ?thesis .
  qed
qed

lemma ecb_loop_spec:
  assumes "keeps_blocks f" "index \<le> length data"
  shows "(case ecb_loop f data (length data) index of (d, i) \<Rightarrow> ecb_last f d (length data) i) =
    take index data @ ecb f (drop index data)"
  using assms
proof (induction f data "length data" index rule: ecb_loop.induct)
  case (1 f data index)
  show ?case
  proof (cases "index + AES_BYTES < length data")
    case True
    define data' where "data' = splice index (f (slice index 16 data)) data"
    have blk: "is_block (f (slice index 16 data))"
      using True by (intro keeps_blocksD [OF "1.prems"(1)]) (simp add: AES_BYTES_def)
    have l: "length data' = length data"
      using blk True by (simp add: data'_def AES_BYTES_def)
    have "(case ecb_loop f data (length data) index of (d, i) \<Rightarrow> ecb_last f d (length data) i) =
        take (index + 16) data' @ ecb f (drop (index + 16) data')"
      using "1.hyps" [OF True] "1.prems"(1) True l unfolding ecb_loop.simps [of f data "length data" index]
      by (simp add: AES_BYTES_def data'_def [symmetric])
    also have "take (index + 16) data' = take index data @ f (take 16 (drop index data))"
      using blk True by (simp add: data'_def splice_def slice_def AES_BYTES_def)
    also have "drop (index + 16) data' = drop 16 (drop index data)"
      using blk True by (simp add: data'_def splice_def AES_BYTES_def add.commute)
    finally have step: "(case ecb_loop f data (length data) index of
        (d, i) \<Rightarrow> ecb_last f d (length data) i) =
      (take index data @ f (take 16 (drop index data))) @ ecb f (drop 16 (drop index data))" .
    have "16 \<le> length (drop index data)" using True by (simp add: AES_BYTES_def)
    then have "ecb f (drop index data) = f (take 16 (drop index data)) @ ecb f (drop 16 (drop index data))"
      by (subst ecb.simps) simp
    then show ?thesis using step by (simp only: append_assoc)
  next
    case False
    then show ?thesis
      using ecb_last_spec [OF "1.prems"(1)] "1.prems"(2)
      by (simp add: ecb_loop.simps AES_BYTES_def)
  qed
qed

lemma length_ecb [simp, len_simps]:
  assumes "keeps_blocks f"
  shows "length (ecb f xs) = length xs"
proof (induction xs rule: length_induct)
  case (1 xs)
  consider "16 \<le> length xs" | "xs = []" | "xs \<noteq> []" "length xs < 16" by fastforce
  then show ?case
  proof cases
    case 1
    then have "length (ecb f (drop 16 xs)) = length xs - 16" "is_block (f (take 16 xs))"
      using "1.IH" keeps_blocksD [OF assms] by auto
    then show ?thesis using 1 by (subst ecb.simps) simp
  next
    case 2
    then show ?thesis by (simp add: ecb.simps)
  next
    case 3
    then have "is_block (f (xs @ replicate (16 - length xs) 0))"
      by (intro keeps_blocksD [OF assms]) simp
    then show ?thesis using 3 by (subst ecb.simps) simp
  qed
qed

lemma ecb_block: "is_block b \<Longrightarrow> ecb f (b @ xs) = f b @ ecb f xs"
  by (subst ecb.simps) simp

lemma ecb_append: "length xs = 16 * q \<Longrightarrow> ecb f (xs @ ys) = ecb f xs @ ecb f ys"
proof (induction q arbitrary: xs)
  case 0
  then show ?case by (simp add: ecb.simps [of f "[]"])
next
  case (Suc q)
  then obtain b zs where xs: "xs = b @ zs" "length b = 16" using split_at [of 16 xs] by auto
  with Suc show ?case by (simp add: ecb_block)
qed

lemma ecb_take:
  assumes "keeps_blocks f" "16 * q \<le> length xs"
  shows "take (16 * q) (ecb f xs) = ecb f (take (16 * q) xs)"
proof -
  have "ecb f (take (16 * q) xs @ drop (16 * q) xs) =
      ecb f (take (16 * q) xs) @ ecb f (drop (16 * q) xs)"
    using assms(2) by (intro ecb_append) simp
  then show ?thesis using assms by simp
qed

text \<open>The programs' two functions are this transformation of the whole buffer.\<close>

lemma keeps_blocks_aes [simp]:
  "keeps_blocks (\<lambda>b. aes_encrypt128 b key)" "keeps_blocks (\<lambda>b. aes_decrypt128 b key)"
  by (simp_all add: keeps_blocks_def)

lemma symmetric_encrypt_ecb:
  "symmetric_encrypt key data (length data) = ecb (\<lambda>b. aes_encrypt128 b (symmetric_key key)) data"
  using ecb_loop_spec [of "\<lambda>b. aes_encrypt128 b (symmetric_key key)" 0 data]
  by (simp add: symmetric_encrypt_def Let_def)

lemma symmetric_decrypt_ecb:
  "symmetric_decrypt key data (length data) = ecb (\<lambda>b. aes_decrypt128 b (symmetric_key key)) data"
  using ecb_loop_spec [of "\<lambda>b. aes_decrypt128 b (symmetric_key key)" 0 data]
  by (simp add: symmetric_decrypt_def Let_def)

section \<open>Round trips of a block cipher over a buffer\<close>

text \<open>What the buffer functions need of the block cipher, and what follows for whole blocks.\<close>

locale block_cipher =
  fixes enc :: "block \<Rightarrow> block" and dec :: "block \<Rightarrow> block"
  assumes enc_block: "keeps_blocks enc"
    and dec_block: "keeps_blocks dec"
    and dec_enc: "is_block b \<Longrightarrow> dec (enc b) = b"
begin

lemma ecb_inverse: "length xs = 16 * q \<Longrightarrow> ecb dec (ecb enc xs) = xs"
proof (induction q arbitrary: xs)
  case 0
  then show ?case by (simp add: ecb.simps)
next
  case (Suc q)
  then obtain b zs where xs: "xs = b @ zs" "length b = 16" using split_at [of 16 xs] by auto
  then have "is_block (enc b)" using keeps_blocksD [OF enc_block] by simp
  with Suc xs show ?case by (simp add: ecb_block dec_enc)
qed

lemma ecb_inverse_prefix:
  assumes "16 * q \<le> length xs"
  shows "take (16 * q) (ecb dec (ecb enc xs)) = take (16 * q) xs"
proof -
  have "take (16 * q) (ecb dec (ecb enc xs)) = ecb dec (ecb enc (take (16 * q) xs))"
    using assms by (simp add: ecb_take enc_block dec_block)
  also have "\<dots> = take (16 * q) xs" using assms by (intro ecb_inverse) simp
  finally show ?thesis .
qed

end

interpretation aes: block_cipher
  "\<lambda>b. aes_encrypt128 b key" "\<lambda>b. aes_decrypt128 b key" for key
  by unfold_locales (simp_all add: aes_decrypt_encrypt)

section \<open>The session key\<close>

text \<open>\<open>derive_symmetric_key_from_public\<close> never aborts, and depends on nothing but the common key.\<close>

lemma derive_symmetric_key:
  assumes G: "gmp_documented G" and s: "dh_usable s"
    and junk: "length (fst junk) = ASYMMETRIC_KEY_BYTES" "length (snd junk) = SHA_PADDING"
  obtains common where "length common = ASYMMETRIC_KEY_BYTES"
    "le_value common = common_key (set_dh_key_other_public G s data (kd_session key))"
    "derive_symmetric_key_from_public G s junk key data =
       Some (key\<lparr>kd_session := set_dh_key_other_public G s data (kd_session key),
                 symmetric_key := take AES_BYTES (sha256_reference common)\<rparr>)"
proof -
  let ?ses = "set_dh_key_other_public G s data (kd_session key)"
  have "common_key ?ses < 256 ^ DH_KEY_BYTES"
    using G s by (auto simp: set_dh_key_other_public_def gmp_documented_def dh_usable_def Let_def
        intro: order.strict_trans2 mod_less_divisor)
  then obtain common where common: "get_dh_common_key G ?ses (fst junk) = Some common"
    "length common = 256" "le_value common = common_key ?ses"
    using export_fixed [OF G, of "common_key ?ses" DH_KEY_BYTES "fst junk"] junk(1)
    by (auto simp: get_dh_common_key_def DH_KEY_BYTES_def ASYMMETRIC_KEY_BYTES_def)
  have len: "padded_length 256 = 320"
    by (simp add: padded_length_def pad_zeros_def BLOCK_SIZE_BYTES_def)
  have pad: "hash_prepare_data_sha256 (common @ snd junk) 256 320 = Some (padded common @ [], 320)"
    using prepare_padded [of 320 "common @ snd junk" 256] common(2) junk(2)
    by (simp add: len SHA_PADDING_def)
  have "hash_sha256 (padded common @ []) 320 = Some (sha256_reference common)"
    using hash_padded [of common "[]"] common(2) by (simp only: len)
  then have "derive_symmetric_key_from_public G s junk key data =
      Some (key\<lparr>kd_session := ?ses, symmetric_key := take AES_BYTES (sha256_reference common)\<rparr>)"
    using common(1) pad
    by (simp add: derive_symmetric_key_from_public_def ASYMMETRIC_KEY_BYTES_def SHA_PADDING_def)
  then show ?thesis using that common by (simp add: ASYMMETRIC_KEY_BYTES_def)
qed

text \<open>Two ends that exchange their exported public keys derive the same key.\<close>

lemma session_key_agreement:
  assumes "gmp_documented G" "dh_usable s" "key_pair s a" "key_pair s b"
    and "length out_a = ASYMMETRIC_KEY_BYTES" "length out_b = ASYMMETRIC_KEY_BYTES"
    and "get_public_identity_key G a out_a = Some pub_a"
    and "get_public_identity_key G b out_b = Some pub_b"
    and "length (fst junk_a) = ASYMMETRIC_KEY_BYTES" "length (snd junk_a) = SHA_PADDING"
    and "length (fst junk_b) = ASYMMETRIC_KEY_BYTES" "length (snd junk_b) = SHA_PADDING"
  shows "\<exists>ka kb. derive_symmetric_key_from_public G s junk_a (init_key a) pub_b = Some ka \<and>
                 derive_symmetric_key_from_public G s junk_b (init_key b) pub_a = Some kb \<and>
                 symmetric_key ka = symmetric_key kb \<and> is_block (symmetric_key ka)"
proof -
  obtain ca where ca: "length ca = ASYMMETRIC_KEY_BYTES"
    "le_value ca = common_key (set_dh_key_other_public G s pub_b (create_dh_session_key a))"
    "derive_symmetric_key_from_public G s junk_a (init_key a) pub_b =
      Some ((init_key a)\<lparr>kd_session := set_dh_key_other_public G s pub_b (create_dh_session_key a),
        symmetric_key := take AES_BYTES (sha256_reference ca)\<rparr>)"
    using derive_symmetric_key [OF assms(1,2,9,10), of pub_b "init_key a"] by (auto simp: init_key_def)
  obtain cb where cb: "length cb = ASYMMETRIC_KEY_BYTES"
    "le_value cb = common_key (set_dh_key_other_public G s pub_a (create_dh_session_key b))"
    "derive_symmetric_key_from_public G s junk_b (init_key b) pub_a =
      Some ((init_key b)\<lparr>kd_session := set_dh_key_other_public G s pub_a (create_dh_session_key b),
        symmetric_key := take AES_BYTES (sha256_reference cb)\<rparr>)"
    using derive_symmetric_key [OF assms(1,2,11,12), of pub_a "init_key b"] by (auto simp: init_key_def)
  have "ca = cb"
    using dh_agreement [OF assms(1-4), of out_a out_b pub_a pub_b] assms(5-8) ca(1,2) cb(1,2)
    by (intro le_value_inj)
       (simp_all add: get_public_identity_key_def DH_KEY_BYTES_def ASYMMETRIC_KEY_BYTES_def)
  then show ?thesis
    using ca(3) cb(3) by (simp add: sha256_reference_def AES_BYTES_def)
qed

section \<open>Properties\<close>

text \<open>C28. Both ends of a handshake that exchanges the exported Diffie-Hellman public keys end with
  the same 16-byte AES key, and neither aborts: whatever the local buffers held before
  (\<open>out\<close>, \<open>junk\<close>), the exports fill the 256 bytes and the derivation always finds the hash
  buffer large enough.\<close>

theorem handshake_key_agreement:
  assumes "gmp_documented G" "dh_usable s" "key_pair s a" "key_pair s b"
    and "length out_a = ASYMMETRIC_KEY_BYTES" "length out_b = ASYMMETRIC_KEY_BYTES"
    and "get_public_identity_key G a out_a = Some pub_a"
    and "get_public_identity_key G b out_b = Some pub_b"
    and "length (fst junk_a) = ASYMMETRIC_KEY_BYTES" "length (snd junk_a) = SHA_PADDING"
    and "length (fst junk_b) = ASYMMETRIC_KEY_BYTES" "length (snd junk_b) = SHA_PADDING"
  shows "\<exists>ka kb. derive_symmetric_key_from_public G s junk_a (init_key a) pub_b = Some ka \<and>
                 derive_symmetric_key_from_public G s junk_b (init_key b) pub_a = Some kb \<and>
                 symmetric_key ka = symmetric_key kb \<and> is_block (symmetric_key ka)"
  by (rule session_key_agreement [OF assms])

lemma reference_public_key:
  "get_public_identity_key reference_gmp \<lparr>this_private = x, this_public = 8\<rparr> (replicate 256 0) =
     Some (8 # replicate 255 0)"
  "get_public_identity_key reference_gmp \<lparr>this_private = x, this_public = 19\<rparr> (replicate 256 0) =
     Some (19 # replicate 255 0)"
  by (simp_all add: get_public_identity_key_def get_dh_public_identity_key_def export_mpz_fixed_def
      DH_KEY_BYTES_def ENDIAN_MPZ_def reference_gmp_def le_digits.simps mem_write_def)

lemma handshake_key_agreement_witness:
  "\<exists>ka kb.
     derive_symmetric_key_from_public reference_gmp \<lparr>dh_p = 23, dh_g = 5\<rparr>
       (replicate 256 1, replicate 64 2) (init_key \<lparr>this_private = 6, this_public = 8\<rparr>)
       (19 # replicate 255 0) = Some ka \<and>
     derive_symmetric_key_from_public reference_gmp \<lparr>dh_p = 23, dh_g = 5\<rparr>
       (replicate 256 3, replicate 64 4) (init_key \<lparr>this_private = 15, this_public = 19\<rparr>)
       (8 # replicate 255 0) = Some kb \<and>
     symmetric_key ka = symmetric_key kb \<and> is_block (symmetric_key ka)"
  by (rule handshake_key_agreement [where out_a = "replicate 256 0" and out_b = "replicate 256 0"])
     (simp_all add: reference_gmp_documented reference_public_key dh_usable_def key_pair_def
        DH_KEY_BYTES_def ASYMMETRIC_KEY_BYTES_def SHA_PADDING_def)

text \<open>Decrypting an encrypted buffer with the same symmetric key restores all of it when its
  length is a multiple of 16, and in general every byte before the incomplete last block; the
  length is kept.\<close>

theorem symmetric_roundtrip:
  assumes "symmetric_key k' = symmetric_key k"
  shows "take (length data - length data mod 16)
           (symmetric_decrypt k' (symmetric_encrypt k data (length data)) (length data)) =
         take (length data - length data mod 16) data \<and>
         length (symmetric_decrypt k' (symmetric_encrypt k data (length data)) (length data)) =
         length data"
proof -
  let ?c = "symmetric_encrypt k data (length data)"
  have c: "length ?c = length data" by (simp add: symmetric_encrypt_ecb)
  have "symmetric_decrypt k' ?c (length ?c) =
      ecb (\<lambda>b. aes_decrypt128 b (symmetric_key k)) (ecb (\<lambda>b. aes_encrypt128 b (symmetric_key k)) data)"
    by (simp only: symmetric_decrypt_ecb) (simp add: symmetric_encrypt_ecb assms)
  then show ?thesis
    using aes.ecb_inverse_prefix [of "length data div 16" data "symmetric_key k"]
    by (simp add: c minus_mod_eq_mult_div)
qed

lemma symmetric_roundtrip_witness:
  "take (20 - 20 mod 16) (symmetric_decrypt (init_key create_dh_identity_key)
     (symmetric_encrypt (init_key create_dh_identity_key) (replicate 20 7) 20) 20) = take (20 - 20 mod 16) (replicate 20 (7 :: u8)) \<and>
   length (symmetric_decrypt (init_key create_dh_identity_key) (symmetric_encrypt (init_key create_dh_identity_key) (replicate 20 7) 20) 20) = 20"
  using symmetric_roundtrip [of "init_key create_dh_identity_key" "init_key create_dh_identity_key" "replicate 20 7"] by (simp only: length_replicate)

text \<open>A concrete incomplete block under the zero key.\<close>

lemma zero_block: "replicate 16 (0 :: u8) = [0, 0, 0, 0, 0, 0, 0, 0, 0, 0, 0, 0, 0, 0, 0, 0]"
  by (simp add: numeral_eq_Suc)

lemma encrypt_zero_block: "aes_encrypt128 (replicate 16 0) (replicate 16 0) =
    [0x66, 0xE9, 0x4B, 0xD4, 0xEF, 0x8A, 0x2C, 0x3B, 0x88, 0x4C, 0xFA, 0x59, 0xCA, 0x34, 0x2B, 0x2E]"
  unfolding zero_block by (simp add: aes_encrypt128_def aes_eval)

lemma decrypt_cut_block: "aes_decrypt128
    [0x66, 0xE9, 0x4B, 0xD4, 0xEF, 0x8A, 0x2C, 0x3B, 0x88, 0x4C, 0xFA, 0x59, 0xCA, 0, 0, 0]
    (replicate 16 0) =
    [108, 204, 91, 165, 7, 7, 112, 128, 169, 230, 104, 35, 226, 109, 130, 219]"
  unfolding zero_block by (simp add: aes_decrypt128_def aes_eval)

lemma cut_tail_example:
  "ecb (\<lambda>b. aes_decrypt128 b (replicate 16 0))
     (ecb (\<lambda>b. aes_encrypt128 b (replicate 16 0)) (replicate 13 0)) =
   [108, 204, 91, 165, 7, 7, 112, 128, 169, 230, 104, 35, 226]"
proof -
  have "replicate 13 0 @ replicate 3 0 = replicate 16 (0 :: u8)" by (simp add: replicate_add [symmetric])
  then have "ecb (\<lambda>b. aes_encrypt128 b (replicate 16 0)) (replicate 13 0) =
      [0x66, 0xE9, 0x4B, 0xD4, 0xEF, 0x8A, 0x2C, 0x3B, 0x88, 0x4C, 0xFA, 0x59, 0xCA]"
    by (simp add: ecb.simps [of _ "replicate 13 0"] encrypt_zero_block)
  moreover have "replicate 3 (0 :: u8) = [0, 0, 0]" by (simp add: numeral_3_eq_3)
  ultimately show ?thesis by (simp add: ecb.simps [of _ "_ # _"] decrypt_cut_block)
qed

text \<open>The incomplete last block does not survive: only its length in ciphertext bytes is kept, so
  the padded block cannot be recovered. With 13 bytes after the last whole block, as the 509
  bytes an onion layer covers have, the decrypted buffer differs from the original (here for
  zero bytes under the key a fresh \<open>key_data_t\<close> has).\<close>

theorem symmetric_tail_lost:
  assumes "length xs = 16 * q"
  shows "drop (16 * q) (symmetric_decrypt (init_key i)
           (symmetric_encrypt (init_key i) (xs @ replicate 13 0) (16 * q + 13)) (16 * q + 13)) =
         [108, 204, 91, 165, 7, 7, 112, 128, 169, 230, 104, 35, 226]"
proof -
  let ?E = "ecb (\<lambda>b. aes_encrypt128 b (replicate 16 0))"
  let ?D = "ecb (\<lambda>b. aes_decrypt128 b (replicate 16 0))"
  have e: "symmetric_encrypt (init_key i) (xs @ replicate 13 0) (16 * q + 13) = ?E xs @ ?E (replicate 13 0)"
    using symmetric_encrypt_ecb [of "init_key i" "xs @ replicate 13 0"] assms
    by (simp add: init_key_def ecb_append)
  have "symmetric_decrypt (init_key i) (?E xs @ ?E (replicate 13 0)) (16 * q + 13) =
      ?D (?E xs) @ ?D (?E (replicate 13 0))"
    using symmetric_decrypt_ecb [of "init_key i" "?E xs @ ?E (replicate 13 0)"] assms
    by (simp add: init_key_def ecb_append)
  then show ?thesis unfolding e using assms by (simp add: cut_tail_example)
qed

lemma symmetric_tail_lost_witness:
  "length (replicate 496 (0 :: u8)) = 16 * 31 \<and>
   drop (16 * 31) (symmetric_decrypt (init_key create_dh_identity_key)
     (symmetric_encrypt (init_key create_dh_identity_key) (replicate 496 0 @ replicate 13 0) (16 * 31 + 13))
     (16 * 31 + 13)) = [108, 204, 91, 165, 7, 7, 112, 128, 169, 230, 104, 35, 226]"
  by (rule conjI [OF _ symmetric_tail_lost]) simp_all

end
