(* ===== verification/Stream_Buffers.thy ===== *)
theory Stream_Buffers
  imports Prelude
begin

text \<open>
  The growing ring buffer that holds a stream's received bytes,
  \<open>src/client/services/stream_buffers.c\<close>. The memory block is a list of bytes in which \<open>None\<close> is a
  byte never written; \<open>head\<close>, \<open>tail\<close>, \<open>size\<close> and \<open>capacity\<close> are \<open>uint32_t\<close>, here naturals with
  the wrap-around at \<open>2 ^ 32\<close> written out (\<open>u32\<close>). \<open>alloc_ok n\<close> says whether an allocation of \<open>n\<close>
  bytes succeeds. A result \<open>None\<close> is an operation that does not complete: it aborts because an
  allocation failed, copies outside a memory block, or loops forever.

  The specification is a queue of bytes. Pushing and popping implement it as long as the
  buffer is not grown in one of two states in which the contents have reached the position
  they started from; the last section states what happens there.
\<close>

definition u32n :: "nat \<Rightarrow> nat" where "u32n x = x mod 2 ^ 32"
definition u32_diff :: "nat \<Rightarrow> nat \<Rightarrow> nat" where "u32_diff x y = (x + 2 ^ 32 - y) mod 2 ^ 32"

definition INITIAL_BUFFER_CAPACITY :: nat where "INITIAL_BUFFER_CAPACITY = 64"

record circular_buffer =
  cb_buffer :: "u8 option list"
  cb_head :: nat
  cb_tail :: nat
  cb_size :: nat
  cb_capacity :: nat

section \<open>The operations\<close>

definition init_stream_buffer :: "(nat \<Rightarrow> bool) \<Rightarrow> circular_buffer option" where
  "init_stream_buffer alloc_ok =
     (if alloc_ok INITIAL_BUFFER_CAPACITY
      then Some \<lparr>cb_buffer = replicate INITIAL_BUFFER_CAPACITY None,
                 cb_head = 0, cb_tail = 0, cb_size = 0, cb_capacity = INITIAL_BUFFER_CAPACITY\<rparr>
      else None)"

definition realloc_bytes :: "nat \<Rightarrow> 'a option list \<Rightarrow> 'a option list" where
  "realloc_bytes n buf = take n buf @ replicate (n - length buf) None"

definition grow_buffer :: "(nat \<Rightarrow> bool) \<Rightarrow> circular_buffer \<Rightarrow> circular_buffer option" where
  "grow_buffer alloc_ok b =
     (let old_capacity = cb_capacity b;
          capacity = u32n (old_capacity * 2)
      in if \<not> alloc_ok capacity then None
         else
           let buf = realloc_bytes capacity (cb_buffer b)
           in if cb_head b < cb_tail b then
                let tail_to_end_length = u32_diff old_capacity (cb_tail b)
                in Option.bind (mem_read (cb_tail b) tail_to_end_length buf) (\<lambda>moved.
                   Option.bind (mem_write (capacity - tail_to_end_length) moved buf) (\<lambda>buf.
                   Some (b\<lparr>cb_buffer := buf, cb_capacity := capacity,
                           cb_tail := u32n (cb_tail b + old_capacity)\<rparr>)))
              else Some (b\<lparr>cb_buffer := buf, cb_capacity := capacity\<rparr>))"

partial_function (option) grow_until ::
  "(nat \<Rightarrow> bool) \<Rightarrow> nat \<Rightarrow> circular_buffer \<Rightarrow> circular_buffer option" where
  "grow_until alloc_ok n b =
     (if cb_capacity b < u32n (cb_size b + n)
      then Option.bind (grow_buffer alloc_ok b) (\<lambda>b. grow_until alloc_ok n b)
      else Some b)"

text \<open>\<open>data\<close> is the memory from the data pointer to the end of the object it points into.\<close>

definition stream_push_data ::
  "(nat \<Rightarrow> bool) \<Rightarrow> circular_buffer \<Rightarrow> bytes \<Rightarrow> nat \<Rightarrow> circular_buffer option" where
  "stream_push_data alloc_ok b data n =
     Option.bind (grow_until alloc_ok n b) (\<lambda>b.
     Option.bind
       (if cb_capacity b < u32n (cb_head b + n) then
          let circular_offset = u32_diff (cb_capacity b) (cb_head b);
              circular_data_size = u32_diff n circular_offset
          in Option.bind (mem_read 0 circular_offset data) (\<lambda>first.
             Option.bind (mem_write (cb_head b) (map Some first) (cb_buffer b)) (\<lambda>buf.
             Option.bind (mem_read circular_offset circular_data_size data) (\<lambda>rest.
             Option.bind (mem_write 0 (map Some rest) buf) (\<lambda>buf.
             Some (b\<lparr>cb_buffer := buf, cb_head := circular_data_size\<rparr>)))))
        else
          Option.bind (mem_read 0 n data) (\<lambda>src.
          Option.bind (mem_write (cb_head b) (map Some src) (cb_buffer b)) (\<lambda>buf.
          Some (b\<lparr>cb_buffer := buf, cb_head := u32n (cb_head b + n)\<rparr>))))
       (\<lambda>b. Some (b\<lparr>cb_size := u32n (cb_size b + n)\<rparr>)))"

text \<open>The result is the bytes copied to the caller's \<open>data\<close> (their number is returned), and the buffer.\<close>

definition stream_pop_data ::
  "circular_buffer \<Rightarrow> nat \<Rightarrow> (u8 option list \<times> circular_buffer) option" where
  "stream_pop_data b n =
     (if n = 0 \<or> cb_size b = 0 then Some ([], b)
      else
        let read_size = (if cb_size b < n then cb_size b else n)
        in Option.bind
             (if cb_capacity b < u32n (cb_tail b + read_size) then
                let circular_size = u32_diff (cb_capacity b) (cb_tail b)
                in Option.bind (mem_read (cb_tail b) circular_size (cb_buffer b)) (\<lambda>first.
                   Option.bind (mem_read 0 (u32_diff read_size circular_size) (cb_buffer b)) (\<lambda>rest.
                   Some (first @ rest)))
              else mem_read (cb_tail b) read_size (cb_buffer b))
             (\<lambda>out. Some (out,
                b\<lparr>cb_tail := u32n (cb_tail b + read_size) AND (cb_capacity b - 1),
                   cb_size := cb_size b - read_size\<rparr>)))"

section \<open>The invariant and the contents\<close>

definition ring_contents :: "circular_buffer \<Rightarrow> u8 option list" where
  "ring_contents b = map (\<lambda>i. cb_buffer b ! ((cb_tail b + i) mod cb_capacity b)) [0..<cb_size b]"

definition ring_shape :: "circular_buffer \<Rightarrow> bool" where
  "ring_shape b \<longleftrightarrow> (\<exists>k < 31. cb_capacity b = 2 ^ k) \<and>
     length (cb_buffer b) = cb_capacity b \<and> cb_tail b < cb_capacity b \<and>
     cb_head b \<le> cb_capacity b \<and> cb_size b \<le> cb_capacity b \<and>
     cb_head b mod cb_capacity b = (cb_tail b + cb_size b) mod cb_capacity b"

definition ring_ok :: "circular_buffer \<Rightarrow> bool" where
  "ring_ok b \<longleftrightarrow> ring_shape b \<and> None \<notin> set (ring_contents b)"

text \<open>The positions at which growing keeps the contents in order.\<close>

definition grow_safe :: "circular_buffer \<Rightarrow> bool" where
  "grow_safe b \<longleftrightarrow> cb_head b < cb_tail b \<or> cb_size b = cb_head b - cb_tail b"

section \<open>Reading and writing around the end\<close>

text \<open>What holds of every buffer the operations meet, whatever the positions mean.\<close>

definition ring_frame :: "circular_buffer \<Rightarrow> bool" where
  "ring_frame b \<longleftrightarrow> (\<exists>k < 31. cb_capacity b = 2 ^ k) \<and>
     length (cb_buffer b) = cb_capacity b \<and> cb_tail b < cb_capacity b \<and>
     cb_head b \<le> cb_capacity b \<and> cb_size b \<le> cb_capacity b"

lemma ring_shape_frame:
  "ring_shape b \<longleftrightarrow> ring_frame b \<and>
     cb_head b mod cb_capacity b = (cb_tail b + cb_size b) mod cb_capacity b"
  by (auto simp: ring_shape_def ring_frame_def)

lemma ring_frameD:
  assumes "ring_frame b"
  shows "length (cb_buffer b) = cb_capacity b" "cb_tail b < cb_capacity b"
    "cb_head b \<le> cb_capacity b" "cb_size b \<le> cb_capacity b" "0 < cb_capacity b"
    "cb_capacity b \<le> 2 ^ 30"
proof -
  from assms obtain k where k: "k < 31" "cb_capacity b = 2 ^ k" by (auto simp: ring_frame_def)
  then have "cb_capacity b \<le> 2 ^ 30" using power_increasing [of k 30 "2 :: nat"] by simp
  with assms k show "length (cb_buffer b) = cb_capacity b" "cb_tail b < cb_capacity b"
    "cb_head b \<le> cb_capacity b" "cb_size b \<le> cb_capacity b" "0 < cb_capacity b"
    "cb_capacity b \<le> 2 ^ 30"
    by (simp_all add: ring_frame_def)
qed

lemma u32n_small: "x < 2 ^ 32 \<Longrightarrow> u32n x = x" by (simp add: u32n_def)
lemma u32_diff_small: "y \<le> x \<Longrightarrow> x < 2 ^ 32 \<Longrightarrow> u32_diff x y = x - y"
  by (simp add: u32_diff_def mod_if)

text \<open>Adding a number below the capacity, modulo the capacity.\<close>

lemma ring_index: "a \<le> C \<Longrightarrow> j < C \<Longrightarrow> (a + j) mod C = (if a + j < C then a + j else a + j - C)" for C :: nat
  by (auto simp: mod_if)

lemma ring_index_inj:
  assumes "(a + i) mod C = (a + j) mod C" "i < C" "j < C" shows "i = (j :: nat)"
proof -
  define a' where "a' = a mod C"
  then have "a' < C" "(a' + i) mod C = (a' + j) mod C" using assms by (simp_all add: mod_add_left_eq)
  then show ?thesis using assms(2,3) by (simp add: ring_index split: if_splits)
qed

lemma and_mask_mod: "x AND (2 ^ k - 1) = x mod 2 ^ k" for x :: nat
  by (metis mask_nat_def take_bit_eq_mask take_bit_eq_mod)

lemma ring_and:
  assumes "ring_frame b" "x < 2 ^ 32"
  shows "u32n x AND (cb_capacity b - 1) = x mod cb_capacity b"
proof -
  obtain k where "cb_capacity b = 2 ^ k" using assms(1) by (auto simp: ring_frame_def)
  then show ?thesis using assms(2) by (simp only: u32n_small and_mask_mod)
qed

text \<open>The write of \<open>stream_push_data\<close> in its two cases, and what it leaves at each position.\<close>

definition ring_write :: "nat \<Rightarrow> nat \<Rightarrow> 'a list \<Rightarrow> 'a list \<Rightarrow> 'a list" where
  "ring_write C h xs buf =
     (if C < h + length xs
      then splice 0 (drop (C - h) xs) (splice h (take (C - h) xs) buf)
      else splice h xs buf)"

lemma ring_write_props:
  assumes "h \<le> C" "length xs \<le> C" "length buf = C"
  shows "length (ring_write C h xs buf) = C"
    and "j < length xs \<Longrightarrow> ring_write C h xs buf ! ((h + j) mod C) = xs ! j"
    and "p < C \<Longrightarrow> \<forall>j < length xs. p \<noteq> (h + j) mod C \<Longrightarrow> ring_write C h xs buf ! p = buf ! p"
proof -
  show "length (ring_write C h xs buf) = C" using assms by (simp add: ring_write_def)
  show "ring_write C h xs buf ! ((h + j) mod C) = xs ! j" if j: "j < length xs"
  proof -
    have "(h + j) mod C = (if h + j < C then h + j else h + j - C)"
      using assms j by (intro ring_index) auto
    then show ?thesis using assms j by (auto simp: ring_write_def nth_splice)
  qed
  assume p: "p < C" and out: "\<forall>j < length xs. p \<noteq> (h + j) mod C"
  have "\<not> (h \<le> p \<and> p < h + length xs)" using out p by (auto dest!: spec [of _ "p - h"])
  moreover have "\<not> (p + C < h + length xs)" using out p assms
    by (auto dest!: spec [of _ "p + C - h"])
  ultimately show "ring_write C h xs buf ! p = buf ! p"
    using assms p by (auto simp: ring_write_def nth_splice)
qed

text \<open>The new head differs from \<open>h + n\<close> only by a multiple of the capacity.\<close>

lemma push_no_growth:
  assumes f: "ring_frame b" and n: "cb_size b + n \<le> cb_capacity b" "n \<le> length data"
  obtains h' where "h' \<le> cb_capacity b" "h' mod cb_capacity b = (cb_head b + n) mod cb_capacity b"
    "stream_push_data alloc_ok b data n =
       Some (b\<lparr>cb_buffer := ring_write (cb_capacity b) (cb_head b) (map Some (take n data)) (cb_buffer b),
               cb_head := h', cb_size := cb_size b + n\<rparr>)"
proof -
  note f' = ring_frameD [OF f]
  have g: "grow_until alloc_ok n b = Some b"
    using f' n by (subst grow_until.simps) (simp add: u32n_small)
  show ?thesis
  proof (cases "cb_capacity b < cb_head b + n")
    case True
    have "(cb_head b + n) mod cb_capacity b = (cb_head b + n - cb_capacity b) mod cb_capacity b"
      using True by (subst le_mod_geq) simp_all
    then have "n - (cb_capacity b - cb_head b) \<le> cb_capacity b"
      "(n - (cb_capacity b - cb_head b)) mod cb_capacity b = (cb_head b + n) mod cb_capacity b"
      using f' n by (simp_all add: add.commute)
    moreover have "stream_push_data alloc_ok b data n =
       Some (b\<lparr>cb_buffer := ring_write (cb_capacity b) (cb_head b) (map Some (take n data)) (cb_buffer b),
               cb_head := n - (cb_capacity b - cb_head b), cb_size := cb_size b + n\<rparr>)"
      using True f' n
      by (simp add: stream_push_data_def g u32n_small u32_diff_small mem_simps ring_write_def
          slice_def take_map drop_map drop_take min_absorb1 min_le_iff_disj Let_def)
    ultimately show ?thesis by (rule that)
  next
    case False
    then show ?thesis
      using f' n by (intro that [of "cb_head b + n"])
        (simp_all add: stream_push_data_def g u32n_small mem_simps ring_write_def slice_def take_map)
  qed
qed

lemma push_contents_no_growth:
  assumes ok: "ring_ok b" and n: "cb_size b + n \<le> cb_capacity b" "n \<le> length data"
  shows "\<exists>b'. stream_push_data alloc_ok b data n = Some b' \<and> ring_ok b' \<and>
    ring_contents b' = ring_contents b @ map Some (take n data) \<and>
    cb_tail b' = cb_tail b \<and> cb_capacity b' = cb_capacity b \<and> cb_size b' = cb_size b + n"
proof -
  let ?C = "cb_capacity b" and ?xs = "map Some (take n data)"
  from ok have f: "ring_frame b" and h: "cb_head b mod ?C = (cb_tail b + cb_size b) mod ?C"
    by (simp_all add: ring_ok_def ring_shape_frame)
  note f' = ring_frameD [OF f]
  obtain h' where h': "h' \<le> ?C" "h' mod ?C = (cb_head b + n) mod ?C" and
    p: "stream_push_data alloc_ok b data n =
       Some (b\<lparr>cb_buffer := ring_write ?C (cb_head b) ?xs (cb_buffer b),
               cb_head := h', cb_size := cb_size b + n\<rparr>)" (is "_ = Some ?b")
    by (rule push_no_growth [OF f n])
  have xs: "length ?xs = n" "length ?xs \<le> ?C" using n by simp_all
  note w = ring_write_props [OF f'(3) xs(2) f'(1), unfolded xs(1)]
  have head: "(cb_head b + j) mod ?C = (cb_tail b + (cb_size b + j)) mod ?C" for j
    using h by (metis add.assoc mod_add_left_eq)
  have "cb_buffer ?b ! ((cb_tail b + i) mod ?C) = cb_buffer b ! ((cb_tail b + i) mod ?C)"
    if "i < cb_size b" for i
    using that n f' by (auto intro!: w(3) simp: head dest!: ring_index_inj)
  moreover have "cb_buffer ?b ! ((cb_tail b + i) mod ?C) = ?xs ! (i - cb_size b)"
    if "cb_size b \<le> i" "i < cb_size b + n" for i
    using that w(2) [of "i - cb_size b"] head [of "i - cb_size b"] by simp
  ultimately have c: "ring_contents ?b = ring_contents b @ ?xs"
    using n by (intro nth_equalityI) (auto simp: ring_contents_def nth_append)
  have "ring_shape ?b"
    using f f' w(1) h' n by (simp add: ring_shape_frame ring_frame_def) (simp add: head)
  then have "ring_ok ?b" using ok by (auto simp: ring_ok_def c)
  then show ?thesis using p c by simp
qed

section \<open>Popping\<close>

lemma pop_contents:
  assumes ok: "ring_ok b"
  shows "\<exists>b'. stream_pop_data b n = Some (take n (ring_contents b), b') \<and> ring_ok b' \<and>
    ring_contents b' = drop n (ring_contents b) \<and> cb_capacity b' = cb_capacity b \<and>
    cb_tail b' = (cb_tail b + min (cb_size b) n) mod cb_capacity b \<and> cb_size b' = cb_size b - n"
proof (cases "n = 0 \<or> cb_size b = 0")
  case True
  then show ?thesis using ok by (auto simp: stream_pop_data_def ring_contents_def ring_ok_def ring_shape_def)
next
  case False
  let ?C = "cb_capacity b"
  define r where "r = min (cb_size b) n"
  from ok have f: "ring_frame b" and h: "cb_head b mod ?C = (cb_tail b + cb_size b) mod ?C"
    by (simp_all add: ring_ok_def ring_shape_frame)
  note f' = ring_frameD [OF f]
  have r: "0 < r" "r \<le> cb_size b" "r \<le> ?C" using False f' by (auto simp: r_def)
  define b' where "b' = b\<lparr>cb_tail := (cb_tail b + r) mod ?C, cb_size := cb_size b - r\<rparr>"
  have rs: "(if cb_size b < n then cb_size b else n) = r" by (simp add: r_def)
  have tl: "u32n (cb_tail b + r) AND (?C - 1) = (cb_tail b + r) mod ?C"
    using f' r by (intro ring_and [OF f]) simp
  have out: "(if ?C < cb_tail b + r
       then slice (cb_tail b) (?C - cb_tail b) (cb_buffer b) @ slice 0 (r - (?C - cb_tail b)) (cb_buffer b)
       else slice (cb_tail b) r (cb_buffer b)) = take n (ring_contents b)"
    using f' r
    by (intro nth_equalityI)
       (auto simp: ring_contents_def nth_append nth_slice r_def mod_if add.commute)
  have "stream_pop_data b n = Some (take n (ring_contents b), b')"
    unfolding stream_pop_data_def out [symmetric] rs Let_def tl
    using False f' r
    by (simp add: u32n_small u32_diff_small mem_simps b'_def)
  moreover have c: "ring_contents b' = drop n (ring_contents b)"
    by (intro nth_equalityI)
       (auto simp: ring_contents_def b'_def r_def min_def mod_simps ac_simps)
  moreover have "ring_shape b'"
  proof -
    have "((cb_tail b + r) mod ?C + (cb_size b - r)) mod ?C = (cb_tail b + cb_size b) mod ?C"
      using r by (subst mod_add_left_eq) simp
    then show ?thesis using f f' r h by (simp add: ring_shape_frame ring_frame_def b'_def)
  qed
  moreover have "None \<notin> set (ring_contents b')"
    using ok c by (auto simp: ring_ok_def dest: in_set_dropD)
  ultimately show ?thesis by (auto simp: ring_ok_def b'_def r_def)
qed

section \<open>Growing\<close>

lemma ring_frame_double:
  assumes "ring_frame b" "cb_capacity b < 2 ^ 30"
  shows "\<exists>k < 31. 2 * cb_capacity b = 2 ^ k"
proof -
  obtain k where k: "cb_capacity b = 2 ^ k" using assms(1) by (auto simp: ring_frame_def)
  then have "k < 30" using assms(2) power_strict_increasing_iff [of "2 :: nat" k 30] by simp
  with k show ?thesis by (intro exI [of _ "Suc k"]) simp
qed

text \<open>One growth: what it does to the buffer when the contents wrap around and when they do not.\<close>

lemma grow_buffer_result:
  assumes f: "ring_frame b" and c: "cb_capacity b < 2 ^ 30" and a: "alloc_ok (2 * cb_capacity b)"
  obtains buf where "length buf = 2 * cb_capacity b"
    "take (cb_capacity b) buf = cb_buffer b"
    "cb_head b < cb_tail b \<Longrightarrow>
       slice (cb_tail b + cb_capacity b) (cb_capacity b - cb_tail b) buf = drop (cb_tail b) (cb_buffer b)"
    "grow_buffer alloc_ok b =
       Some (b\<lparr>cb_buffer := buf, cb_capacity := 2 * cb_capacity b,
               cb_tail := (if cb_head b < cb_tail b then cb_tail b + cb_capacity b else cb_tail b)\<rparr>)"
proof (cases "cb_head b < cb_tail b")
  note f' = ring_frameD [OF f]
  let ?C = "cb_capacity b" and ?new = "cb_buffer b @ replicate (cb_capacity b) None"
  have r: "realloc_bytes (2 * ?C) (cb_buffer b) = ?new"
    using f' by (simp add: realloc_bytes_def)
  {
    case True
    let ?moved = "drop (cb_tail b) (cb_buffer b)"
    let ?buf = "cb_buffer b @ take (cb_tail b) (replicate ?C None) @ ?moved"
    have "mem_read (cb_tail b) (?C - cb_tail b) ?new = Some ?moved"
      using f' by (simp add: mem_simps slice_def)
    moreover have "mem_write (?C + cb_tail b) ?moved ?new = Some ?buf"
      using f' mem_write_part [of "?C + cb_tail b" "cb_buffer b @ replicate (cb_tail b) None" ?moved
        "replicate (?C - cb_tail b) None" "[]"]
      by (simp add: replicate_add [symmetric] min_absorb2)
    moreover have "2 * ?C - (?C - cb_tail b) = ?C + cb_tail b" using f' by simp
    ultimately have "grow_buffer alloc_ok b =
       Some (b\<lparr>cb_buffer := ?buf, cb_capacity := 2 * ?C, cb_tail := cb_tail b + ?C\<rparr>)"
      using True f' c a r
      by (simp add: grow_buffer_def u32n_small u32_diff_small Let_def mult.commute)
    then show ?thesis
      using True f' by (intro that [of ?buf]) (simp_all add: slice_def)
  next
    case False
    then show ?thesis using f' c a r
      by (intro that [of ?new]) (simp_all add: grow_buffer_def u32n_small Let_def mult.commute)
  }
qed

lemma ring_frame_grow:
  assumes "ring_frame b" "cb_capacity b < 2 ^ 30" "alloc_ok (2 * cb_capacity b)"
    and "grow_buffer alloc_ok b = Some b'"
  shows "ring_frame b' \<and> cb_capacity b' = 2 * cb_capacity b \<and> cb_size b' = cb_size b \<and>
    cb_head b' = cb_head b"
proof -
  obtain buf where buf: "length buf = 2 * cb_capacity b" "take (cb_capacity b) buf = cb_buffer b"
    "grow_buffer alloc_ok b =
       Some (b\<lparr>cb_buffer := buf, cb_capacity := 2 * cb_capacity b,
               cb_tail := (if cb_head b < cb_tail b then cb_tail b + cb_capacity b else cb_tail b)\<rparr>)"
    by (rule grow_buffer_result [where alloc_ok = alloc_ok, OF assms(1-3)])
  then show ?thesis
    using assms(4) ring_frame_double [OF assms(1,2)] ring_frameD [OF assms(1)]
    by (auto simp: ring_frame_def)
qed

text \<open>In a safe position growing keeps the contents, and the position stays safe.\<close>

lemma grow_keeps_contents:
  assumes ok: "ring_ok b" and safe: "grow_safe b"
    and c: "cb_capacity b < 2 ^ 30" and a: "alloc_ok (2 * cb_capacity b)"
    and g: "grow_buffer alloc_ok b = Some b'"
  shows "ring_ok b' \<and> grow_safe b' \<and> ring_contents b' = ring_contents b"
proof -
  let ?C = "cb_capacity b"
  from ok have f: "ring_frame b" and h: "cb_head b mod ?C = (cb_tail b + cb_size b) mod ?C"
    by (simp_all add: ring_ok_def ring_shape_frame)
  note f' = ring_frameD [OF f]
  obtain buf where buf: "length buf = 2 * ?C" "take ?C buf = cb_buffer b"
    "cb_head b < cb_tail b \<Longrightarrow> slice (cb_tail b + ?C) (?C - cb_tail b) buf = drop (cb_tail b) (cb_buffer b)"
    "b' = b\<lparr>cb_buffer := buf, cb_capacity := 2 * ?C,
            cb_tail := (if cb_head b < cb_tail b then cb_tail b + ?C else cb_tail b)\<rparr>"
    using g by (auto intro: grow_buffer_result [where alloc_ok = alloc_ok, OF f c a])
  have low: "buf ! i = cb_buffer b ! i" if "i < ?C" for i using buf(2) that by (metis nth_take)
  have fr: "ring_frame b'" using ring_frame_grow [OF f c a g] by blast
  have main: "ring_contents b' = ring_contents b \<and> ring_shape b' \<and> grow_safe b'"
  proof (cases "cb_head b < cb_tail b")
    case True
    have sz: "cb_size b = cb_head b + ?C - cb_tail b"
    proof (cases "cb_tail b + cb_size b < ?C")
      case in_range: True
      then show ?thesis using h True f' by simp
    next
      case False
      then show ?thesis using h True f' by (simp add: mod_if split: if_splits)
    qed
    have high: "buf ! (cb_tail b + ?C + j) = cb_buffer b ! (cb_tail b + j)" if "j < ?C - cb_tail b" for j
      using that buf(1) arg_cong [OF buf(3) [OF True], of "\<lambda>l. l ! j"] f' by (simp add: nth_slice)
    have "buf ! ((cb_tail b + ?C + i) mod (2 * ?C)) = cb_buffer b ! ((cb_tail b + i) mod ?C)"
      if "i < cb_size b" for i
    proof (cases "i < ?C - cb_tail b")
      case True
      then show ?thesis using high [of i] f' by simp
    next
      case False
      then have "(cb_tail b + ?C + i) mod (2 * ?C) = cb_tail b + i - ?C"
        "(cb_tail b + i) mod ?C = cb_tail b + i - ?C"
        using that sz True f' by (simp_all add: mod_if)
      then show ?thesis using low [of "cb_tail b + i - ?C"] that sz True f' by simp
    qed
    then have "ring_contents b' = ring_contents b"
      using True by (simp add: ring_contents_def buf(4))
    moreover have "cb_head b mod (2 * ?C) = (cb_tail b + ?C + cb_size b) mod (2 * ?C)"
      using sz True f' by (simp add: mod_if)
    ultimately show ?thesis
      using True fr by (simp add: ring_shape_frame grow_safe_def buf(4))
  next
    case False
    then have sz: "cb_size b = cb_head b - cb_tail b" using safe by (simp add: grow_safe_def)
    have "(cb_tail b + i) mod (2 * ?C) = (cb_tail b + i) mod ?C" "cb_tail b + i < ?C" if "i < cb_size b" for i
      using that sz f' by simp_all
    then have "ring_contents b' = ring_contents b"
      using False low by (simp add: ring_contents_def buf(4))
    then show ?thesis
      using False fr sz by (simp add: ring_shape_frame grow_safe_def buf(4))
  qed
  then show ?thesis using ok by (simp add: ring_ok_def)
qed

text \<open>The loop ends, with any property that each growth keeps.\<close>

lemma grow_until_total:
  assumes "ring_frame b" "P b" "cb_size b + n \<le> 2 ^ 30" "\<forall>m \<le> 2 ^ 30. alloc_ok m"
    and "\<And>b b'. ring_frame b \<Longrightarrow> P b \<Longrightarrow> cb_capacity b < 2 ^ 30 \<Longrightarrow> grow_buffer alloc_ok b = Some b' \<Longrightarrow> P b'"
  shows "\<exists>b'. grow_until alloc_ok n b = Some b' \<and> ring_frame b' \<and> P b' \<and>
    cb_size b' = cb_size b \<and> cb_size b + n \<le> cb_capacity b' \<and> cb_capacity b \<le> cb_capacity b'"
  using assms(1-3)
proof (induction "2 ^ 30 - cb_capacity b" arbitrary: b rule: less_induct)
  case less
  note f' = ring_frameD [OF less.prems(1)]
  have u: "u32n (cb_size b + n) = cb_size b + n" using less.prems(3) by (simp add: u32n_small)
  show ?case
  proof (cases "cb_capacity b < cb_size b + n")
    case True
    then have c: "cb_capacity b < 2 ^ 30" using less.prems(3) by simp
    obtain k where "k < 31" "2 * cb_capacity b = 2 ^ k"
      using ring_frame_double [OF less.prems(1) c] by blast
    then have "2 * cb_capacity b \<le> 2 ^ 30" using power_increasing [of k 30 "2 :: nat"] by simp
    then have a: "alloc_ok (2 * cb_capacity b)" using assms(4) by blast
    obtain b1 where g: "grow_buffer alloc_ok b = Some b1"
      by (rule grow_buffer_result [where alloc_ok = alloc_ok, OF less.prems(1) c a])
    note g' = ring_frame_grow [OF less.prems(1) c a g]
    have "\<exists>b'. grow_until alloc_ok n b1 = Some b' \<and> ring_frame b' \<and> P b' \<and>
        cb_size b' = cb_size b1 \<and> cb_size b1 + n \<le> cb_capacity b' \<and> cb_capacity b1 \<le> cb_capacity b'"
      using g' c f' less.prems(2,3) assms(5) [OF less.prems(1,2) c g] by (intro less.hyps) auto
    then show ?thesis using True g g' u by (subst grow_until.simps) auto
  next
    case False
    then show ?thesis using less.prems u by (subst grow_until.simps) simp
  qed
qed

lemma push_after_growth:
  assumes "grow_until alloc_ok n b = Some b'" "ring_frame b'" "cb_size b' + n \<le> cb_capacity b'"
  shows "stream_push_data alloc_ok b data n = stream_push_data alloc_ok b' data n"
proof -
  have "grow_until alloc_ok n b' = Some b'"
    using assms(3) ring_frameD [OF assms(2)] by (subst grow_until.simps) (simp add: u32n_small)
  with assms(1) show ?thesis by (simp add: stream_push_data_def)
qed

text \<open>A push that fits, or that grows the buffer in a safe position.\<close>

definition push_ready :: "circular_buffer \<Rightarrow> nat \<Rightarrow> bool" where
  "push_ready b n \<longleftrightarrow> cb_size b + n \<le> cb_capacity b \<or> grow_safe b \<and> cb_size b + n \<le> 2 ^ 30"

lemma push_contents:
  assumes ok: "ring_ok b" and r: "push_ready b n" and n: "n \<le> length data"
    and a: "\<forall>m \<le> 2 ^ 30. alloc_ok m"
  shows "\<exists>b'. stream_push_data alloc_ok b data n = Some b' \<and> ring_ok b' \<and>
    ring_contents b' = ring_contents b @ map Some (take n data)"
proof (cases "cb_size b + n \<le> cb_capacity b")
  case True
  then show ?thesis using push_contents_no_growth [OF ok _ n] by blast
next
  case False
  with r have safe: "grow_safe b" and sz: "cb_size b + n \<le> 2 ^ 30" by (simp_all add: push_ready_def)
  let ?P = "\<lambda>x. ring_ok x \<and> grow_safe x \<and> ring_contents x = ring_contents b"
  have "\<exists>b'. grow_until alloc_ok n b = Some b' \<and> ring_frame b' \<and> ?P b' \<and>
      cb_size b' = cb_size b \<and> cb_size b + n \<le> cb_capacity b' \<and> cb_capacity b \<le> cb_capacity b'"
  proof (rule grow_until_total)
    show "ring_frame b" using ok by (simp add: ring_ok_def ring_shape_frame)
    show "?P b" using ok safe by simp
    fix x x' assume x: "ring_frame x" "?P x" "cb_capacity x < 2 ^ 30" "grow_buffer alloc_ok x = Some x'"
    obtain k where "k < 31" "2 * cb_capacity x = 2 ^ k" using ring_frame_double [OF x(1,3)] by blast
    then have "2 * cb_capacity x \<le> 2 ^ 30" using power_increasing [of k 30 "2 :: nat"] by simp
    then show "?P x'" using x a grow_keeps_contents [of x alloc_ok x'] by auto
  qed (use sz a in auto)
  then obtain b' where b': "grow_until alloc_ok n b = Some b'" "ring_frame b'" "?P b'"
    "cb_size b' + n \<le> cb_capacity b'" by auto
  show ?thesis
    using push_contents_no_growth [of b' n data alloc_ok] b' n
    by (auto simp: push_after_growth [OF b'(1,2,4)])
qed

text \<open>The positions in which growing is unsafe.\<close>

lemma unsafe_positions:
  assumes "ring_shape b"
  shows "\<not> grow_safe b \<longleftrightarrow>
    cb_head b = cb_tail b \<and> cb_size b = cb_capacity b \<or>
    cb_head b = cb_capacity b \<and> cb_tail b = 0 \<and> cb_size b = 0"
proof -
  have f': "cb_tail b < cb_capacity b" "cb_head b \<le> cb_capacity b" "cb_size b \<le> cb_capacity b"
    and h: "cb_head b mod cb_capacity b = (cb_tail b + cb_size b) mod cb_capacity b"
    using assms by (simp_all add: ring_shape_def)
  show ?thesis
  proof (cases "cb_head b = cb_capacity b")
    case True
    then show ?thesis using f' h by (auto simp: grow_safe_def mod_if split: if_splits)
  next
    case False
    then show ?thesis using f' h by (auto simp: grow_safe_def mod_if split: if_splits)
  qed
qed

section \<open>The buffer as a queue of bytes\<close>

definition ring_bytes :: "circular_buffer \<Rightarrow> bytes" where
  "ring_bytes b = map the (ring_contents b)"

lemma ring_contents_bytes: "ring_ok b \<Longrightarrow> ring_contents b = map Some (ring_bytes b)"
  by (auto simp: ring_ok_def ring_bytes_def comp_def intro!: map_idI [symmetric]) (metis option.collapse)

text \<open>
  The contract: operations that append and remove bytes, given room. \<open>fifo_run\<close> performs a sequence of them;
  its result is all bytes popped, in order.
\<close>

datatype fifo_op = Push bytes | Pop nat

fun fifo_run :: "('b \<Rightarrow> bytes \<Rightarrow> 'b option) \<Rightarrow> ('b \<Rightarrow> nat \<Rightarrow> (bytes \<times> 'b) option) \<Rightarrow>
    'b \<Rightarrow> fifo_op list \<Rightarrow> (bytes \<times> 'b) option" where
  "fifo_run push pop b [] = Some ([], b)"
| "fifo_run push pop b (Push xs # ops) = Option.bind (push b xs) (\<lambda>b. fifo_run push pop b ops)"
| "fifo_run push pop b (Pop n # ops) = Option.bind (pop b n) (\<lambda>(out, b).
     Option.bind (fifo_run push pop b ops) (\<lambda>(outs, b). Some (out @ outs, b)))"

fun fifo_room :: "('b \<Rightarrow> nat \<Rightarrow> bool) \<Rightarrow> ('b \<Rightarrow> bytes \<Rightarrow> 'b option) \<Rightarrow> ('b \<Rightarrow> nat \<Rightarrow> (bytes \<times> 'b) option) \<Rightarrow>
    'b \<Rightarrow> fifo_op list \<Rightarrow> bool" where
  "fifo_room room push pop b [] = True"
| "fifo_room room push pop b (Push xs # ops) =
     (room b (length xs) \<and> (case push b xs of None \<Rightarrow> True | Some b \<Rightarrow> fifo_room room push pop b ops))"
| "fifo_room room push pop b (Pop n # ops) =
     (case pop b n of None \<Rightarrow> True | Some (out, b) \<Rightarrow> fifo_room room push pop b ops)"

primrec pushed :: "fifo_op list \<Rightarrow> bytes" where
  "pushed [] = []"
| "pushed (x # ops) = (case x of Push xs \<Rightarrow> xs | Pop n \<Rightarrow> []) @ pushed ops"

locale byte_fifo =
  fixes ok :: "'b \<Rightarrow> bool" and contents :: "'b \<Rightarrow> bytes"
    and room :: "'b \<Rightarrow> nat \<Rightarrow> bool"
    and push :: "'b \<Rightarrow> bytes \<Rightarrow> 'b option" and pop :: "'b \<Rightarrow> nat \<Rightarrow> (bytes \<times> 'b) option"
  assumes push_law: "ok b \<Longrightarrow> room b (length xs) \<Longrightarrow>
      \<exists>b'. push b xs = Some b' \<and> ok b' \<and> contents b' = contents b @ xs"
    and pop_law: "ok b \<Longrightarrow>
      \<exists>b'. pop b n = Some (take n (contents b), b') \<and> ok b' \<and> contents b' = drop n (contents b)"
begin

lemma run_order:
  "ok b \<Longrightarrow> fifo_room room push pop b ops \<Longrightarrow>
   \<exists>outs b'. fifo_run push pop b ops = Some (outs, b') \<and> ok b' \<and>
     outs @ contents b' = contents b @ pushed ops"
proof (induction ops arbitrary: b)
  case Nil
  then show ?case by simp
next
  case (Cons x ops)
  show ?case
  proof (cases x)
    case (Push xs)
    then obtain b1 where "push b xs = Some b1" "ok b1" "contents b1 = contents b @ xs"
      using push_law [of b xs] Cons.prems by auto
    with Push Cons.IH [of b1] Cons.prems show ?thesis by auto
  next
    case (Pop n)
    obtain b1 where b1: "pop b n = Some (take n (contents b), b1)" "ok b1" "contents b1 = drop n (contents b)"
      using pop_law Cons.prems by blast
    with Pop Cons.IH [of b1] Cons.prems obtain outs b' where
      r: "fifo_run push pop b1 ops = Some (outs, b')" "ok b'" "outs @ contents b' = contents b1 @ pushed ops"
      by auto
    have "(take n (contents b) @ outs) @ contents b' = contents b @ pushed ops"
      using r(3) b1(3) by simp
    then show ?thesis using b1 r Pop by simp
  qed
qed

end

definition push_all :: "circular_buffer \<Rightarrow> bytes \<Rightarrow> circular_buffer option" where
  "push_all b xs = stream_push_data (\<lambda>n. n \<le> 2 ^ 30) b xs (length xs)"

definition pop_bytes :: "circular_buffer \<Rightarrow> nat \<Rightarrow> (bytes \<times> circular_buffer) option" where
  "pop_bytes b n = Option.bind (stream_pop_data b n) (\<lambda>(out, b). Some (map the out, b))"

interpretation ring: byte_fifo ring_ok ring_bytes push_ready push_all pop_bytes
proof
  fix b and xs :: bytes assume "ring_ok b" "push_ready b (length xs)"
  then show "\<exists>b'. push_all b xs = Some b' \<and> ring_ok b' \<and> ring_bytes b' = ring_bytes b @ xs"
    using push_contents [of b "length xs" xs "\<lambda>n. n \<le> 2 ^ 30"]
    by (auto simp: push_all_def ring_bytes_def comp_def)
next
  fix b n assume "ring_ok b"
  then show "\<exists>b'. pop_bytes b n = Some (take n (ring_bytes b), b') \<and> ring_ok b' \<and>
      ring_bytes b' = drop n (ring_bytes b)"
    using pop_contents [of b n] by (auto simp: pop_bytes_def ring_bytes_def take_map drop_map)
qed

section \<open>Properties\<close>

lemma init_ring:
  assumes "alloc_ok INITIAL_BUFFER_CAPACITY"
  obtains b where "init_stream_buffer alloc_ok = Some b" "ring_ok b" "ring_contents b = []"
    "cb_tail b = 0" "cb_size b = 0" "cb_capacity b = 64"
proof -
  have "\<exists>k < 31. 64 = (2 :: nat) ^ k" by (intro exI [of _ 6]) simp
  then show ?thesis
    using assms that by (auto simp: init_stream_buffer_def ring_ok_def ring_shape_def
        ring_contents_def INITIAL_BUFFER_CAPACITY_def)
qed

text \<open>Pushing appends: in a well-formed buffer, if the bytes fit or the buffer is in a position where
  growing is safe, \<open>stream_push_data\<close> terminates without leaving any memory block, keeps the
  buffer well formed and adds exactly the pushed bytes behind the unread ones, through any
  number of doublings.\<close>

theorem stream_push_appends:
  assumes "ring_ok b" "push_ready b n" "n \<le> length data" "\<forall>m \<le> 2 ^ 30. alloc_ok m"
  shows "\<exists>b'. stream_push_data alloc_ok b data n = Some b' \<and> ring_ok b' \<and>
    ring_bytes b' = ring_bytes b @ take n data"
  using push_contents [OF assms] by (auto simp: ring_bytes_def comp_def)

lemma stream_push_appends_witness:
  "\<exists>b b'. init_stream_buffer (\<lambda>_. True) = Some b \<and>
     stream_push_data (\<lambda>_. True) b (replicate 1000 7) 1000 = Some b' \<and> ring_ok b' \<and>
     ring_bytes b' = replicate 1000 7"
proof -
  obtain b where b: "init_stream_buffer (\<lambda>_. True) = Some b" "ring_ok b" "ring_contents b = []"
    "cb_tail b = 0" "cb_size b = 0" "cb_capacity b = 64"
    by (rule init_ring [of "\<lambda>_. True"]) simp_all
  have h: "cb_head b = 0" using b(1) by (auto simp: init_stream_buffer_def split: if_splits)
  show ?thesis
    using stream_push_appends [of b 1000 "replicate 1000 7" "\<lambda>_. True"] b h
    by (auto simp: push_ready_def grow_safe_def ring_bytes_def)
qed

text \<open>Popping takes from the front: \<open>stream_pop_data\<close> never leaves the memory block, delivers the
  first \<open>n\<close> unread bytes (all of them when there are fewer) and leaves the rest, for every
  requested size.\<close>

theorem stream_pop_takes_front:
  assumes "ring_ok b"
  shows "\<exists>b'. stream_pop_data b n = Some (map Some (take n (ring_bytes b)), b') \<and> ring_ok b' \<and>
    ring_bytes b' = drop n (ring_bytes b)"
proof -
  have "take n (ring_contents b) = map Some (take n (ring_bytes b))"
    by (simp only: ring_contents_bytes [OF assms] take_map)
  then show ?thesis using pop_contents [OF assms, of n] by (auto simp: ring_bytes_def drop_map)
qed

lemma stream_pop_takes_front_witness:
  "\<exists>b b'. init_stream_buffer (\<lambda>_. True) = Some b \<and> stream_pop_data b 10 = Some ([], b') \<and> ring_ok b'"
proof -
  obtain b where "init_stream_buffer (\<lambda>_. True) = Some b" "ring_ok b" "ring_contents b = []"
    by (rule init_ring [of "\<lambda>_. True"]) simp_all
  then show ?thesis using stream_pop_takes_front [of b 10] by (auto simp: ring_bytes_def)
qed



text \<open>Growing with the head at or behind the tail's position moves nothing.\<close>

lemma grow_until_unmoved:
  assumes "ring_frame b" "cb_tail b \<le> cb_head b" "cb_size b + n \<le> 2 ^ 30" "\<forall>m \<le> 2 ^ 30. alloc_ok m"
  obtains b' where "grow_until alloc_ok n b = Some b'" "ring_frame b'"
    "cb_tail b' = cb_tail b" "cb_head b' = cb_head b" "cb_size b' = cb_size b"
    "cb_size b' + n \<le> cb_capacity b'" "cb_capacity b \<le> cb_capacity b'"
proof -
  let ?P = "\<lambda>x. cb_tail x = cb_tail b \<and> cb_head x = cb_head b"
  have "\<exists>b'. grow_until alloc_ok n b = Some b' \<and> ring_frame b' \<and> ?P b' \<and>
      cb_size b' = cb_size b \<and> cb_size b + n \<le> cb_capacity b' \<and> cb_capacity b \<le> cb_capacity b'"
    using assms
    by (intro grow_until_total) (auto simp: grow_buffer_def Let_def split: if_splits)
  then show ?thesis using that by auto
qed

text \<open>Growing a full buffer whose contents start anywhere but at position 0 loses data: head and tail
  are then equal, \<open>grow_buffer\<close> takes this for contents that do not wrap around, and the first
  pushed byte overwrites the oldest unread one.\<close>

theorem stream_push_full_overwrites:
  assumes "ring_ok b" "cb_size b = cb_capacity b" "cb_tail b \<noteq> 0"
    and "0 < n" "n \<le> length data" "cb_size b + n \<le> 2 ^ 30" "\<forall>m \<le> 2 ^ 30. alloc_ok m"
  shows "\<exists>b'. stream_push_data alloc_ok b data n = Some b' \<and> hd (ring_contents b') = Some (data ! 0)"
proof -
  from assms(1) have f: "ring_frame b"
    and h: "cb_head b mod cb_capacity b = (cb_tail b + cb_size b) mod cb_capacity b"
    by (simp_all add: ring_ok_def ring_shape_frame)
  have e: "cb_head b = cb_tail b"
    using h ring_frameD [OF f] assms(2,3) by (cases "cb_head b = cb_capacity b") auto
  obtain b1 where b1: "grow_until alloc_ok n b = Some b1" "ring_frame b1"
    "cb_tail b1 = cb_tail b" "cb_head b1 = cb_head b" "cb_size b1 = cb_size b"
    "cb_size b1 + n \<le> cb_capacity b1" "cb_capacity b \<le> cb_capacity b1"
    by (rule grow_until_unmoved [OF f _ assms(6,7)]) (use e in auto)
  note f' = ring_frameD [OF f] and f1 = ring_frameD [OF b1(2)]
  obtain h' where p: "stream_push_data alloc_ok b1 data n =
      Some (b1\<lparr>cb_buffer := ring_write (cb_capacity b1) (cb_head b1) (map Some (take n data)) (cb_buffer b1),
              cb_head := h', cb_size := cb_size b1 + n\<rparr>)" (is "_ = Some ?b")
    by (rule push_no_growth [OF b1(2,6) assms(5)])
  have "ring_write (cb_capacity b1) (cb_head b1) (map Some (take n data)) (cb_buffer b1) !
      ((cb_head b1 + 0) mod cb_capacity b1) = map Some (take n data) ! 0"
    using f1 assms(4,5) b1(6) by (intro ring_write_props(2)) auto
  then have "hd (ring_contents ?b) = Some (data ! 0)"
    using assms(4,5) b1 e by (subst hd_conv_nth) (auto simp: ring_contents_def)
  then show ?thesis using p push_after_growth [OF b1(1,2,6)] by auto
qed

text \<open>The position is reached by pushing 64 bytes into a fresh buffer, popping 32 and pushing 32.\<close>

lemma full_wrapped_reachable:
  "\<exists>b0 b1 b2 b3. init_stream_buffer (\<lambda>_. True) = Some b0 \<and>
     stream_push_data (\<lambda>_. True) b0 (replicate 64 1) 64 = Some b1 \<and>
     stream_pop_data b1 32 = Some (replicate 32 (Some 1), b2) \<and>
     stream_push_data (\<lambda>_. True) b2 (replicate 32 2) 32 = Some b3 \<and>
     ring_ok b3 \<and> cb_size b3 = 64 \<and> cb_capacity b3 = 64 \<and> cb_tail b3 = 32"
proof -
  obtain b0 where b0: "init_stream_buffer (\<lambda>_. True) = Some b0" "ring_ok b0" "ring_contents b0 = []"
    "cb_tail b0 = 0" "cb_size b0 = 0" "cb_capacity b0 = 64"
    by (rule init_ring [of "\<lambda>_. True"]) simp_all
  obtain b1 where b1: "stream_push_data (\<lambda>_. True) b0 (replicate 64 1) 64 = Some b1" "ring_ok b1"
    "ring_contents b1 = replicate 64 (Some 1)" "cb_tail b1 = 0" "cb_capacity b1 = 64" "cb_size b1 = 64"
    using push_contents_no_growth [of b0 64 "replicate 64 1" "\<lambda>_. True"] b0 by auto
  obtain b2 where b2: "stream_pop_data b1 32 = Some (replicate 32 (Some 1), b2)" "ring_ok b2"
    "cb_tail b2 = 32" "cb_capacity b2 = 64" "cb_size b2 = 32"
    using pop_contents [OF b1(2), of 32] b1(3-6) by auto
  obtain b3 where b3: "stream_push_data (\<lambda>_. True) b2 (replicate 32 2) 32 = Some b3" "ring_ok b3"
    "cb_tail b3 = 32" "cb_capacity b3 = 64" "cb_size b3 = 64"
    using push_contents_no_growth [of b2 32 "replicate 32 2" "\<lambda>_. True"] b2 by auto
  show ?thesis using b0 b1 b2 b3 by auto
qed

lemma stream_push_full_overwrites_witness:
  "\<exists>b0 b1 b2 b3 b4. init_stream_buffer (\<lambda>_. True) = Some b0 \<and>
     stream_push_data (\<lambda>_. True) b0 (replicate 64 1) 64 = Some b1 \<and>
     stream_pop_data b1 32 = Some (replicate 32 (Some 1), b2) \<and>
     stream_push_data (\<lambda>_. True) b2 (replicate 32 2) 32 = Some b3 \<and>
     stream_push_data (\<lambda>_. True) b3 [3] 1 = Some b4 \<and> hd (ring_contents b4) = Some 3"
proof -
  obtain b0 b1 b2 b3 where b: "init_stream_buffer (\<lambda>_. True) = Some b0"
     "stream_push_data (\<lambda>_. True) b0 (replicate 64 1) 64 = Some b1"
     "stream_pop_data b1 32 = Some (replicate 32 (Some 1), b2)"
     "stream_push_data (\<lambda>_. True) b2 (replicate 32 2) 32 = Some b3"
     "ring_ok b3" "cb_size b3 = 64" "cb_capacity b3 = 64" "cb_tail b3 = 32"
    using full_wrapped_reachable by blast
  have "\<exists>b'. stream_push_data (\<lambda>_. True) b3 [3] 1 = Some b' \<and> hd (ring_contents b') = Some ([3] ! 0)"
    by (rule stream_push_full_overwrites) (use b in auto)
  with b show ?thesis by auto
qed

text \<open>The other unsafe position is an emptied buffer whose head stands at the end: a push of more than
  the capacity grows it, writes from the old end on, and the bytes then read first are the ones
  that wrapped around, not the first pushed.\<close>

theorem stream_push_empty_end_reorders:
  assumes "ring_ok b" "cb_head b = cb_capacity b" "cb_tail b = 0" "cb_size b = 0"
    and "cb_capacity b < n" "n \<le> 2 * cb_capacity b" "n \<le> length data" "n \<le> 2 ^ 30"
    and "\<forall>m \<le> 2 ^ 30. alloc_ok m"
  shows "\<exists>b'. stream_push_data alloc_ok b data n = Some b' \<and>
    hd (ring_contents b') = Some (data ! cb_capacity b)"
proof -
  let ?C = "cb_capacity b"
  from assms(1) have f: "ring_frame b" by (simp add: ring_ok_def ring_shape_frame)
  note f' = ring_frameD [OF f]
  obtain k where "k < 31" "cb_capacity b = 2 ^ k" using f by (auto simp: ring_frame_def)
  then have "k < 30" using assms(5,8) power_strict_increasing_iff [of "2 :: nat" k 30] by linarith
  then have c: "?C < 2 ^ 30" "2 * ?C \<le> 2 ^ 30"
    using \<open>?C = 2 ^ k\<close> power_increasing [of "Suc k" 30 "2 :: nat"] power_strict_increasing [of k 30 "2 :: nat"] by auto
  then have a: "alloc_ok (2 * ?C)" using assms(9) by blast
  obtain b1 where g: "grow_buffer alloc_ok b = Some b1" "cb_tail b1 = 0" "cb_head b1 = ?C"
    by (rule grow_buffer_result [where alloc_ok = alloc_ok, OF f c(1) a]) (use assms in auto)
  note g' = ring_frame_grow [OF f c(1) a g(1)]
  have "grow_until alloc_ok n b1 = Some b1"
    using g' assms by (subst grow_until.simps) (simp add: u32n_small)
  then have u: "grow_until alloc_ok n b = Some b1"
    using g assms by (subst grow_until.simps) (simp add: u32n_small)
  have fr: "ring_frame b1" and fit: "cb_size b1 + n \<le> cb_capacity b1" using g' assms by auto
  note f1 = ring_frameD [OF fr]
  obtain h' where p: "stream_push_data alloc_ok b1 data n =
      Some (b1\<lparr>cb_buffer := ring_write (cb_capacity b1) (cb_head b1) (map Some (take n data)) (cb_buffer b1),
              cb_head := h', cb_size := cb_size b1 + n\<rparr>)" (is "_ = Some ?b")
    by (rule push_no_growth [OF fr fit assms(7)])
  have "ring_write (cb_capacity b1) (cb_head b1) (map Some (take n data)) (cb_buffer b1) !
      ((cb_head b1 + ?C) mod cb_capacity b1) = map Some (take n data) ! ?C"
    using f1 assms fit by (intro ring_write_props(2)) auto
  moreover have "(cb_head b1 + ?C) mod cb_capacity b1 = 0" using g' assms by (simp add: mult_2 [symmetric])
  ultimately have "hd (ring_contents ?b) = Some (data ! ?C)"
    using assms g g' by (subst hd_conv_nth) (auto simp: ring_contents_def)
  then show ?thesis using p push_after_growth [OF u fr fit] by auto
qed

lemma stream_push_empty_end_reorders_witness:
  "\<exists>b b'. cb_head b = 64 \<and> cb_size b = 0 \<and>
     stream_push_data (\<lambda>_. True) b (replicate 64 1 @ replicate 36 2) 100 = Some b' \<and>
     hd (ring_contents b') = Some 2"
proof -
  define b where "b = \<lparr>cb_buffer = replicate 64 None, cb_head = 64, cb_tail = 0, cb_size = 0, cb_capacity = 64\<rparr>"
  have "\<exists>k < 31. 64 = (2 :: nat) ^ k" by (intro exI [of _ 6]) simp
  then have "ring_ok b" by (simp add: b_def ring_ok_def ring_shape_def ring_contents_def)
  then have "\<exists>b'. stream_push_data (\<lambda>_. True) b (replicate 64 1 @ replicate 36 2) 100 = Some b' \<and>
      hd (ring_contents b') = Some ((replicate 64 1 @ replicate 36 2) ! cb_capacity b)"
    by (rule stream_push_empty_end_reorders) (simp_all add: b_def)
  moreover have "cb_head b = 64" "cb_size b = 0" "cb_capacity b = 64" by (simp_all add: b_def)
  ultimately show ?thesis by (auto simp: nth_append)
qed

end
