(* ===== verification/Hashmaps.thy ===== *)
theory Hashmaps
  imports Stream_Buffers
begin

text \<open>
  The two hash maps keyed by stream id: the relay's, from stream to socket
  (\<open>src/relay/services/socket_hashmap.c\<close>), and the client's, from stream to receive buffer
  (\<open>src/client/services/stream_hashmap.c\<close>). Both are arrays of 2048 entries with linear probing
  and tombstones, and differ only in what an entry carries, here the type \<open>'a\<close>. A pointer to an
  entry is its index, \<open>NULL\<close> is \<open>None\<close>. Indices are at most 2048, so \<open>uint16_t\<close> never wraps.
\<close>

definition HASHMAP_AMOUNT :: nat where "HASHMAP_AMOUNT = 2048"

datatype hashmap_entry_state =
  HASHMAP_STATE_EMPTY | HASHMAP_STATE_FILLED | HASHMAP_STATE_DELETED

record 'a hashmap_entry =
  entry_type :: hashmap_entry_state
  he_stream_id :: u16
  he_data :: 'a

type_synonym 'a hashmap = "'a hashmap_entry list"

section \<open>The operations\<close>

definition socket_hashmap_init :: "'a hashmap \<Rightarrow> 'a hashmap" where
  "socket_hashmap_init m =
     fold (\<lambda>i m. m[i := (m ! i)\<lparr>entry_type := HASHMAP_STATE_EMPTY\<rparr>]) [0..<HASHMAP_AMOUNT] m"

definition socket_hashmap_apply :: "('a hashmap_entry \<Rightarrow> 'a hashmap_entry) \<Rightarrow> 'a hashmap \<Rightarrow> 'a hashmap" where
  "socket_hashmap_apply apply_func m =
     fold (\<lambda>i m. if entry_type (m ! i) = HASHMAP_STATE_FILLED then m[i := apply_func (m ! i)] else m)
       [0..<HASHMAP_AMOUNT] m"

text \<open>What the two free functions release, in order: sockets closed, buffers freed.\<close>

definition socket_hashmap_free :: "'a hashmap \<Rightarrow> 'a list" where
  "socket_hashmap_free m =
     concat (map (\<lambda>i. if entry_type (m ! i) = HASHMAP_STATE_FILLED then [he_data (m ! i)] else [])
       [0..<HASHMAP_AMOUNT])"

text \<open>\<open>start_index\<close> is a constant of each call, \<open>home stream_id\<close>.\<close>

definition home :: "u16 \<Rightarrow> nat" where "home stream_id = unat stream_id mod HASHMAP_AMOUNT"

lemma probe_progress:
  assumes "Suc index mod HASHMAP_AMOUNT \<noteq> home s"
  shows "(home s + 4095 - Suc index mod HASHMAP_AMOUNT) mod HASHMAP_AMOUNT
    < (home s + 4095 - index mod HASHMAP_AMOUNT) mod HASHMAP_AMOUNT"
proof -
  define i h where "i = index mod 2048" and "h = home s"
  have ih: "i < 2048" "h < 2048" by (simp_all add: i_def h_def home_def HASHMAP_AMOUNT_def)
  have s: "Suc index mod 2048 = (if i = 2047 then 0 else Suc i)"
    using mod_Suc [of index 2048] by (auto simp: i_def)
  have e: "(h + 4095 - x) mod 2048 = (if x < h then h - x - 1 else h + 2047 - x)" if "x < 2048" for x
  proof (cases "x < h")
    case True
    then have "h + 4095 - x = (h - x - 1) + 2048 * 2" by linarith
    then show ?thesis using True ih by (simp only: mod_mult_self2) simp
  next
    case False
    then have "h + 4095 - x = (h + 2047 - x) + 2048" using that by linarith
    then show ?thesis using False ih that by (simp only: mod_add_self2) simp
  qed
  have "(h + 4095 - (if i = 2047 then 0 else Suc i)) mod 2048 < (h + 4095 - i) mod 2048"
    if "(if i = 2047 then 0 else Suc i) \<noteq> h"
  proof (cases "i = 2047")
    case True
    then show ?thesis using e [of 0] e [of i] ih that by auto
  next
    case False
    then show ?thesis using e [of "Suc i"] e [of i] ih that by auto
  qed
  then show ?thesis using assms by (simp add: HASHMAP_AMOUNT_def s i_def [symmetric] h_def [symmetric])
qed

text \<open>The search loop of the insertion: the slot to fill, or \<open>None\<close> for the two \<open>return NULL\<close>.\<close>

function insert_probe :: "'a hashmap \<Rightarrow> u16 \<Rightarrow> nat \<Rightarrow> nat option" where
  "insert_probe m stream_id index =
     (if entry_type (m ! index) = HASHMAP_STATE_FILLED then
        if he_stream_id (m ! index) = stream_id then None
        else
          let index = (index + 1) mod HASHMAP_AMOUNT
          in if index = home stream_id then None else insert_probe m stream_id index
      else Some index)"
  by pat_completeness auto
termination
  by (relation "measure (\<lambda>(m, s, index). (home s + 4095 - index mod HASHMAP_AMOUNT) mod HASHMAP_AMOUNT)")
     (use probe_progress in \<open>auto simp: HASHMAP_AMOUNT_def\<close>)

text \<open>The loop of the lookup and of the removal.\<close>

function find_probe :: "'a hashmap \<Rightarrow> u16 \<Rightarrow> nat \<Rightarrow> nat option" where
  "find_probe m stream_id index =
     (if entry_type (m ! index) \<noteq> HASHMAP_STATE_EMPTY then
        if entry_type (m ! index) = HASHMAP_STATE_FILLED \<and> he_stream_id (m ! index) = stream_id
        then Some index
        else
          let index = (index + 1) mod HASHMAP_AMOUNT
          in if index = home stream_id then None else find_probe m stream_id index
      else None)"
  by pat_completeness auto
termination
  by (relation "measure (\<lambda>(m, s, index). (home s + 4095 - index mod HASHMAP_AMOUNT) mod HASHMAP_AMOUNT)")
     (use probe_progress in \<open>auto simp: HASHMAP_AMOUNT_def\<close>)

declare insert_probe.simps [simp del] find_probe.simps [simp del]

definition socket_hashmap_find :: "'a hashmap \<Rightarrow> u16 \<Rightarrow> nat option" where
  "socket_hashmap_find m stream_id = find_probe m stream_id (home stream_id)"

definition socket_hashmap_insert :: "'a hashmap \<Rightarrow> u16 \<Rightarrow> 'a \<Rightarrow> nat option \<times> 'a hashmap" where
  "socket_hashmap_insert m stream_id socket_fd =
     (case insert_probe m stream_id (home stream_id) of
        None \<Rightarrow> (None, m)
      | Some index \<Rightarrow>
          (Some index,
           m[index := (m ! index)\<lparr>entry_type := HASHMAP_STATE_FILLED, he_stream_id := stream_id,
                                  he_data := socket_fd\<rparr>]))"

definition socket_hashmap_remove :: "'a hashmap \<Rightarrow> u16 \<Rightarrow> bool \<times> 'a hashmap" where
  "socket_hashmap_remove m stream_id =
     (case find_probe m stream_id (home stream_id) of
        None \<Rightarrow> (False, m)
      | Some index \<Rightarrow> (True, m[index := (m ! index)\<lparr>entry_type := HASHMAP_STATE_DELETED\<rparr>]))"

text \<open>The client's insertion makes a fresh buffer for the stream; it aborts when that fails.\<close>

definition stream_hashmap_insert ::
  "(nat \<Rightarrow> bool) \<Rightarrow> circular_buffer hashmap \<Rightarrow> u16 \<Rightarrow> (nat option \<times> circular_buffer hashmap) option" where
  "stream_hashmap_insert alloc_ok m stream_id =
     (case insert_probe m stream_id (home stream_id) of
        None \<Rightarrow> Some (None, m)
      | Some index \<Rightarrow>
          Option.bind (init_stream_buffer alloc_ok) (\<lambda>recv_buffer.
          Some (Some index,
            m[index := (m ! index)\<lparr>entry_type := HASHMAP_STATE_FILLED, he_stream_id := stream_id,
                                   he_data := recv_buffer\<rparr>])))"

text \<open>The client's removal also frees the stream's buffer, which is the last component.\<close>

definition stream_hashmap_remove ::
  "circular_buffer hashmap \<Rightarrow> u16 \<Rightarrow> bool \<times> circular_buffer hashmap \<times> circular_buffer option" where
  "stream_hashmap_remove m stream_id =
     (case find_probe m stream_id (home stream_id) of
        None \<Rightarrow> (False, m, None)
      | Some index \<Rightarrow>
          (True, m[index := (m ! index)\<lparr>entry_type := HASHMAP_STATE_DELETED\<rparr>],
           Some (he_data (m ! index))))"

text \<open>The static counter is the argument and, on return, the result.\<close>

partial_function (option) gen_stream_id :: "'a hashmap \<Rightarrow> u32 \<Rightarrow> u32 option" where
  "gen_stream_id m stream_id =
     (if entry_type (m ! (unat stream_id mod HASHMAP_AMOUNT)) = HASHMAP_STATE_FILLED
      then gen_stream_id m (stream_id + 1)
      else Some stream_id)"

section \<open>The probe sequence\<close>

text \<open>\<open>slot s k\<close> is the \<open>k\<close>th entry looked at for stream \<open>s\<close>.\<close>

definition slot :: "u16 \<Rightarrow> nat \<Rightarrow> nat" where
  "slot s k = (home s + k) mod HASHMAP_AMOUNT"

definition holds :: "'a hashmap_entry \<Rightarrow> u16 \<Rightarrow> bool" where
  "holds e s \<longleftrightarrow> entry_type e = HASHMAP_STATE_FILLED \<and> he_stream_id e = s"

lemma slot_less [simp]: "slot s k < HASHMAP_AMOUNT" by (simp add: slot_def HASHMAP_AMOUNT_def)
lemma slot_0 [simp]: "slot s 0 = home s" by (simp add: slot_def home_def)

lemma slot_Suc: "Suc (slot s k) mod HASHMAP_AMOUNT = slot s (Suc k)"
  by (simp add: slot_def mod_Suc_eq)

lemma slot_inj: "slot s i = slot s j \<Longrightarrow> i < HASHMAP_AMOUNT \<Longrightarrow> j < HASHMAP_AMOUNT \<Longrightarrow> i = j"
  unfolding slot_def by (rule ring_index_inj)

lemma slot_home: "k < HASHMAP_AMOUNT \<Longrightarrow> slot s (Suc k) = home s \<longleftrightarrow> Suc k = HASHMAP_AMOUNT"
proof
  assume "k < HASHMAP_AMOUNT" "slot s (Suc k) = home s"
  then show "Suc k = HASHMAP_AMOUNT"
    using slot_inj [of s "Suc k" 0] by (cases "Suc k = HASHMAP_AMOUNT") auto
qed (simp add: slot_def home_def)

lemma slot_surj:
  assumes "i < HASHMAP_AMOUNT"
  obtains k where "k < HASHMAP_AMOUNT" "slot s k = i"
proof -
  have "home s < HASHMAP_AMOUNT" by (simp add: home_def HASHMAP_AMOUNT_def)
  then have "(i + HASHMAP_AMOUNT - home s) mod HASHMAP_AMOUNT < HASHMAP_AMOUNT"
    "slot s ((i + HASHMAP_AMOUNT - home s) mod HASHMAP_AMOUNT) = i"
    using assms by (simp_all add: slot_def mod_add_right_eq HASHMAP_AMOUNT_def)
  then show ?thesis by (rule that)
qed

text \<open>
  The loops as searches for the first slot of the sequence at which they stop: \<open>Q\<close> holds there,
  and \<open>R\<close> of all slots before.
\<close>

definition first_from :: "nat \<Rightarrow> (nat \<Rightarrow> bool) \<Rightarrow> (nat \<Rightarrow> bool) \<Rightarrow> nat \<Rightarrow> bool" where
  "first_from k Q R n \<longleftrightarrow> k \<le> n \<and> n < HASHMAP_AMOUNT \<and> Q n \<and> (\<forall>j. k \<le> j \<and> j < n \<longrightarrow> R j)"

lemma first_from_step:
  assumes "k < HASHMAP_AMOUNT"
  shows "first_from k Q R n \<longleftrightarrow> n = k \<and> Q k \<or> R k \<and> first_from (Suc k) Q R n"
proof
  assume a: "first_from k Q R n"
  show "n = k \<and> Q k \<or> R k \<and> first_from (Suc k) Q R n"
    using a by (cases "n = k") (auto simp: first_from_def)
next
  assume a: "n = k \<and> Q k \<or> R k \<and> first_from (Suc k) Q R n"
  have "k \<le> j \<longleftrightarrow> j = k \<or> Suc k \<le> j" for j by auto
  then show "first_from k Q R n" using a assms by (auto simp: first_from_def)
qed

lemma first_from_end: "\<not> first_from HASHMAP_AMOUNT Q R n"
  by (auto simp: first_from_def)

abbreviation match_at :: "'a hashmap \<Rightarrow> u16 \<Rightarrow> nat \<Rightarrow> bool" where
  "match_at m s n \<equiv> holds (m ! slot s n) s"

abbreviation passable :: "'a hashmap \<Rightarrow> u16 \<Rightarrow> nat \<Rightarrow> bool" where
  "passable m s n \<equiv> entry_type (m ! slot s n) \<noteq> HASHMAP_STATE_EMPTY \<and> \<not> match_at m s n"

abbreviation free_at :: "'a hashmap \<Rightarrow> u16 \<Rightarrow> nat \<Rightarrow> bool" where
  "free_at m s n \<equiv> entry_type (m ! slot s n) \<noteq> HASHMAP_STATE_FILLED"

abbreviation taken_at :: "'a hashmap \<Rightarrow> u16 \<Rightarrow> nat \<Rightarrow> bool" where
  "taken_at m s n \<equiv> entry_type (m ! slot s n) = HASHMAP_STATE_FILLED \<and> \<not> match_at m s n"

lemma find_probe_from:
  "k < HASHMAP_AMOUNT \<Longrightarrow> find_probe m s (slot s k) = Some i \<longleftrightarrow>
     (\<exists>n. i = slot s n \<and> first_from k (match_at m s) (passable m s) n)"
proof (induction "HASHMAP_AMOUNT - k" arbitrary: k)
  case 0
  then show ?case by simp
next
  case (Suc x)
  note step = first_from_step [OF Suc.prems]
  have next_slot: "(if slot s (Suc k) = home s then None else find_probe m s (slot s (Suc k))) = Some i \<longleftrightarrow>
      (\<exists>n. i = slot s n \<and> first_from (Suc k) (match_at m s) (passable m s) n)"
    using Suc.hyps(1) [of "Suc k"] Suc.hyps(2) Suc.prems slot_home [OF Suc.prems, of s]
    by (cases "Suc k = HASHMAP_AMOUNT") (auto simp: first_from_end)
  show ?case
    using next_slot unfolding step
    by (subst find_probe.simps) (auto simp: Let_def slot_Suc holds_def)
qed

lemma insert_probe_from:
  "k < HASHMAP_AMOUNT \<Longrightarrow> insert_probe m s (slot s k) = Some i \<longleftrightarrow>
     (\<exists>n. i = slot s n \<and> first_from k (free_at m s) (taken_at m s) n)"
proof (induction "HASHMAP_AMOUNT - k" arbitrary: k)
  case 0
  then show ?case by simp
next
  case (Suc x)
  note step = first_from_step [OF Suc.prems]
  have next_slot: "(if slot s (Suc k) = home s then None else insert_probe m s (slot s (Suc k))) = Some i \<longleftrightarrow>
      (\<exists>n. i = slot s n \<and> first_from (Suc k) (free_at m s) (taken_at m s) n)"
    using Suc.hyps(1) [of "Suc k"] Suc.hyps(2) Suc.prems slot_home [OF Suc.prems, of s]
    by (cases "Suc k = HASHMAP_AMOUNT") (auto simp: first_from_end)
  show ?case
    using next_slot unfolding step
    by (subst insert_probe.simps) (auto simp: Let_def slot_Suc holds_def)
qed

lemma home_start: "0 < HASHMAP_AMOUNT" "slot s 0 = home s"
  by (simp_all add: HASHMAP_AMOUNT_def)

lemmas find_iff = find_probe_from [OF home_start(1), unfolded home_start(2)]
lemmas insert_iff = insert_probe_from [OF home_start(1), unfolded home_start(2)]

section \<open>The invariant\<close>

text \<open>
  Every filled entry can be reached from the home slot of its stream without crossing an empty
  one. The stronger \<open>unique\<close> says that no stream has two entries.
\<close>

definition map_ok :: "'a hashmap \<Rightarrow> bool" where
  "map_ok m \<longleftrightarrow> length m = HASHMAP_AMOUNT \<and>
     (\<forall>i < HASHMAP_AMOUNT. entry_type (m ! i) = HASHMAP_STATE_FILLED \<longrightarrow>
        (\<exists>n < HASHMAP_AMOUNT. i = slot (he_stream_id (m ! i)) n \<and>
           (\<forall>j < n. entry_type (m ! slot (he_stream_id (m ! i)) j) \<noteq> HASHMAP_STATE_EMPTY)))"

definition unique :: "'a hashmap \<Rightarrow> bool" where
  "unique m \<longleftrightarrow> (\<forall>s. \<forall>i < HASHMAP_AMOUNT. \<forall>j < HASHMAP_AMOUNT. holds (m ! i) s \<longrightarrow> holds (m ! j) s \<longrightarrow> i = j)"

lemma holds_updated [simp]:
  "holds \<lparr>entry_type = HASHMAP_STATE_FILLED, he_stream_id = s, he_data = v\<rparr> s' \<longleftrightarrow> s = s'"
  by (simp add: holds_def)

text \<open>A lookup finds an entry exactly when there is one.\<close>

lemma find_some:
  assumes "find_probe m s (home s) = Some i"
  shows "i < HASHMAP_AMOUNT" "holds (m ! i) s"
  using assms by (auto simp: find_iff first_from_def)

lemma find_complete:
  assumes "map_ok m" "i < HASHMAP_AMOUNT" "holds (m ! i) s"
  shows "find_probe m s (home s) \<noteq> None"
proof -
  obtain n where n: "n < HASHMAP_AMOUNT" "i = slot s n"
    "\<forall>j < n. entry_type (m ! slot s j) \<noteq> HASHMAP_STATE_EMPTY"
    using assms by (auto simp: map_ok_def holds_def)
  define k where "k = (LEAST k. match_at m s k)"
  have "match_at m s n" using n assms(3) by simp
  then have k: "match_at m s k" "k \<le> n" "\<forall>j < k. \<not> match_at m s j"
    unfolding k_def by (rule LeastI, rule Least_le, blast dest: not_less_Least)
  then have "first_from 0 (match_at m s) (passable m s) k"
    using n by (auto simp: first_from_def)
  then show ?thesis using find_iff [of m s "slot s k"] by auto
qed

lemma find_none_iff:
  "map_ok m \<Longrightarrow> find_probe m s (home s) = None \<longleftrightarrow> (\<forall>i < HASHMAP_AMOUNT. \<not> holds (m ! i) s)"
  using find_complete find_some by (metis not_None_eq)

text \<open>The slot an insertion takes, and when there is none.\<close>

lemma insert_some:
  assumes "insert_probe m s (home s) = Some i"
  obtains n where "i = slot s n" "n < HASHMAP_AMOUNT" "entry_type (m ! i) \<noteq> HASHMAP_STATE_FILLED"
    "\<forall>j < n. taken_at m s j"
  using assms by (auto simp: insert_iff first_from_def)

lemma insert_none:
  assumes "insert_probe m s (home s) = None" "\<forall>i < HASHMAP_AMOUNT. \<not> holds (m ! i) s" "i < HASHMAP_AMOUNT"
  shows "entry_type (m ! i) = HASHMAP_STATE_FILLED"
proof (rule ccontr)
  assume free: "entry_type (m ! i) \<noteq> HASHMAP_STATE_FILLED"
  obtain n where n: "n < HASHMAP_AMOUNT" "slot s n = i" by (rule slot_surj [OF assms(3)])
  define k where "k = (LEAST k. free_at m s k)"
  have "free_at m s n" using n free by simp
  then have "free_at m s k" "k \<le> n" "\<forall>j < k. \<not> free_at m s j"
    unfolding k_def by (rule LeastI, rule Least_le, blast dest: not_less_Least)
  then have "first_from 0 (free_at m s) (taken_at m s) k"
    using n(1) assms(2) by (auto simp: first_from_def)
  then show False using assms(1) insert_iff [of m s "slot s k"] by auto
qed

section \<open>What the operations keep\<close>

lemma map_okD: "map_ok m \<Longrightarrow> length m = HASHMAP_AMOUNT" by (simp add: map_ok_def)

lemma map_ok_update:
  assumes "map_ok m" "i < HASHMAP_AMOUNT" "entry_type e \<noteq> HASHMAP_STATE_EMPTY"
    and "entry_type e = HASHMAP_STATE_FILLED \<Longrightarrow> \<exists>n < HASHMAP_AMOUNT. i = slot (he_stream_id e) n \<and>
      (\<forall>j < n. entry_type (m ! slot (he_stream_id e) j) \<noteq> HASHMAP_STATE_EMPTY)"
  shows "map_ok (m[i := e])"
proof -
  have keep: "entry_type (m[i := e] ! k) \<noteq> HASHMAP_STATE_EMPTY"
    if "k < HASHMAP_AMOUNT" "entry_type (m ! k) \<noteq> HASHMAP_STATE_EMPTY" for k
    using that assms(1-3) by (cases "k = i") (simp_all add: map_okD)
  have "\<exists>n < HASHMAP_AMOUNT. k = slot (he_stream_id (m[i := e] ! k)) n \<and>
      (\<forall>j < n. entry_type (m[i := e] ! slot (he_stream_id (m[i := e] ! k)) j) \<noteq> HASHMAP_STATE_EMPTY)"
    if k: "k < HASHMAP_AMOUNT" "entry_type (m[i := e] ! k) = HASHMAP_STATE_FILLED" for k
  proof (cases "k = i")
    case True
    then have "m[i := e] ! k = e" using assms(1,2) by (simp add: map_okD)
    then show ?thesis using True assms(4) k(2) keep by (metis slot_less)
  next
    case False
    then have "m[i := e] ! k = m ! k" by simp
    then show ?thesis using assms(1) k keep unfolding map_ok_def by (metis slot_less)
  qed
  then show ?thesis using assms(1) by (simp add: map_ok_def)
qed

lemma find_update_other:
  assumes ok: "map_ok m" "map_ok (m[i := e])" and i: "i < HASHMAP_AMOUNT"
    and "\<not> holds (m ! i) s" "\<not> holds e s" "entry_type e \<noteq> HASHMAP_STATE_EMPTY"
  shows "find_probe (m[i := e]) s (home s) = find_probe m s (home s)"
proof -
  have at: "m[i := e] ! k = (if k = i then e else m ! k)" for k
    using ok(1) i by (simp add: map_okD)
  show ?thesis
  proof (cases "find_probe m s (home s)")
    case None
    then have "\<forall>k < HASHMAP_AMOUNT. \<not> holds (m ! k) s" by (simp add: find_none_iff [OF ok(1)])
    then have "\<forall>k < HASHMAP_AMOUNT. \<not> holds (m[i := e] ! k) s" using assms(5) by (simp add: at)
    then show ?thesis using None find_none_iff [OF ok(2), of s] by simp
  next
    case (Some j)
    then obtain n where "j = slot s n" and n: "first_from 0 (match_at m s) (passable m s) n"
      using find_iff by blast
    moreover have "first_from 0 (match_at (m[i := e]) s) (passable (m[i := e]) s) n"
      using n assms(4-6) by (auto simp: first_from_def at)
    ultimately show ?thesis using Some find_iff [of "m[i := e]" s j] by auto
  qed
qed

lemma insert_effect:
  assumes ok: "map_ok m" and p: "insert_probe m s (home s) = Some i"
    and e: "entry_type e = HASHMAP_STATE_FILLED" "he_stream_id e = s"
  shows "i < HASHMAP_AMOUNT" and "map_ok (m[i := e])" and "find_probe (m[i := e]) s (home s) = Some i"
    and "s' \<noteq> s \<Longrightarrow> find_probe (m[i := e]) s' (home s') = find_probe m s' (home s')"
proof -
  obtain n where n: "i = slot s n" "n < HASHMAP_AMOUNT" "entry_type (m ! i) \<noteq> HASHMAP_STATE_FILLED"
    "\<forall>j < n. taken_at m s j" by (rule insert_some [OF p])
  show i: "i < HASHMAP_AMOUNT" using n by simp
  show ok': "map_ok (m[i := e])"
    using n e by (intro map_ok_update ok i) (auto intro!: exI [of _ n])
  have "m[i := e] ! slot s j = m ! slot s j" if "j < n" for j
    using that n(1,2) slot_inj [of s j n] by (cases "slot s j = i") auto
  moreover have "m[i := e] ! slot s n = e" using n(1) i ok by (simp add: map_okD)
  ultimately have "first_from 0 (match_at (m[i := e]) s) (passable (m[i := e]) s) n"
    using n(2,4) e by (auto simp: first_from_def holds_def)
  then show "find_probe (m[i := e]) s (home s) = Some i" using n(1) find_iff by blast
  show "find_probe (m[i := e]) s' (home s') = find_probe m s' (home s')" if "s' \<noteq> s"
    using that n(3) e by (intro find_update_other ok ok' i) (auto simp: holds_def)
qed

lemma insert_unique:
  assumes ok: "map_ok m" and u: "unique m" and f: "find_probe m s (home s) = None"
    and p: "insert_probe m s (home s) = Some i"
    and e: "entry_type e = HASHMAP_STATE_FILLED" "he_stream_id e = s"
  shows "unique (m[i := e])"
proof -
  have "\<forall>k < HASHMAP_AMOUNT. \<not> holds (m ! k) s" using f ok by (simp add: find_none_iff)
  then show ?thesis
    using u e insert_effect(1) [OF ok p e] ok
    by (auto simp: unique_def nth_list_update map_okD holds_def)
qed

lemma remove_effect:
  assumes ok: "map_ok m" and p: "find_probe m s (home s) = Some i"
    and e: "entry_type e = HASHMAP_STATE_DELETED"
  shows "i < HASHMAP_AMOUNT" and "map_ok (m[i := e])"
    and "unique m \<Longrightarrow> find_probe (m[i := e]) s (home s) = None"
    and "s' \<noteq> s \<Longrightarrow> find_probe (m[i := e]) s' (home s') = find_probe m s' (home s')"
    and "unique m \<Longrightarrow> unique (m[i := e])"
proof -
  note i = find_some [OF p]
  show "i < HASHMAP_AMOUNT" by (rule i)
  show ok': "map_ok (m[i := e])" using e by (intro map_ok_update ok i) simp_all
  have none: "\<not> holds e t" for t using e by (simp add: holds_def)
  show "find_probe (m[i := e]) s (home s) = None" if "unique m"
    using that i none ok ok' by (auto simp: find_none_iff nth_list_update map_okD unique_def)
  show "find_probe (m[i := e]) s' (home s') = find_probe m s' (home s')" if "s' \<noteq> s"
    using that i e none by (intro find_update_other ok ok' i) (auto simp: holds_def)
  show "unique (m[i := e])" if "unique m"
    using that i none ok unfolding unique_def
    by (metis map_okD nth_list_update_eq nth_list_update_neq)
qed

lemma init_nth:
  assumes "length m = HASHMAP_AMOUNT"
  shows "length (socket_hashmap_init m) = HASHMAP_AMOUNT"
    and "i < HASHMAP_AMOUNT \<Longrightarrow> entry_type (socket_hashmap_init m ! i) = HASHMAP_STATE_EMPTY"
  using fold_update_map [of HASHMAP_AMOUNT m "\<lambda>i e. e\<lparr>entry_type := HASHMAP_STATE_EMPTY\<rparr>"] assms
  by (simp_all add: socket_hashmap_init_def)

lemma init_ok:
  assumes "length m = HASHMAP_AMOUNT"
  shows "map_ok (socket_hashmap_init m)" "unique (socket_hashmap_init m)"
    "find_probe (socket_hashmap_init m) s (home s) = None"
proof -
  show "map_ok (socket_hashmap_init m)" "unique (socket_hashmap_init m)"
    using init_nth [OF assms] by (auto simp: map_ok_def unique_def holds_def)
  then show "find_probe (socket_hashmap_init m) s (home s) = None"
    using init_nth [OF assms] by (auto simp: find_none_iff holds_def)
qed

section \<open>The map as a store\<close>

text \<open>The interface the sessions use: the data of a stream, a bounded number of streams.\<close>

definition map_lookup :: "'a hashmap \<Rightarrow> u16 \<Rightarrow> 'a option" where
  "map_lookup m s = map_option (\<lambda>i. he_data (m ! i)) (socket_hashmap_find m s)"

definition map_insert :: "'a hashmap \<Rightarrow> u16 \<Rightarrow> 'a \<Rightarrow> 'a hashmap option" where
  "map_insert m s v = (case socket_hashmap_insert m s v of (None, m) \<Rightarrow> None | (Some i, m) \<Rightarrow> Some m)"

definition map_remove :: "'a hashmap \<Rightarrow> u16 \<Rightarrow> 'a hashmap" where
  "map_remove m s = snd (socket_hashmap_remove m s)"

datatype 'v store_op = Open u16 'v | Close u16

fun store_run :: "('m \<Rightarrow> u16 \<Rightarrow> 'v \<Rightarrow> 'm option) \<Rightarrow> ('m \<Rightarrow> u16 \<Rightarrow> 'm) \<Rightarrow> 'm \<Rightarrow> 'v store_op list \<Rightarrow> 'm option" where
  "store_run ins del m [] = Some m"
| "store_run ins del m (Open s v # ops) = Option.bind (ins m s v) (\<lambda>m. store_run ins del m ops)"
| "store_run ins del m (Close s # ops) = store_run ins del (del m s) ops"

text \<open>The same operations on a finite map; opening an open stream, or one more than \<open>cap\<close>, fails.\<close>

fun finite_run :: "nat \<Rightarrow> (u16 \<Rightarrow> 'v option) \<Rightarrow> 'v store_op list \<Rightarrow> (u16 \<Rightarrow> 'v option) option" where
  "finite_run cap f [] = Some f"
| "finite_run cap f (Open s v # ops) =
     (if s \<in> dom f \<or> cap \<le> card (dom f) then None else finite_run cap (f(s \<mapsto> v)) ops)"
| "finite_run cap f (Close s # ops) = finite_run cap (f(s := None)) ops"

locale bounded_store =
  fixes ok :: "'m \<Rightarrow> bool" and lookup :: "'m \<Rightarrow> u16 \<Rightarrow> 'v option"
    and ins :: "'m \<Rightarrow> u16 \<Rightarrow> 'v \<Rightarrow> 'm option" and del :: "'m \<Rightarrow> u16 \<Rightarrow> 'm" and cap :: nat
  assumes ins_law: "ok m \<Longrightarrow> lookup m s = None \<Longrightarrow> card (dom (lookup m)) < cap \<Longrightarrow>
      \<exists>m'. ins m s v = Some m' \<and> ok m' \<and> lookup m' = (lookup m)(s \<mapsto> v)"
    and del_law: "ok m \<Longrightarrow> ok (del m s) \<and> lookup (del m s) = (lookup m)(s := None)"
begin

lemma run_refines:
  "ok m \<Longrightarrow> finite_run cap (lookup m) ops = Some f \<Longrightarrow>
   \<exists>m'. store_run ins del m ops = Some m' \<and> ok m' \<and> lookup m' = f"
proof (induction ops arbitrary: m)
  case Nil
  then show ?case by simp
next
  case (Cons x ops)
  show ?case
  proof (cases x)
    case (Open s v)
    then obtain m1 where "ins m s v = Some m1" "ok m1" "lookup m1 = (lookup m)(s \<mapsto> v)"
      using ins_law [of m s v] Cons.prems by (auto split: if_splits)
    moreover from Open Cons.prems have "finite_run cap ((lookup m)(s \<mapsto> v)) ops = Some f"
      by (auto split: if_splits)
    ultimately have "\<exists>m'. store_run ins del m1 ops = Some m' \<and> ok m' \<and> lookup m' = f"
      by (intro Cons.IH) (assumption, simp only:)
    then show ?thesis using Open \<open>ins m s v = Some m1\<close> by simp
  next
    case (Close s)
    have "ok (del m s)" "lookup (del m s) = (lookup m)(s := None)" using del_law Cons.prems by auto
    moreover from Close Cons.prems have "finite_run cap ((lookup m)(s := None)) ops = Some f" by simp
    ultimately have "\<exists>m'. store_run ins del (del m s) ops = Some m' \<and> ok m' \<and> lookup m' = f"
      by (intro Cons.IH) (assumption, simp only:)
    then show ?thesis using Close by simp
  qed
qed

end

lemma filled_count:
  assumes "map_ok m" "unique m" "card (dom (map_lookup m)) < HASHMAP_AMOUNT"
  obtains i where "i < HASHMAP_AMOUNT" "entry_type (m ! i) \<noteq> HASHMAP_STATE_FILLED"
proof (rule ccontr)
  assume "\<not> thesis"
  then have all: "\<forall>i < HASHMAP_AMOUNT. entry_type (m ! i) = HASHMAP_STATE_FILLED" using that by blast
  have "inj_on (\<lambda>i. he_stream_id (m ! i)) {..<HASHMAP_AMOUNT}"
    using assms(2) all by (auto simp: inj_on_def unique_def holds_def)
  then have "card ((\<lambda>i. he_stream_id (m ! i)) ` {..<HASHMAP_AMOUNT}) = HASHMAP_AMOUNT"
    by (simp add: card_image)
  moreover have "(\<lambda>i. he_stream_id (m ! i)) ` {..<HASHMAP_AMOUNT} \<subseteq> dom (map_lookup m)"
    using all find_complete [OF assms(1)]
    by (auto simp: map_lookup_def socket_hashmap_find_def holds_def)
  then have "card ((\<lambda>i. he_stream_id (m ! i)) ` {..<HASHMAP_AMOUNT}) \<le> card (dom (map_lookup m))"
    by (intro card_mono) simp_all
  ultimately show False using assms(3) by simp
qed

lemma filled_entry: "(e :: 'a hashmap_entry)\<lparr>entry_type := t, he_stream_id := s, he_data := v\<rparr> =
    \<lparr>entry_type = t, he_stream_id = s, he_data = v\<rparr>"
  by (cases e) simp

lemma map_insert_law:
  assumes ok: "map_ok m" "unique m" and f: "map_lookup m s = None"
    and c: "card (dom (map_lookup m)) < HASHMAP_AMOUNT"
  shows "\<exists>m'. map_insert m s v = Some m' \<and> (map_ok m' \<and> unique m') \<and>
    map_lookup m' = (map_lookup m)(s \<mapsto> v)"
proof -
  have n: "find_probe m s (home s) = None" using f by (simp add: map_lookup_def socket_hashmap_find_def)
  obtain k where "k < HASHMAP_AMOUNT" "entry_type (m ! k) \<noteq> HASHMAP_STATE_FILLED"
    by (rule filled_count [OF ok c])
  then obtain i where p: "insert_probe m s (home s) = Some i"
    using insert_none [of m s k] n ok(1) by (cases "insert_probe m s (home s)") (auto simp: find_none_iff)
  define e where "e = \<lparr>entry_type = HASHMAP_STATE_FILLED, he_stream_id = s, he_data = v\<rparr>"
  have e: "entry_type e = HASHMAP_STATE_FILLED" "he_stream_id e = s" "he_data e = v" by (simp_all add: e_def)
  note eff = insert_effect [OF ok(1) p e(1,2)]
  have m': "map_insert m s v = Some (m[i := e])"
    by (simp add: map_insert_def socket_hashmap_insert_def p filled_entry e_def)
  have "map_lookup (m[i := e]) t = ((map_lookup m)(s \<mapsto> v)) t" for t
  proof (cases "t = s")
    case True
    then show ?thesis using eff(1,3) ok(1) e(3) by (simp add: map_lookup_def socket_hashmap_find_def map_okD)
  next
    case False
    have "j \<noteq> i" if "find_probe m t (home t) = Some j" for j
      using find_some [OF that] insert_some [OF p] by (metis holds_def)
    then show ?thesis using eff(4) [OF False] False
      by (cases "find_probe m t (home t)") (auto simp: map_lookup_def socket_hashmap_find_def)
  qed
  then show ?thesis using m' eff(2) insert_unique [OF ok n p e(1,2)] by blast
qed

lemma map_remove_law:
  assumes ok: "map_ok m" "unique m"
  shows "(map_ok (map_remove m s) \<and> unique (map_remove m s)) \<and>
    map_lookup (map_remove m s) = (map_lookup m)(s := None)"
proof (cases "find_probe m s (home s)")
  case None
  then show ?thesis using ok
    by (auto simp: map_remove_def socket_hashmap_remove_def map_lookup_def socket_hashmap_find_def)
next
  case (Some i)
  define e where "e = (m ! i)\<lparr>entry_type := HASHMAP_STATE_DELETED\<rparr>"
  have e: "entry_type e = HASHMAP_STATE_DELETED" by (simp add: e_def)
  note eff = remove_effect [OF ok(1) Some e]
  have m': "map_remove m s = m[i := e]"
    by (simp add: map_remove_def socket_hashmap_remove_def Some e_def)
  have "map_lookup (m[i := e]) t = ((map_lookup m)(s := None)) t" for t
  proof (cases "t = s")
    case True
    then show ?thesis using eff(3) ok(2) by (simp add: map_lookup_def socket_hashmap_find_def)
  next
    case False
    have "j \<noteq> i" if "find_probe m t (home t) = Some j" for j
      using find_some [OF that] find_some [OF Some] False by (auto simp: holds_def)
    then show ?thesis using eff(4) [OF False] False
      by (cases "find_probe m t (home t)") (auto simp: map_lookup_def socket_hashmap_find_def)
  qed
  then show ?thesis using m' eff(2,5) ok(2) by (auto simp: fun_eq_iff)
qed

interpretation streams: bounded_store
  "\<lambda>m. map_ok m \<and> unique m" map_lookup map_insert map_remove HASHMAP_AMOUNT
  by unfold_locales (blast intro: map_insert_law, blast dest: map_remove_law)

section \<open>Choosing a stream id\<close>

lemma gen_stream_id_free:
  "gen_stream_id m c = Some r \<Longrightarrow> entry_type (m ! (unat r mod HASHMAP_AMOUNT)) \<noteq> HASHMAP_STATE_FILLED"
  by (rule gen_stream_id.raw_induct
      [where P = "\<lambda>m c r. entry_type (m ! (unat r mod HASHMAP_AMOUNT)) \<noteq> HASHMAP_STATE_FILLED"])
     (auto split: if_splits)

lemma gen_stream_id_ends:
  "entry_type (m ! (unat (c + word_of_nat d) mod HASHMAP_AMOUNT)) \<noteq> HASHMAP_STATE_FILLED \<Longrightarrow>
   \<exists>r. gen_stream_id m c = Some r"
proof (induction d arbitrary: c)
  case 0
  then show ?case by (subst gen_stream_id.simps) simp
next
  case (Suc d)
  have "\<exists>r. gen_stream_id m (c + 1) = Some r" using Suc by (intro Suc.IH) (simp add: add.assoc)
  then show ?case by (subst gen_stream_id.simps) simp
qed

text \<open>In the client every entry is at its home slot.\<close>

definition at_home :: "'a hashmap \<Rightarrow> bool" where
  "at_home m \<longleftrightarrow> length m = HASHMAP_AMOUNT \<and>
     (\<forall>i < HASHMAP_AMOUNT. entry_type (m ! i) = HASHMAP_STATE_FILLED \<longrightarrow> home (he_stream_id (m ! i)) = i)"

lemma at_home_ok: assumes "at_home m" shows "map_ok m" "unique m"
proof -
  have p: "0 < HASHMAP_AMOUNT" by (simp add: HASHMAP_AMOUNT_def)
  show "map_ok m" using assms p unfolding map_ok_def at_home_def by (metis not_less0 slot_0)
  show "unique m" using assms unfolding unique_def at_home_def holds_def by metis
qed

lemma at_home_update:
  assumes "at_home m" "entry_type e = HASHMAP_STATE_FILLED \<Longrightarrow> home (he_stream_id e) = i"
  shows "at_home (m[i := e])"
proof -
  have at: "m[i := e] ! k = (if k = i then e else m ! k)" if "k < HASHMAP_AMOUNT" for k
    using assms(1) that by (cases "k = i") (simp_all add: at_home_def)
  show ?thesis using assms by (auto simp: at_home_def at)
qed

lemma home_ucast: "home (ucast (r :: u32)) = unat r mod HASHMAP_AMOUNT"
proof -
  have "unat (ucast r :: u16) = unat r mod 65536"
    by (simp add: unsigned_ucast_eq take_bit_eq_mod)
  then show ?thesis by (simp add: home_def HASHMAP_AMOUNT_def mod_mod_cancel)
qed

lemma at_home_insert:
  assumes "at_home m" "gen_stream_id m c = Some r" "stream_hashmap_insert alloc_ok m (ucast r) = Some (e, m')"
  shows "at_home m'"
proof -
  have "entry_type (m ! home (ucast r)) \<noteq> HASHMAP_STATE_FILLED"
    using gen_stream_id_free [OF assms(2)] by (simp add: home_ucast)
  then have p: "insert_probe m (ucast r) (home (ucast r)) = Some (home (ucast r))" by (subst insert_probe.simps) simp
  then obtain buf where "m' = m[home (ucast r) :=
      \<lparr>entry_type = HASHMAP_STATE_FILLED, he_stream_id = ucast r, he_data = buf\<rparr>]"
    using assms(3) by (auto simp: stream_hashmap_insert_def filled_entry split: Option.bind_splits)
  then show ?thesis by (simp add: at_home_update [OF assms(1)])
qed

lemma at_home_remove: "at_home m \<Longrightarrow> at_home (fst (snd (stream_hashmap_remove m s)))"
  by (auto simp: stream_hashmap_remove_def intro: at_home_update split: option.splits)

section \<open>Properties\<close>

text \<open>A successful insertion stores the entry where the next lookup of that stream finds it, and no
  lookup of another stream changes, in every map whose entries are reachable, with tombstones,
  collisions and even duplicates in it.\<close>

theorem hashmap_insert_find:
  assumes "map_ok m" "socket_hashmap_insert m s v = (Some i, m')"
  shows "map_ok m' \<and> socket_hashmap_find m' s = Some i \<and> he_data (m' ! i) = v \<and>
    (\<forall>t. t \<noteq> s \<longrightarrow> socket_hashmap_find m' t = socket_hashmap_find m t)"
proof -
  obtain p: "insert_probe m s (home s) = Some i"
    and m': "m' = m[i := \<lparr>entry_type = HASHMAP_STATE_FILLED, he_stream_id = s, he_data = v\<rparr>]"
    using assms(2) by (auto simp: socket_hashmap_insert_def filled_entry split: option.splits)
  show ?thesis
    using insert_effect [OF assms(1) p, of "\<lparr>entry_type = HASHMAP_STATE_FILLED, he_stream_id = s, he_data = v\<rparr>"]
      assms(1)
    by (simp add: m' socket_hashmap_find_def map_okD)
qed

definition blank_map :: "int hashmap" where
  "blank_map = replicate HASHMAP_AMOUNT \<lparr>entry_type = HASHMAP_STATE_EMPTY, he_stream_id = 0, he_data = 0\<rparr>"

lemma blank_map: "map_ok blank_map" "unique blank_map" "at_home blank_map" "length blank_map = HASHMAP_AMOUNT"
  "i < HASHMAP_AMOUNT \<Longrightarrow> entry_type (blank_map ! i) = HASHMAP_STATE_EMPTY"
  by (auto simp: map_ok_def unique_def at_home_def holds_def blank_map_def)

lemma home_example: "home 5 = 5" "home 0 = 0" "home 2048 = 0"
  by (simp_all add: home_def HASHMAP_AMOUNT_def)

lemma blank_insert: "socket_hashmap_insert blank_map 5 42 =
  (Some 5, blank_map[5 := \<lparr>entry_type = HASHMAP_STATE_FILLED, he_stream_id = 5, he_data = 42\<rparr>])"
  by (simp add: socket_hashmap_insert_def insert_probe.simps [of blank_map] blank_map filled_entry
      home_example HASHMAP_AMOUNT_def)

lemma hashmap_insert_find_witness:
  "socket_hashmap_find (snd (socket_hashmap_insert blank_map 5 42)) 5 = Some 5"
  using hashmap_insert_find [OF blank_map(1) blank_insert] by (simp add: blank_insert)

text \<open>Inserting a stream that is not in the map fails only when all 2048 entries are filled.\<close>

theorem hashmap_insert_full:
  assumes "map_ok m" "socket_hashmap_find m s = None"
  shows "fst (socket_hashmap_insert m s v) = None \<longleftrightarrow>
    (\<forall>i < HASHMAP_AMOUNT. entry_type (m ! i) = HASHMAP_STATE_FILLED)"
proof -
  have none: "\<forall>i < HASHMAP_AMOUNT. \<not> holds (m ! i) s"
    using assms by (simp add: socket_hashmap_find_def find_none_iff)
  have "insert_probe m s (home s) = None \<longleftrightarrow> (\<forall>i < HASHMAP_AMOUNT. entry_type (m ! i) = HASHMAP_STATE_FILLED)"
    using insert_none [OF _ none] insert_some by (metis not_None_eq slot_less)
  then show ?thesis by (auto simp: socket_hashmap_insert_def split: option.splits)
qed

lemma hashmap_insert_full_witness:
  "socket_hashmap_find blank_map 9 = None \<and> fst (socket_hashmap_insert blank_map 9 1) \<noteq> None"
proof -
  have f: "socket_hashmap_find blank_map 9 = None"
    using blank_map by (auto simp: socket_hashmap_find_def find_none_iff holds_def)
  then show ?thesis
    using hashmap_insert_full [OF blank_map(1) f, of 1] blank_map(5) [of 0] by (auto simp: HASHMAP_AMOUNT_def)
qed

text \<open>Removing a stream: the result says whether it was there, no other lookup changes, and when no
  stream has two entries the stream is gone.\<close>

theorem hashmap_remove_find:
  assumes "map_ok m" "unique m" "socket_hashmap_remove m s = (r, m')"
  shows "map_ok m' \<and> unique m' \<and> (r \<longleftrightarrow> socket_hashmap_find m s \<noteq> None) \<and>
    socket_hashmap_find m' s = None \<and>
    (\<forall>t. t \<noteq> s \<longrightarrow> socket_hashmap_find m' t = socket_hashmap_find m t)"
proof (cases "find_probe m s (home s)")
  case None
  then show ?thesis using assms by (auto simp: socket_hashmap_remove_def socket_hashmap_find_def)
next
  case (Some i)
  then show ?thesis
    using remove_effect [OF assms(1) Some, of "(m ! i)\<lparr>entry_type := HASHMAP_STATE_DELETED\<rparr>"] assms
    by (auto simp: socket_hashmap_remove_def socket_hashmap_find_def)
qed

lemma hashmap_remove_find_witness: "socket_hashmap_find (snd (socket_hashmap_remove blank_map 5)) 5 = None"
  using hashmap_remove_find [OF blank_map(1,2) surjective_pairing, of 5] by simp



text \<open>The insertion stops at the first tombstone without looking on for the stream, so it can give a
  stream a second entry: after opening streams 0 and 2048 (same home slot), closing 0 and opening
  2048 again, which succeeds although 2048 is open, closing 2048 leaves the older entry
  behind and the stream is still found.\<close>

theorem hashmap_duplicate_survives:
  fixes m :: "'a hashmap"
  assumes "length m = HASHMAP_AMOUNT"
  shows "let m1 = snd (socket_hashmap_insert (socket_hashmap_init m) 0 a);
             m2 = snd (socket_hashmap_insert m1 2048 b);
             m3 = snd (socket_hashmap_remove m2 0);
             (opened, m4) = socket_hashmap_insert m3 2048 c;
             (closed, m5) = socket_hashmap_remove m4 2048
         in socket_hashmap_find m3 2048 = Some 1 \<and> opened = Some 0 \<and> closed \<and>
            socket_hashmap_find m5 2048 = Some 1 \<and> he_data (m5 ! 1) = b"
  using init_nth [OF assms]
  by (simp add: Let_def socket_hashmap_insert_def socket_hashmap_remove_def socket_hashmap_find_def
      insert_probe.simps find_probe.simps home_example HASHMAP_AMOUNT_def filled_entry nth_list_update
      split: prod.splits)

lemma hashmap_duplicate_survives_witness:
  "let m1 = snd (socket_hashmap_insert (socket_hashmap_init blank_map) 0 1);
       m2 = snd (socket_hashmap_insert m1 2048 2);
       m3 = snd (socket_hashmap_remove m2 0);
       (opened, m4) = socket_hashmap_insert m3 2048 3;
       (closed, m5) = socket_hashmap_remove m4 2048
   in socket_hashmap_find m3 2048 = Some 1 \<and> opened = Some 0 \<and> closed \<and>
      socket_hashmap_find m5 2048 = Some 1 \<and> he_data (m5 ! 1) = 2"
  by (rule hashmap_duplicate_survives [OF blank_map(4)])

text \<open>\<open>gen_stream_id\<close> returns an id whose home slot is not filled whenever some entry of the map is
  not filled, from every counter value, past the wrap-around of the counter; when all 2048
  entries are filled it never returns.\<close>

theorem gen_stream_id_total:
  "if \<exists>i < HASHMAP_AMOUNT. entry_type (m ! i) \<noteq> HASHMAP_STATE_FILLED
   then \<exists>r. gen_stream_id m c = Some r \<and>
          entry_type (m ! (unat r mod HASHMAP_AMOUNT)) \<noteq> HASHMAP_STATE_FILLED
   else gen_stream_id m c = None"
proof (cases "\<exists>i < HASHMAP_AMOUNT. entry_type (m ! i) \<noteq> HASHMAP_STATE_FILLED")
  case True
  then obtain i where i: "i < 2048" "entry_type (m ! i) \<noteq> HASHMAP_STATE_FILLED"
    by (auto simp: HASHMAP_AMOUNT_def)
  then have "unat (c + (word_of_nat i - c)) mod 2048 = i"
    by (simp add: unsigned_of_nat take_bit_eq_mod)
  moreover have "word_of_nat i - c = word_of_nat (unat (word_of_nat i - c))" by simp
  ultimately have "unat (c + word_of_nat (unat (word_of_nat i - c))) mod 2048 = i" by metis
  then show ?thesis
    using True i gen_stream_id_ends [of m c "unat (word_of_nat i - c)"] gen_stream_id_free [of m c]
    by (auto simp: HASHMAP_AMOUNT_def)
next
  case False
  have "unat r mod HASHMAP_AMOUNT < HASHMAP_AMOUNT" for r :: u32 by (simp add: HASHMAP_AMOUNT_def)
  then have "gen_stream_id m c = None"
    using False gen_stream_id_free [of m c] by (cases "gen_stream_id m c") blast+
  then show ?thesis using False by simp
qed

text \<open>In the client, where ids come from \<open>gen_stream_id\<close>, an insertion always succeeds, at the home
  slot of the id, which no open stream uses; every entry stays at its home slot, so lookups and
  removals never probe and no stream gets two entries.\<close>

theorem client_streams_at_home:
  assumes "at_home m" "gen_stream_id m c = Some r" "alloc_ok INITIAL_BUFFER_CAPACITY"
  shows "socket_hashmap_find m (ucast r) = None \<and>
    (\<exists>m'. stream_hashmap_insert alloc_ok m (ucast r) = Some (Some (home (ucast r)), m') \<and>
      at_home m' \<and> socket_hashmap_find m' (ucast r) = Some (home (ucast r)) \<and>
      at_home (fst (snd (stream_hashmap_remove m' s))))"
proof -
  let ?s = "ucast r :: u16"
  obtain buf where buf: "init_stream_buffer alloc_ok = Some buf" by (rule init_ring [where alloc_ok = alloc_ok, OF assms(3)])
  define e where "e = \<lparr>entry_type = HASHMAP_STATE_FILLED, he_stream_id = ?s, he_data = buf\<rparr>"
  have free: "entry_type (m ! home ?s) \<noteq> HASHMAP_STATE_FILLED"
    using gen_stream_id_free [OF assms(2)] by (simp add: home_ucast)
  then have p: "insert_probe m ?s (home ?s) = Some (home ?s)" by (subst insert_probe.simps) simp
  have none: "find_probe m ?s (home ?s) = None"
    using assms(1) free at_home_ok(1) [OF assms(1)] by (auto simp: find_none_iff at_home_def holds_def)
  note eff = insert_effect [OF at_home_ok(1) [OF assms(1)] p, of e]
  have h': "at_home (m[home ?s := e])"
    by (rule at_home_update [OF assms(1)]) (simp add: e_def)
  then have "at_home (fst (snd (stream_hashmap_remove (m[home ?s := e]) s)))"
    by (rule at_home_remove)
  then show ?thesis
    using none eff h'
    by (simp add: stream_hashmap_insert_def p buf filled_entry e_def socket_hashmap_find_def)
qed

lemma client_streams_at_home_witness:
  "\<exists>m m' :: circular_buffer hashmap. at_home m \<and>
     stream_hashmap_insert (\<lambda>_. True) m (ucast (7 :: u32)) = Some (Some (home (ucast (7 :: u32))), m') \<and> at_home m'"
proof -
  define m :: "circular_buffer hashmap" where "m = replicate HASHMAP_AMOUNT
    \<lparr>entry_type = HASHMAP_STATE_EMPTY, he_stream_id = 0, he_data = \<lparr>cb_buffer = [], cb_head = 0, cb_tail = 0, cb_size = 0, cb_capacity = 0\<rparr>\<rparr>"
  have e: "entry_type (m ! i) \<noteq> HASHMAP_STATE_FILLED" if "i < HASHMAP_AMOUNT" for i
    using that by (simp add: m_def)
  then have h: "at_home m" by (simp add: at_home_def m_def)
  have g: "gen_stream_id m 7 = Some 7"
    using e [of 7] by (subst gen_stream_id.simps) (simp add: HASHMAP_AMOUNT_def)
  obtain m' where "stream_hashmap_insert (\<lambda>_. True) m (ucast (7 :: u32)) = Some (Some (home (ucast (7 :: u32))), m')"
    "at_home m'"
    using client_streams_at_home [OF h g, of "\<lambda>_. True"] by blast
  then show ?thesis using h by blast
qed

end
