(* ===== verification/Protocol.thy ===== *)
theory Protocol
  imports Prelude
begin

text \<open>
  The packed structures of the wire protocol (\<open>src/library/include/protocol\<close>): what a user and the
  directory server exchange (\<open>server_net_structs.h\<close>), the relay descriptors
  (\<open>relay_data_structs.h\<close>), and the 512-byte cells of a circuit (\<open>tor_structs.h\<close>). Integers are
  little-endian, as the program copies them from memory. A structure that the code copies whole is a
  record with its bytes (\<open>..._bytes\<close>) and the cast of a buffer to it (\<open>..._of\<close>); a cell, which the
  code edits in place through pointers, is its buffer with one reader and one writer per field.
\<close>

section \<open>Fields\<close>

definition le64 :: "bytes \<Rightarrow> u64" where
  "le64 b = ucast (le32 (b ! 0) (b ! 1) (b ! 2) (b ! 3)) OR
            push_bit 32 (ucast (le32 (b ! 4) (b ! 5) (b ! 6) (b ! 7)))"

definition le64_bytes :: "u64 \<Rightarrow> bytes" where
  "le64_bytes w = le32_bytes (ucast w) @ le32_bytes (ucast (drop_bit 32 w))"

definition get16 :: "nat \<Rightarrow> bytes \<Rightarrow> u16" where
  "get16 off b = le16 (b ! off) (b ! (off + 1))"

definition get32 :: "nat \<Rightarrow> bytes \<Rightarrow> u32" where
  "get32 off b = le32 (b ! off) (b ! (off + 1)) (b ! (off + 2)) (b ! (off + 3))"

definition get64 :: "nat \<Rightarrow> bytes \<Rightarrow> u64" where
  "get64 off b = le64 (drop off b)"

lemma length_le64_bytes [simp, len_simps]: "length (le64_bytes w) = 8"
  by (simp add: le64_bytes_def)

lemma list_nth4: "length xs = 4 \<Longrightarrow> xs = [xs ! 0, xs ! 1, xs ! 2, xs ! 3]"
  by (auto simp: numeral_eq_Suc length_Suc_conv_obtain)

lemma le64_roundtrip: "le64 (le64_bytes w @ rest) = w"
proof -
  have i: "(le64_bytes w @ rest) ! k = le32_bytes (ucast w) ! k"
    "(le64_bytes w @ rest) ! (4 + k) = le32_bytes (ucast (drop_bit 32 w)) ! k" if "k < 4" for k
    using that by (simp_all add: le64_bytes_def nth_append)
  have "le64 (le64_bytes w @ rest) = ucast (ucast w :: u32) OR push_bit 32 (ucast (ucast (drop_bit 32 w) :: u32))"
    using i [of 0] i [of 1] i [of 2] i [of 3] unfolding le64_def by (simp add: le32_roundtrip [simplified])
  also have "\<dots> = w"
    by (rule bit_word_eqI) (auto simp: bit_or_iff bit_push_bit_iff bit_ucast_iff bit_drop_bit_eq)
  finally show ?thesis .
qed

lemma get16_bytes [simp]: "off = length a \<Longrightarrow> get16 off (a @ le16_bytes w @ rest) = w"
  using le16_roundtrip [of w] by (simp add: get16_def nth_append)

lemma get32_bytes [simp]: "off = length a \<Longrightarrow> get32 off (a @ le32_bytes w @ rest) = w"
  using le32_roundtrip [of w] by (simp add: get32_def nth_append)

lemma get64_bytes [simp]: "off = length a \<Longrightarrow> get64 off (a @ le64_bytes w @ rest) = w"
  by (simp add: get64_def le64_roundtrip)

lemma slice_bytes [simp]: "off = length a \<Longrightarrow> n = length b \<Longrightarrow> slice off n (a @ b @ rest) = b"
  by (simp add: slice_def)

section \<open>Relay descriptors\<close>

record sock_addr =
  sa_family :: u8
  sa_protocol :: u8
  sa_addr :: bytes
  sa_port :: u16

record relay_descriptor =
  rd_sock_addr :: sock_addr
  rd_public_key :: bytes

record relay_data =
  rd_descriptor :: relay_descriptor
  rd_relay_id :: u32

definition sock_addr_bytes :: "sock_addr \<Rightarrow> bytes" where
  "sock_addr_bytes a = [sa_family a, sa_protocol a] @ sa_addr a @ le16_bytes (sa_port a)"

definition sock_addr_of :: "bytes \<Rightarrow> sock_addr" where
  "sock_addr_of b = \<lparr>sa_family = b ! 0, sa_protocol = b ! 1, sa_addr = slice 2 16 b, sa_port = get16 18 b\<rparr>"

definition descriptor_bytes :: "relay_descriptor \<Rightarrow> bytes" where
  "descriptor_bytes d = sock_addr_bytes (rd_sock_addr d) @ rd_public_key d"

definition descriptor_of :: "bytes \<Rightarrow> relay_descriptor" where
  "descriptor_of b = \<lparr>rd_sock_addr = sock_addr_of b, rd_public_key = slice 20 256 b\<rparr>"

text \<open>The sizes the C types have.\<close>

definition sock_addr_ok :: "sock_addr \<Rightarrow> bool" where
  "sock_addr_ok a \<longleftrightarrow> length (sa_addr a) = 16"

definition descriptor_ok :: "relay_descriptor \<Rightarrow> bool" where
  "descriptor_ok d \<longleftrightarrow> sock_addr_ok (rd_sock_addr d) \<and> length (rd_public_key d) = 256"

lemma length_sock_addr_bytes [simp, len_simps]: "sock_addr_ok a \<Longrightarrow> length (sock_addr_bytes a) = 20"
  by (simp add: sock_addr_bytes_def sock_addr_ok_def)

lemma length_descriptor_bytes [simp, len_simps]: "descriptor_ok d \<Longrightarrow> length (descriptor_bytes d) = 276"
  by (simp add: descriptor_bytes_def descriptor_ok_def)

lemma sock_addr_roundtrip [simp]:
  assumes "sock_addr_ok a" shows "sock_addr_of (sock_addr_bytes a @ rest) = a"
proof -
  have l: "length (sa_addr a) = 16" using assms by (simp add: sock_addr_ok_def)
  have "get16 18 (([sa_family a, sa_protocol a] @ sa_addr a) @ le16_bytes (sa_port a) @ rest) = sa_port a"
    by (rule get16_bytes) (simp add: l)
  moreover have "slice 2 16 ([sa_family a, sa_protocol a] @ sa_addr a @ (le16_bytes (sa_port a) @ rest)) = sa_addr a"
    by (rule slice_bytes) (simp_all add: l)
  ultimately show ?thesis by (simp add: sock_addr_of_def sock_addr_bytes_def)
qed

lemma descriptor_roundtrip [simp]:
  assumes "descriptor_ok d" shows "descriptor_of (descriptor_bytes d @ rest) = d"
proof -
  have "slice 20 256 (sock_addr_bytes (rd_sock_addr d) @ rd_public_key d @ rest) = rd_public_key d"
    by (rule slice_bytes) (use assms in \<open>simp_all add: descriptor_ok_def\<close>)
  then show ?thesis using assms by (simp add: descriptor_of_def descriptor_bytes_def descriptor_ok_def)
qed

section \<open>The directory server's messages\<close>

definition SERVER_MSG_SIZE :: nat where "SERVER_MSG_SIZE = 4096"
definition SERVER_HANDSHAKE_VERSION :: u16 where "SERVER_HANDSHAKE_VERSION = 1"
definition SERVER_HANDSHAKE_V1_MAGIC :: bytes where "SERVER_HANDSHAKE_V1_MAGIC = [77, 48, 82, 49]"

text \<open>The number of whole descriptors that fit beside two 16-bit fields.\<close>

definition SERVER_RELAYS_MAP_AMOUNT :: nat where
  "SERVER_RELAYS_MAP_AMOUNT = (SERVER_MSG_SIZE - 2 * 2) div 276"

definition prot_user_type_client :: u8 where "prot_user_type_client = 1"
definition prot_user_type_relay :: u8 where "prot_user_type_relay = 2"

definition RELAY_COMMAND_SIGNUP :: u16 where "RELAY_COMMAND_SIGNUP = 1"
definition RELAY_COMMAND_SIGNOUT :: u16 where "RELAY_COMMAND_SIGNOUT = 2"
definition RELAY_COMMAND_EXIT :: u16 where "RELAY_COMMAND_EXIT = 3"
definition CLIENT_COMMAND_GET_RELAY_MAP :: u16 where "CLIENT_COMMAND_GET_RELAY_MAP = 1"
definition CLIENT_COMMAND_EXIT :: u16 where "CLIENT_COMMAND_EXIT = 2"
definition server_response_success :: u32 where "server_response_success = 0"
definition server_response_base_error :: u32 where "server_response_base_error = 1"

record server_handshake_request =
  hr_version :: u16
  hr_user_type :: u8
  hr_flags :: u8

definition handshake_request_bytes :: "server_handshake_request \<Rightarrow> bytes" where
  "handshake_request_bytes r = le16_bytes (hr_version r) @ [hr_user_type r, hr_flags r]"

definition handshake_request_of :: "bytes \<Rightarrow> server_handshake_request" where
  "handshake_request_of b = \<lparr>hr_version = get16 0 b, hr_user_type = b ! 2, hr_flags = b ! 3\<rparr>"

record server_handshake_response =
  hs_g :: u64
  hs_p :: bytes
  hs_server_pubkey :: bytes

definition handshake_response_bytes :: "server_handshake_response \<Rightarrow> bytes" where
  "handshake_response_bytes r = le64_bytes (hs_g r) @ hs_p r @ hs_server_pubkey r"

definition handshake_response_of :: "bytes \<Rightarrow> server_handshake_response" where
  "handshake_response_of b =
     \<lparr>hs_g = get64 0 b, hs_p = slice 8 256 b, hs_server_pubkey = slice 264 256 b\<rparr>"

record server_handshake_confirmation =
  hc_magic :: bytes
  hc_assigned_id :: u32
  hc_timestamp :: u64

definition confirmation_bytes :: "server_handshake_confirmation \<Rightarrow> bytes" where
  "confirmation_bytes c = hc_magic c @ le32_bytes (hc_assigned_id c) @ le64_bytes (hc_timestamp c)"

definition confirmation_of :: "bytes \<Rightarrow> server_handshake_confirmation" where
  "confirmation_of b = \<lparr>hc_magic = slice 0 4 b, hc_assigned_id = get32 4 b, hc_timestamp = get64 8 b\<rparr>"

record server_response_base =
  rb_timestamp :: u64
  rb_response_code :: u32
  rb_command :: u16

definition response_base_bytes :: "server_response_base \<Rightarrow> bytes" where
  "response_base_bytes r = le64_bytes (rb_timestamp r) @ le32_bytes (rb_response_code r) @ le16_bytes (rb_command r)"

definition response_base_of :: "bytes \<Rightarrow> server_response_base" where
  "response_base_of b = \<lparr>rb_timestamp = get64 0 b, rb_response_code = get32 8 b, rb_command = get16 12 b\<rparr>"

definition signup_request_bytes :: "sock_addr \<Rightarrow> bytes" where
  "signup_request_bytes a = le16_bytes RELAY_COMMAND_SIGNUP @ sock_addr_bytes a"

definition signup_request_addr :: "bytes \<Rightarrow> sock_addr" where
  "signup_request_addr b = sock_addr_of (drop 2 b)"

definition signout_request_bytes :: "u32 \<Rightarrow> bytes" where
  "signout_request_bytes i = le16_bytes RELAY_COMMAND_SIGNOUT @ le32_bytes i"

definition signout_request_id :: "bytes \<Rightarrow> u32" where
  "signout_request_id b = get32 2 b"

definition signup_response_bytes :: "server_response_base \<Rightarrow> u64 \<Rightarrow> bytes" where
  "signup_response_bytes r i = response_base_bytes r @ le64_bytes i"

definition signup_response_id :: "bytes \<Rightarrow> u64" where
  "signup_response_id b = get64 14 b"

text \<open>The relay map: the number of relays, and the array of descriptors, always sent whole.\<close>

definition map_response_bytes :: "server_response_base \<Rightarrow> u16 \<Rightarrow> relay_descriptor list \<Rightarrow> bytes" where
  "map_response_bytes r n ds = response_base_bytes r @ le16_bytes n @ concat (map descriptor_bytes ds)"

definition map_response_amount :: "bytes \<Rightarrow> u16" where
  "map_response_amount b = get16 14 b"

definition map_response_relay :: "bytes \<Rightarrow> nat \<Rightarrow> relay_descriptor" where
  "map_response_relay b i = descriptor_of (drop (16 + i * 276) b)"

lemma length_message_bytes [simp, len_simps]:
  "length (handshake_request_bytes r) = 4"
  "length (response_base_bytes rb) = 14"
  "length (signup_response_bytes rb i) = 22"
  "length (signout_request_bytes j) = 6"
  "sock_addr_ok a \<Longrightarrow> length (signup_request_bytes a) = 22"
  by (simp_all add: handshake_request_bytes_def response_base_bytes_def signup_response_bytes_def
      signout_request_bytes_def signup_request_bytes_def)

text \<open>What one side writes the other reads, whatever follows in the buffer.\<close>

lemma handshake_request_roundtrip [simp]:
  "handshake_request_of (handshake_request_bytes r @ rest) = r"
  using get16_bytes [of 0 "[]" "hr_version r" "[hr_user_type r, hr_flags r] @ rest"]
  by (simp add: handshake_request_of_def handshake_request_bytes_def nth_append del: get16_bytes)

lemma handshake_response_roundtrip [simp]:
  assumes "length (hs_p r) = 256" "length (hs_server_pubkey r) = 256"
  shows "handshake_response_of (handshake_response_bytes r @ rest) = r"
proof -
  let ?b = "le64_bytes (hs_g r) @ hs_p r @ hs_server_pubkey r @ rest"
  have "get64 0 ([] @ ?b) = hs_g r" by (rule get64_bytes) simp
  moreover have "slice 8 256 ?b = hs_p r" by (rule slice_bytes) (simp_all add: assms)
  moreover have "slice 264 256 ((le64_bytes (hs_g r) @ hs_p r) @ hs_server_pubkey r @ rest) = hs_server_pubkey r"
    by (rule slice_bytes) (simp_all add: assms)
  ultimately show ?thesis by (simp add: handshake_response_of_def handshake_response_bytes_def)
qed

lemma confirmation_roundtrip [simp]:
  assumes "length (hc_magic c) = 4"
  shows "confirmation_of (confirmation_bytes c @ rest) = c"
proof -
  let ?b = "hc_magic c @ le32_bytes (hc_assigned_id c) @ le64_bytes (hc_timestamp c) @ rest"
  have "slice 0 4 ([] @ ?b) = hc_magic c" by (rule slice_bytes) (simp_all add: assms)
  moreover have "get32 4 ?b = hc_assigned_id c" by (rule get32_bytes) (simp add: assms)
  moreover have "get64 8 ((hc_magic c @ le32_bytes (hc_assigned_id c)) @ le64_bytes (hc_timestamp c) @ rest) =
      hc_timestamp c"
    by (rule get64_bytes) (simp add: assms)
  ultimately show ?thesis by (simp add: confirmation_of_def confirmation_bytes_def)
qed

lemma response_base_roundtrip [simp]: "response_base_of (response_base_bytes r @ rest) = r"
proof -
  let ?b = "le64_bytes (rb_timestamp r) @ le32_bytes (rb_response_code r) @ le16_bytes (rb_command r) @ rest"
  have "get64 0 ([] @ ?b) = rb_timestamp r" by (rule get64_bytes) simp
  moreover have "get32 8 ?b = rb_response_code r" by (rule get32_bytes) simp
  moreover have "get16 12 ((le64_bytes (rb_timestamp r) @ le32_bytes (rb_response_code r)) @
      le16_bytes (rb_command r) @ rest) = rb_command r"
    by (rule get16_bytes) simp
  ultimately show ?thesis by (simp add: response_base_of_def response_base_bytes_def)
qed

lemma requests_roundtrip [simp]:
  "sock_addr_ok a \<Longrightarrow> signup_request_addr (signup_request_bytes a @ rest) = a"
  "get16 0 (signup_request_bytes a @ rest) = RELAY_COMMAND_SIGNUP"
  "signout_request_id (signout_request_bytes i @ rest) = i"
  "get16 0 (signout_request_bytes i @ rest) = RELAY_COMMAND_SIGNOUT"
  "signup_response_id (signup_response_bytes r j @ rest) = j"
  "response_base_of (signup_response_bytes r j @ rest) = r"
  using get16_bytes [of 0 "[]" RELAY_COMMAND_SIGNUP "sock_addr_bytes a @ rest"]
    get16_bytes [of 0 "[]" RELAY_COMMAND_SIGNOUT "le32_bytes i @ rest"]
  by (simp_all add: signup_request_addr_def signup_request_bytes_def signout_request_id_def
      signout_request_bytes_def signup_response_id_def signup_response_bytes_def del: get16_bytes)

lemma drop_concat_blocks:
  "\<forall>x \<in> set xs. length (f x) = n \<Longrightarrow> i < length xs \<Longrightarrow>
   drop (i * n) (concat (map f xs)) = f (xs ! i) @ concat (map f (drop (Suc i) xs))"
proof (induction i arbitrary: xs)
  case 0
  then show ?case by (cases xs) simp_all
next
  case (Suc i)
  then show ?case by (cases xs) simp_all
qed

lemma map_response_roundtrip:
  assumes "\<forall>d \<in> set ds. descriptor_ok d" "i < length ds"
  shows "map_response_amount (map_response_bytes r n ds @ rest) = n"
    and "map_response_relay (map_response_bytes r n ds @ rest) i = ds ! i"
proof -
  show "map_response_amount (map_response_bytes r n ds @ rest) = n"
    unfolding map_response_amount_def map_response_bytes_def append_assoc by (rule get16_bytes) simp
  have "i * 276 \<le> length (concat (map descriptor_bytes ds))"
    using assms by (simp add: length_concat comp_def sum_list_triv cong: map_cong)
  then have "drop (16 + i * 276) (map_response_bytes r n ds @ rest) =
      drop (i * 276) (concat (map descriptor_bytes ds)) @ rest"
    by (simp add: map_response_bytes_def)
  also have "\<dots> = descriptor_bytes (ds ! i) @ concat (map descriptor_bytes (drop (Suc i) ds)) @ rest"
    using assms by (subst drop_concat_blocks) auto
  finally show "map_response_relay (map_response_bytes r n ds @ rest) i = ds ! i"
    using assms by (simp add: map_response_relay_def)
qed

section \<open>Cells\<close>

definition TOR_MSG_SIZE :: nat where "TOR_MSG_SIZE = 512"
definition DIGEST_LEN :: nat where "DIGEST_LEN = 6"
definition RELAY_MSG_SIZE :: nat where
  "RELAY_MSG_SIZE = TOR_MSG_SIZE - 2 - 1 - 2 - 1 * DIGEST_LEN - 2 - 1"

definition TOR_PADDING :: u8 where "TOR_PADDING = 0"
definition TOR_CREATE :: u8 where "TOR_CREATE = 1"
definition TOR_CREATED :: u8 where "TOR_CREATED = 2"
definition TOR_RELAY :: u8 where "TOR_RELAY = 3"
definition TOR_DESTROY :: u8 where "TOR_DESTROY = 4"

definition RELAY_BEGIN :: u8 where "RELAY_BEGIN = 1"
definition RELAY_DATA :: u8 where "RELAY_DATA = 2"
definition RELAY_END :: u8 where "RELAY_END = 3"
definition RELAY_CONNECTED :: u8 where "RELAY_CONNECTED = 4"
definition RELAY_EXTEND :: u8 where "RELAY_EXTEND = 6"
definition RELAY_EXTENDED :: u8 where "RELAY_EXTENDED = 7"

definition TOR_REASON_END_EOF :: u8 where "TOR_REASON_END_EOF = 1"
definition TOR_REASON_END_DONE :: u8 where "TOR_REASON_END_DONE = 2"
definition TOR_REASON_END_FAIL_INIT :: u8 where "TOR_REASON_END_FAIL_INIT = 4"
definition TOR_REASON_END_ABSENT :: u8 where "TOR_REASON_END_ABSENT = 4"

text \<open>
  Readers: the command of any cell (the field \<open>relay\<close> of a relay cell is at the same place), the
  key of a create cell, and the fields of relay cells. \<open>extend\<close> and \<open>begin\<close> cells have an address
  at the start of the payload, an \<open>end\<close> cell its reason.
\<close>

definition cell_cmd :: "bytes \<Rightarrow> u8" where "cell_cmd b = b ! 2"
definition create_public_key :: "bytes \<Rightarrow> bytes" where "create_public_key b = slice 3 256 b"
definition relay_stream_id :: "bytes \<Rightarrow> u16" where "relay_stream_id b = get16 3 b"
definition relay_length :: "bytes \<Rightarrow> u16" where "relay_length b = get16 11 b"
definition relay_cmd :: "bytes \<Rightarrow> u8" where "relay_cmd b = b ! 13"
definition relay_payload :: "bytes \<Rightarrow> bytes" where "relay_payload b = slice 14 RELAY_MSG_SIZE b"
definition extend_addr :: "bytes \<Rightarrow> sock_addr" where "extend_addr b = sock_addr_of (drop 14 b)"
definition extend_public_key :: "bytes \<Rightarrow> bytes" where "extend_public_key b = slice 34 256 b"
definition begin_addr :: "bytes \<Rightarrow> sock_addr" where "begin_addr b = sock_addr_of (drop 14 b)"
definition end_reason :: "bytes \<Rightarrow> u8" where "end_reason b = b ! 14"

text \<open>Writers of the same fields.\<close>

definition put8 :: "nat \<Rightarrow> u8 \<Rightarrow> bytes \<Rightarrow> bytes" where "put8 off x b = splice off [x] b"
definition put16 :: "nat \<Rightarrow> u16 \<Rightarrow> bytes \<Rightarrow> bytes" where "put16 off x b = splice off (le16_bytes x) b"

definition set_cell_cmd :: "u8 \<Rightarrow> bytes \<Rightarrow> bytes" where "set_cell_cmd = put8 2"
definition set_create_public_key :: "bytes \<Rightarrow> bytes \<Rightarrow> bytes" where "set_create_public_key = splice 3"
definition set_relay_stream_id :: "u16 \<Rightarrow> bytes \<Rightarrow> bytes" where "set_relay_stream_id = put16 3"
definition set_relay_length :: "u16 \<Rightarrow> bytes \<Rightarrow> bytes" where "set_relay_length = put16 11"
definition set_relay_cmd :: "u8 \<Rightarrow> bytes \<Rightarrow> bytes" where "set_relay_cmd = put8 13"
definition set_extend_public_key :: "bytes \<Rightarrow> bytes \<Rightarrow> bytes" where "set_extend_public_key = splice 34"
definition set_relay_addr :: "sock_addr \<Rightarrow> bytes \<Rightarrow> bytes" where
  "set_relay_addr a = splice 14 (sock_addr_bytes a)"
definition set_end_reason :: "u8 \<Rightarrow> bytes \<Rightarrow> bytes" where "set_end_reason = put8 14"

abbreviation is_cell :: "bytes \<Rightarrow> bool" where "is_cell b \<equiv> length b = 512"

lemma RELAY_MSG_SIZE_value [simp]: "RELAY_MSG_SIZE = 498"
  by (simp add: RELAY_MSG_SIZE_def TOR_MSG_SIZE_def DIGEST_LEN_def)

lemmas cell_writers = put8_def put16_def set_cell_cmd_def set_create_public_key_def set_relay_stream_id_def
  set_relay_length_def set_relay_cmd_def set_extend_public_key_def set_relay_addr_def set_end_reason_def

lemmas cell_readers = cell_cmd_def create_public_key_def relay_stream_id_def relay_length_def relay_cmd_def
  relay_payload_def extend_addr_def extend_public_key_def begin_addr_def end_reason_def

lemma length_cell_writers [simp, len_simps]:
  "is_cell b \<Longrightarrow> is_cell (set_cell_cmd c b)"
  "is_cell b \<Longrightarrow> length k = 256 \<Longrightarrow> is_cell (set_create_public_key k b)"
  "is_cell b \<Longrightarrow> is_cell (set_relay_stream_id s b)"
  "is_cell b \<Longrightarrow> is_cell (set_relay_length s b)"
  "is_cell b \<Longrightarrow> is_cell (set_relay_cmd c b)"
  "is_cell b \<Longrightarrow> length k = 256 \<Longrightarrow> is_cell (set_extend_public_key k b)"
  "is_cell b \<Longrightarrow> sock_addr_ok a \<Longrightarrow> is_cell (set_relay_addr a b)"
  "is_cell b \<Longrightarrow> is_cell (set_end_reason c b)"
  by (simp_all add: cell_writers)

text \<open>Reading a field from a buffer into which bytes were written.\<close>

lemma get16_splice_same:
  "off + 2 \<le> length b \<Longrightarrow> get16 off (splice off (le16_bytes w) b) = w"
  using get16_bytes [of off "take off b" w "drop (off + 2) b"] by (simp add: splice_def)

lemma get16_splice_other:
  "o' + 2 \<le> length b \<Longrightarrow> off + length xs \<le> length b \<Longrightarrow> o' + 2 \<le> off \<or> off + length xs \<le> o' \<Longrightarrow>
   get16 o' (splice off xs b) = get16 o' b"
  by (auto simp: get16_def nth_splice)

lemma sock_addr_of_splice:
  assumes "sock_addr_ok a" "off + 20 \<le> length b"
  shows "sock_addr_of (drop off (splice off (sock_addr_bytes a) b)) = a"
  using assms by (simp add: splice_def)

lemma drop_splice: "off + length xs \<le> length b \<Longrightarrow> drop off (splice off xs b) = xs @ drop (off + length xs) b"
  by (simp add: splice_def)

end
