(* ===== verification/Relay_Manager.thy ===== *)
theory Relay_Manager
  imports Protocol Stream_Buffers
begin

text \<open>
  The directory server's table of signed-up relays, \<open>src/server/services/relay_manager.c\<close>: an array of
  items indexed by relay id, a stack of removed ids, and the relays' data on the heap. Every function
  holds the file's mutex from its first to its last access, so calls from several threads are a
  sequence of the steps below; the mutex itself is not represented. The static variables are the
  record \<open>relay_manager\<close>, which also holds the heap cells the items point to: addresses are numbers,
  each allocation takes a new one, and \<open>free\<close> removes the cell, so that a use after \<open>free\<close> is an
  access outside the heap. \<open>None\<close> is an abort or an access outside an object.
\<close>

definition RELAY_ITEMS_MIN_LENGTH :: nat where "RELAY_ITEMS_MIN_LENGTH = 2"
definition RELAY_STACK_MIN_LENGTH :: nat where "RELAY_STACK_MIN_LENGTH = 1"

record relay_data_item =
  ri_exists :: bool
  ri_data :: "nat option"

record relay_manager =
  rm_initialized :: bool
  items_length :: nat
  items :: "relay_data_item list"
  max_item_index :: nat
  stack_length :: nat
  removed_id_stack :: "nat list"
  max_stack_index :: nat
  rm_heap :: "nat \<Rightarrow> relay_data option"
  rm_next :: nat

definition zero_item :: relay_data_item where
  "zero_item = \<lparr>ri_exists = False, ri_data = None\<rparr>"

text \<open>A \<open>relay_data_t\<close> of zero bytes.\<close>

definition zero_relay_data :: relay_data where
  "zero_relay_data =
     \<lparr>rd_descriptor = \<lparr>rd_sock_addr = \<lparr>sa_family = 0, sa_protocol = 0, sa_addr = replicate 16 0, sa_port = 0\<rparr>,
                      rd_public_key = replicate 256 0\<rparr>,
      rd_relay_id = 0\<rparr>"

section \<open>The operations\<close>

definition init_relay_manager :: "relay_manager \<Rightarrow> relay_manager" where
  "init_relay_manager m =
     (if rm_initialized m then m
      else m\<lparr>rm_initialized := True,
             items_length := RELAY_ITEMS_MIN_LENGTH, items := replicate RELAY_ITEMS_MIN_LENGTH zero_item,
             max_item_index := 0,
             stack_length := RELAY_STACK_MIN_LENGTH, removed_id_stack := replicate RELAY_STACK_MIN_LENGTH 0,
             max_stack_index := 0\<rparr>)"

definition free_relay_manager :: "relay_manager \<Rightarrow> relay_manager" where
  "free_relay_manager m =
     (if \<not> rm_initialized m then m
      else m\<lparr>items := [], removed_id_stack := [], items_length := 0, stack_length := 0,
             max_item_index := 0, max_stack_index := 0, rm_initialized := False\<rparr>)"

definition get_relay :: "relay_manager \<Rightarrow> nat \<Rightarrow> nat option" where
  "get_relay m i = (if i < items_length m \<and> ri_exists (items m ! i) then ri_data (items m ! i) else None)"

text \<open>The growth of the array in \<open>gen_relay\<close>. A length that does not grow (0, or the wrap-around of
  \<open>uint32_t\<close>) fails the assertion or leaves an array too short for the item.\<close>

definition grow_items :: "(nat \<Rightarrow> bool) \<Rightarrow> relay_manager \<Rightarrow> relay_manager option" where
  "grow_items alloc_ok m =
     (if items_length m \<le> max_item_index m then
        let old_length = items_length m;
            new_length = u32n (old_length * 2)
        in if \<not> alloc_ok (new_length * 16) \<or> new_length \<le> old_length then None
           else Some (m\<lparr>items_length := new_length,
                        items := items m @ replicate (new_length - old_length) zero_item\<rparr>)
      else Some m)"

text \<open>Both branches of \<open>gen_relay\<close> fill the item in the same way.\<close>

definition new_item :: "(nat \<Rightarrow> bool) \<Rightarrow> nat \<Rightarrow> relay_manager \<Rightarrow> (nat \<times> relay_manager) option" where
  "new_item alloc_ok i m =
     (if length (items m) \<le> i \<or> \<not> alloc_ok 280 then None
      else let a = rm_next m in
        Some (a, m\<lparr>items := (items m)[i := \<lparr>ri_exists = True, ri_data = Some a\<rparr>],
                   rm_heap := (rm_heap m)(a \<mapsto> zero_relay_data\<lparr>rd_relay_id := word_of_nat i\<rparr>),
                   rm_next := a + 1\<rparr>))"

definition gen_relay :: "(nat \<Rightarrow> bool) \<Rightarrow> relay_manager \<Rightarrow> (nat \<times> relay_manager) option" where
  "gen_relay alloc_ok m =
     (if max_stack_index m = 0 then
        Option.bind (grow_items alloc_ok m) (\<lambda>m.
        Option.bind (new_item alloc_ok (max_item_index m) m) (\<lambda>(a, m).
        Some (a, m\<lparr>max_item_index := max_item_index m + 1\<rparr>)))
      else
        let m = m\<lparr>max_stack_index := max_stack_index m - 1\<rparr>
        in if length (removed_id_stack m) \<le> max_stack_index m then None
           else new_item alloc_ok (removed_id_stack m ! max_stack_index m) m)"

text \<open>The item is read before the id is compared with the length of the array.\<close>

definition remove_relay :: "(nat \<Rightarrow> bool) \<Rightarrow> relay_manager \<Rightarrow> nat \<Rightarrow> (bool \<times> relay_manager) option" where
  "remove_relay alloc_ok m i =
     (if length (items m) \<le> i then None
      else if \<not> ri_exists (items m ! i) \<or> items_length m \<le> i then Some (False, m)
      else
        let item = (items m ! i)\<lparr>ri_exists := False\<rparr>
        in Option.bind
             (if stack_length m \<le> max_stack_index m then
                let new_length = u32n (stack_length m * 2)
                in if \<not> alloc_ok (new_length * 4) then None
                   else Some (m\<lparr>stack_length := new_length,
                        removed_id_stack := take new_length (removed_id_stack m) @
                          replicate (new_length - length (removed_id_stack m)) 0\<rparr>)
              else Some m)
             (\<lambda>m. if length (removed_id_stack m) \<le> max_stack_index m then None
                else Some (True, m\<lparr>
                  removed_id_stack := (removed_id_stack m)[max_stack_index m := i],
                  max_stack_index := max_stack_index m + 1,
                  rm_heap := (case ri_data item of None \<Rightarrow> rm_heap m | Some a \<Rightarrow> (rm_heap m)(a := None)),
                  items := (items m)[i := item\<lparr>ri_data := None\<rparr>]\<rparr>)))"

text \<open>\<open>found\<close> is the part of the caller's array already filled; its length is the C variable.\<close>

function batch_loop ::
  "relay_manager \<Rightarrow> nat \<Rightarrow> nat \<Rightarrow> nat \<Rightarrow> relay_descriptor list \<Rightarrow> (relay_descriptor list \<times> nat) option" where
  "batch_loop m max_found i count found =
     (if length found < max_found \<and> count < items_length m then
        Option.bind
          (if ri_exists (items m ! i) then
             Option.bind (ri_data (items m ! i)) (\<lambda>a.
             Option.bind (rm_heap m a) (\<lambda>d. Some (found @ [rd_descriptor d])))
           else Some found)
          (\<lambda>found. batch_loop m max_found ((i + 1) mod items_length m) (count + 1) found)
      else Some (found, i))"
  by pat_completeness auto
termination by (relation "measure (\<lambda>(m, _, _, count, _). items_length m - count)") auto

declare batch_loop.simps [simp del]

text \<open>Division by zero when the manager is not initialised.\<close>

definition get_relay_batch ::
  "relay_manager \<Rightarrow> nat \<Rightarrow> nat \<Rightarrow> (relay_descriptor list \<times> nat) option" where
  "get_relay_batch m start max_found =
     (if items_length m = 0 then None else batch_loop m max_found (start mod items_length m) 0 [])"

section \<open>The invariant\<close>

definition live :: "relay_manager \<Rightarrow> nat set" where
  "live m = {i. i < items_length m \<and> ri_exists (items m ! i)}"

definition free_ids :: "relay_manager \<Rightarrow> nat list" where
  "free_ids m = take (max_stack_index m) (removed_id_stack m)"

definition item_data :: "relay_manager \<Rightarrow> nat \<Rightarrow> relay_data option" where
  "item_data m i = Option.bind (get_relay m i) (rm_heap m)"

text \<open>
  The live items point to distinct heap cells that carry their ids; the removed ids on the stack are
  exactly the ids handed out before that are not live, each once.
\<close>

definition manager_ok :: "relay_manager \<Rightarrow> bool" where
  "manager_ok m \<longleftrightarrow>
     rm_initialized m \<and> length (items m) = items_length m \<and> 0 < items_length m \<and> items_length m \<le> 2 ^ 31 \<and>
     max_item_index m \<le> items_length m \<and>
     length (removed_id_stack m) = stack_length m \<and> 0 < stack_length m \<and> stack_length m \<le> 2 * items_length m \<and>
     max_stack_index m \<le> stack_length m \<and>
     (\<forall>i \<in> live m. \<exists>a d. ri_data (items m ! i) = Some a \<and> a < rm_next m \<and> rm_heap m a = Some d \<and>
        unat (rd_relay_id d) = i) \<and>
     distinct (free_ids m) \<and> set (free_ids m) = {..<max_item_index m} - live m \<and>
     live m \<subseteq> {..<max_item_index m}"

lemma live_less: "i \<in> live m \<Longrightarrow> i < items_length m" by (simp add: live_def)

lemma manager_okD:
  assumes "manager_ok m"
  shows "length (items m) = items_length m" "0 < items_length m" "items_length m \<le> 2 ^ 31"
    "max_item_index m \<le> items_length m" "length (removed_id_stack m) = stack_length m"
    "max_stack_index m \<le> stack_length m" "0 < stack_length m" "stack_length m \<le> 2 * items_length m"
    "distinct (free_ids m)" "set (free_ids m) = {..<max_item_index m} - live m"
    "live m \<subseteq> {..<max_item_index m}"
  using assms by (simp_all add: manager_ok_def)

lemma manager_cell:
  assumes "manager_ok m" "i \<in> live m"
  obtains a d where "ri_data (items m ! i) = Some a" "a < rm_next m" "rm_heap m a = Some d"
    "unat (rd_relay_id d) = i" "get_relay m i = Some a"
proof -
  obtain a d where "ri_data (items m ! i) = Some a" "a < rm_next m" "rm_heap m a = Some d"
    "unat (rd_relay_id d) = i"
    using assms unfolding manager_ok_def by blast
  moreover have "get_relay m i = ri_data (items m ! i)"
    using assms(2) by (simp add: live_def get_relay_def)
  ultimately show ?thesis using that by simp
qed

text \<open>Two live items never share a cell: the cell carries the id.\<close>

lemma cells_distinct:
  assumes "manager_ok m" "i \<in> live m" "j \<in> live m" "ri_data (items m ! i) = ri_data (items m ! j)"
  shows "i = j"
  using manager_cell [OF assms(1,2)] manager_cell [OF assms(1,3)] assms(4) by (metis option.inject)

lemma not_live_free: "manager_ok m \<Longrightarrow> get_relay m i = None \<longleftrightarrow> i \<notin> live m"
  by (metis get_relay_def live_def manager_cell mem_Collect_eq option.distinct(1))

lemma length_free_ids: "manager_ok m \<Longrightarrow> length (free_ids m) = max_stack_index m"
  by (simp add: free_ids_def manager_okD)

section \<open>What the operations keep\<close>

lemma init_manager_ok: "\<not> rm_initialized m \<Longrightarrow> manager_ok (init_relay_manager m) \<and> live (init_relay_manager m) = {}"
  by (auto simp: init_relay_manager_def manager_ok_def live_def free_ids_def zero_item_def
      RELAY_ITEMS_MIN_LENGTH_def RELAY_STACK_MIN_LENGTH_def)

text \<open>Growing the array changes nothing that can be observed.\<close>

lemma grow_items_ok:
  assumes ok: "manager_ok m" and l: "items_length m \<le> 2 ^ 30" and a: "\<And>n. alloc_ok n"
  obtains m' where "grow_items alloc_ok m = Some m'" "manager_ok m'" "live m' = live m"
    "max_item_index m < items_length m'" "max_item_index m' = max_item_index m"
    "max_stack_index m' = max_stack_index m" "removed_id_stack m' = removed_id_stack m"
    "rm_heap m' = rm_heap m" "rm_next m' = rm_next m"
    "\<And>i. i \<in> live m \<Longrightarrow> items m' ! i = items m ! i"
proof (cases "items_length m \<le> max_item_index m")
  case False
  then show ?thesis using that [of m] ok by (simp add: grow_items_def)
next
  case True
  note D = manager_okD [OF ok]
  let ?n = "items_length m"
  define m' where "m' = m\<lparr>items_length := 2 * ?n, items := items m @ replicate ?n zero_item\<rparr>"
  have old: "items m' ! i = items m ! i" if "i < ?n" for i
    using that D(1) by (simp add: m'_def nth_append)
  have new: "\<not> ri_exists (items m' ! i)" if "?n \<le> i" "i < 2 * ?n" for i
    using that D(1) by (simp add: m'_def nth_append zero_item_def)
  have lv: "live m' = live m"
  proof (rule set_eqI)
    fix i show "i \<in> live m' \<longleftrightarrow> i \<in> live m"
      using old [of i] new [of i] by (cases "i < ?n") (auto simp: live_def m'_def)
  qed
  have "\<exists>a d. ri_data (items m' ! i) = Some a \<and> a < rm_next m' \<and> rm_heap m' a = Some d \<and> unat (rd_relay_id d) = i"
    if "i \<in> live m" for i
    using ok that old [OF live_less [OF that]] by (auto simp: m'_def manager_ok_def)
  then have "manager_ok m'"
    using ok l D(1) lv unfolding manager_ok_def by (simp add: m'_def free_ids_def)
  moreover have "grow_items alloc_ok m = Some m'"
    using True l a D(2) by (simp add: grow_items_def u32n_small m'_def Let_def mult.commute)
  ultimately show ?thesis
    using that [of m'] True D(2,4) lv old live_less [of _ m] by (simp add: m'_def)
qed

text \<open>Filling an item whose id is not live.\<close>

lemma new_item_ok:
  assumes len: "length (items m) = items_length m" "items_length m \<le> 2 ^ 31" and a: "\<And>n. alloc_ok n"
    and cells: "\<forall>i \<in> live m. \<exists>a d. ri_data (items m ! i) = Some a \<and> a < rm_next m \<and> rm_heap m a = Some d \<and>
        unat (rd_relay_id d) = i"
    and i: "i < items_length m"
  obtains m' where "new_item alloc_ok i m = Some (rm_next m, m')" "live m' = insert i (live m)"
    "m' = m\<lparr>items := items m', rm_heap := rm_heap m', rm_next := rm_next m + 1\<rparr>"
    "length (items m') = items_length m" "get_relay m' i = Some (rm_next m)"
    "rm_heap m' (rm_next m) = Some (zero_relay_data\<lparr>rd_relay_id := word_of_nat i\<rparr>)"
    "\<And>j. j \<noteq> i \<Longrightarrow> items m' ! j = items m ! j" "\<And>b. b < rm_next m \<Longrightarrow> rm_heap m' b = rm_heap m b"
    "\<forall>j \<in> live m'. \<exists>a d. ri_data (items m' ! j) = Some a \<and> a < rm_next m' \<and> rm_heap m' a = Some d \<and>
        unat (rd_relay_id d) = j"
proof -
  define m' where "m' = m\<lparr>items := (items m)[i := \<lparr>ri_exists = True, ri_data = Some (rm_next m)\<rparr>],
      rm_heap := (rm_heap m)(rm_next m \<mapsto> zero_relay_data\<lparr>rd_relay_id := word_of_nat i\<rparr>),
      rm_next := rm_next m + 1\<rparr>"
  have n: "new_item alloc_ok i m = Some (rm_next m, m')"
    using len i a by (simp add: new_item_def m'_def Let_def)
  have other: "items m' ! j = items m ! j" if "j \<noteq> i" for j using that by (simp add: m'_def)
  have lv: "live m' = insert i (live m)"
    using i len(1) by (auto simp: live_def m'_def nth_list_update)
  have u: "unat (word_of_nat i :: u32) = i"
    using i len(2) by (simp add: unsigned_of_nat take_bit_nat_eq_self_iff)
  have old_heap: "rm_heap m' b = rm_heap m b" if "b < rm_next m" for b using that by (simp add: m'_def)
  have "\<exists>a d. ri_data (items m' ! j) = Some a \<and> a < rm_next m' \<and> rm_heap m' a = Some d \<and>
      unat (rd_relay_id d) = j" if "j \<in> live m'" for j
  proof (cases "j = i")
    case True
    then show ?thesis using i len(1) u by (simp add: m'_def zero_relay_data_def)
  next
    case False
    then have "j \<in> live m" using that lv by simp
    then obtain a d where "ri_data (items m ! j) = Some a" "a < rm_next m" "rm_heap m a = Some d"
      "unat (rd_relay_id d) = j" using cells by blast
    then show ?thesis using False old_heap [of a] other [of j] by (auto simp: m'_def)
  qed
  then show ?thesis
    using that [OF n lv _ _ _ _ other old_heap] i len(1)
    by (simp add: m'_def get_relay_def)
qed

lemma live_cell_kept:
  assumes ok: "manager_ok m" and "j \<in> live m" "j \<in> live m'" "items m' ! j = items m ! j"
    and "\<And>b. b < rm_next m \<Longrightarrow> rm_heap m' b = rm_heap m b"
  shows "get_relay m' j = get_relay m j \<and> item_data m' j = item_data m j"
proof -
  note cell = manager_cell [OF ok assms(2)]
  obtain b where "ri_data (items m ! j) = Some b" "b < rm_next m" by (rule cell)
  then show ?thesis using assms(2-) by (auto simp: get_relay_def item_data_def live_def)
qed

lemma gen_relay_fresh:
  assumes ok: "manager_ok m" and l: "items_length m \<le> 2 ^ 30" and a: "\<And>n. alloc_ok n"
    and stack: "max_stack_index m = 0"
  obtains i m' where "gen_relay alloc_ok m = Some (rm_next m, m')" "manager_ok m'"
    "i \<notin> live m" "live m' = insert i (live m)" "get_relay m' i = Some (rm_next m)"
    "rm_heap m' (rm_next m) = Some (zero_relay_data\<lparr>rd_relay_id := word_of_nat i\<rparr>)"
    "\<And>j. j \<in> live m \<Longrightarrow> get_relay m' j = get_relay m j \<and> item_data m' j = item_data m j"
    "i = (if free_ids m = [] then max_item_index m else last (free_ids m))"
proof -
  note D = manager_okD [OF ok]
  from stack have fr: "free_ids m = []" by (simp add: free_ids_def)
  let ?i = "max_item_index m"
  obtain m1 where m1: "grow_items alloc_ok m = Some m1" "manager_ok m1" "live m1 = live m"
    "?i < items_length m1" "max_item_index m1 = ?i" "max_stack_index m1 = max_stack_index m"
    "removed_id_stack m1 = removed_id_stack m" "rm_heap m1 = rm_heap m" "rm_next m1 = rm_next m"
    "\<And>i. i \<in> live m \<Longrightarrow> items m1 ! i = items m ! i"
    by (rule grow_items_ok [where alloc_ok = alloc_ok, OF ok l a]) blast
  note D1 = manager_okD [OF m1(2)]
  obtain m2 where m2: "new_item alloc_ok ?i m1 = Some (rm_next m1, m2)" "live m2 = insert ?i (live m1)"
    "m2 = m1\<lparr>items := items m2, rm_heap := rm_heap m2, rm_next := rm_next m1 + 1\<rparr>"
    "length (items m2) = items_length m1" "get_relay m2 ?i = Some (rm_next m1)"
    "rm_heap m2 (rm_next m1) = Some (zero_relay_data\<lparr>rd_relay_id := word_of_nat ?i\<rparr>)"
    "\<And>j. j \<noteq> ?i \<Longrightarrow> items m2 ! j = items m1 ! j" "\<And>b. b < rm_next m1 \<Longrightarrow> rm_heap m2 b = rm_heap m1 b"
    "\<forall>j \<in> live m2. \<exists>a d. ri_data (items m2 ! j) = Some a \<and> a < rm_next m2 \<and> rm_heap m2 a = Some d \<and>
      unat (rd_relay_id d) = j"
    using m1(2) by (auto simp: manager_ok_def intro: new_item_ok [where alloc_ok = alloc_ok, OF D1(1,3) a _ m1(4)])
  define m' where "m' = m2\<lparr>max_item_index := ?i + 1\<rparr>"
  have f2: "items_length m2 = items_length m1" "stack_length m2 = stack_length m1" "rm_initialized m2 = rm_initialized m1"
    "max_stack_index m2 = max_stack_index m1" "removed_id_stack m2 = removed_id_stack m1"
    "max_item_index m2 = max_item_index m1"
    by (subst m2(3), simp)+
  have notin: "?i \<notin> live m" using D(11) by auto
  have lv: "live m' = insert ?i (live m)" using m2(2) m1(3) by (simp add: m'_def live_def)
  have lv2: "live m' = live m2" by (simp add: m'_def live_def)
  have "{..<?i} \<subseteq> live m" using D(10) fr by auto
  then have all: "{..<?i + 1} - live m' = {}" "live m' \<subseteq> {..<?i + 1}"
    using lv D(11) by (auto simp: less_Suc_eq)
  have "\<forall>j \<in> live m'. \<exists>a d. ri_data (items m' ! j) = Some a \<and> a < rm_next m' \<and> rm_heap m' a = Some d \<and>
      unat (rd_relay_id d) = j"
    unfolding lv2 using m2(9) by (simp add: m'_def)
  moreover have "free_ids m' = []" using stack f2 m1(6) by (simp add: m'_def free_ids_def)
  moreover have "rm_initialized m1" using m1(2) by (simp add: manager_ok_def)
  ultimately have "manager_ok m'"
    unfolding manager_ok_def using all m2(4) f2 D1 m1(4,5) stack m1(6) by (simp add: m'_def)
  moreover have "gen_relay alloc_ok m = Some (rm_next m, m')"
    using stack m1 m2(1) f2 by (simp add: gen_relay_def m'_def)
  moreover have "get_relay m' ?i = Some (rm_next m)" "rm_heap m' = rm_heap m2" "items m' = items m2"
    using m2(5) m1(9) by (simp_all add: m'_def get_relay_def split: if_splits)
  ultimately show ?thesis
    using that [of m' ?i] lv notin m2(6-8) m1(8-10) fr live_cell_kept [OF ok, of _ m'] by (metis insertI2)
qed

lemma gen_relay_reused:
  assumes ok: "manager_ok m" and l: "items_length m \<le> 2 ^ 30" and a: "\<And>n. alloc_ok n"
    and stack: "max_stack_index m \<noteq> 0"
  obtains i m' where "gen_relay alloc_ok m = Some (rm_next m, m')" "manager_ok m'"
    "i \<notin> live m" "live m' = insert i (live m)" "get_relay m' i = Some (rm_next m)"
    "rm_heap m' (rm_next m) = Some (zero_relay_data\<lparr>rd_relay_id := word_of_nat i\<rparr>)"
    "\<And>j. j \<in> live m \<Longrightarrow> get_relay m' j = get_relay m j \<and> item_data m' j = item_data m j"
    "i = (if free_ids m = [] then max_item_index m else last (free_ids m))"
proof -
  note D = manager_okD [OF ok]
  define k where "k = max_stack_index m - 1"
  define i where "i = removed_id_stack m ! k"
  have k: "k < stack_length m" "max_stack_index m = Suc k" using stack D(6) by (auto simp: k_def)
  have fr: "free_ids m = take k (removed_id_stack m) @ [i]"
    using k D(5) by (simp add: free_ids_def i_def take_Suc_conv_app_nth)
  then have "i \<in> set (free_ids m)" by simp
  then have i: "i < max_item_index m" "i \<notin> live m" unfolding D(10) by simp_all
  then have il: "i < items_length m" using D(4) by simp
  have inot: "i \<notin> set (take k (removed_id_stack m))" using D(9) unfolding fr by simp
  let ?m = "m\<lparr>max_stack_index := k\<rparr>"
  have cells: "\<forall>j \<in> live ?m. \<exists>a d. ri_data (items ?m ! j) = Some a \<and> a < rm_next ?m \<and> rm_heap ?m a = Some d \<and>
      unat (rd_relay_id d) = j"
    using ok by (simp add: manager_ok_def live_def)
  obtain m' where m': "new_item alloc_ok i ?m = Some (rm_next ?m, m')" "live m' = insert i (live ?m)"
    "m' = ?m\<lparr>items := items m', rm_heap := rm_heap m', rm_next := rm_next ?m + 1\<rparr>"
    "length (items m') = items_length ?m" "get_relay m' i = Some (rm_next ?m)"
    "rm_heap m' (rm_next ?m) = Some (zero_relay_data\<lparr>rd_relay_id := word_of_nat i\<rparr>)"
    "\<And>j. j \<noteq> i \<Longrightarrow> items m' ! j = items ?m ! j" "\<And>b. b < rm_next ?m \<Longrightarrow> rm_heap m' b = rm_heap ?m b"
    "\<forall>j \<in> live m'. \<exists>a d. ri_data (items m' ! j) = Some a \<and> a < rm_next m' \<and> rm_heap m' a = Some d \<and>
      unat (rd_relay_id d) = j"
    by (rule new_item_ok [where alloc_ok = alloc_ok and m = ?m and i = i]) (use D(1,3) il cells a in simp_all)
  have f2: "items_length m' = items_length m" "stack_length m' = stack_length m" "rm_initialized m' = rm_initialized m"
    "max_stack_index m' = k" "removed_id_stack m' = removed_id_stack m" "max_item_index m' = max_item_index m"
    by (subst m'(3), simp)+
  have lv: "live m' = insert i (live m)" using m'(2) by (simp add: live_def)
  have fr': "free_ids m' = take k (removed_id_stack m)" using f2 by (simp add: free_ids_def)
  have "set (free_ids m') = set (free_ids m) - {i}" using fr fr' inot by auto
  also have "\<dots> = {..<max_item_index m} - live m'" unfolding D(10) lv by blast
  finally have "set (free_ids m') = {..<max_item_index m} - live m'" .
  moreover have "distinct (free_ids m')" using fr fr' D(9) by simp
  moreover have "rm_initialized m" using ok by (simp add: manager_ok_def)
  moreover have "live m' \<subseteq> {..<max_item_index m'}" using lv D(11) i f2 by simp
  ultimately have "manager_ok m'"
    unfolding manager_ok_def using m'(4,9) f2 D k by simp
  moreover have "gen_relay alloc_ok m = Some (rm_next m, m')"
    using stack k D(5) m'(1) by (simp add: gen_relay_def i_def k_def [symmetric] Let_def)
  ultimately show ?thesis
  proof (intro that [of m' i])
    show "get_relay m' j = get_relay m j \<and> item_data m' j = item_data m j" if "j \<in> live m" for j
    proof (rule live_cell_kept [OF ok that])
      show "j \<in> live m'" using that lv by simp
      have "j \<noteq> i" using that i by blast
      then show "items m' ! j = items m ! j" using m'(7) by simp
      show "rm_heap m' b = rm_heap m b" if "b < rm_next m" for b using m'(8) that by simp
    qed
    show "i = (if free_ids m = [] then max_item_index m else last (free_ids m))" using fr by simp
  qed (use lv i m'(5,6) in simp_all)
qed

lemma gen_relay_ok:
  assumes ok: "manager_ok m" and l: "items_length m \<le> 2 ^ 30" and a: "\<And>n. alloc_ok n"
  obtains i m' where "gen_relay alloc_ok m = Some (rm_next m, m')" "manager_ok m'"
    "i \<notin> live m" "live m' = insert i (live m)" "get_relay m' i = Some (rm_next m)"
    "rm_heap m' (rm_next m) = Some (zero_relay_data\<lparr>rd_relay_id := word_of_nat i\<rparr>)"
    "\<And>j. j \<in> live m \<Longrightarrow> get_relay m' j = get_relay m j \<and> item_data m' j = item_data m j"
    "i = (if free_ids m = [] then max_item_index m else last (free_ids m))"
proof (cases "max_stack_index m = 0")
  case True
  show ?thesis by (rule gen_relay_fresh [where alloc_ok = alloc_ok, OF ok l a True]) (rule that)
next
  case False
  show ?thesis by (rule gen_relay_reused [where alloc_ok = alloc_ok, OF ok l a False]) (rule that)
qed

lemma remove_relay_absent:
  "manager_ok m \<Longrightarrow> i < items_length m \<Longrightarrow> i \<notin> live m \<Longrightarrow> remove_relay alloc_ok m i = Some (False, m)"
  by (simp add: remove_relay_def live_def manager_okD)

lemma remove_relay_ok:
  assumes ok: "manager_ok m" and i: "i \<in> live m" and a: "\<And>n. alloc_ok n"
  obtains m' where "remove_relay alloc_ok m i = Some (True, m')" "manager_ok m'"
    "live m' = live m - {i}" "free_ids m' = free_ids m @ [i]"
    "\<And>j. j \<in> live m \<Longrightarrow> j \<noteq> i \<Longrightarrow> get_relay m' j = get_relay m j \<and> item_data m' j = item_data m j"
    "rm_heap m' (the (get_relay m i)) = None" "max_item_index m' = max_item_index m"
    "items_length m' = items_length m"
proof -
  note D = manager_okD [OF ok]
  obtain b d where b: "ri_data (items m ! i) = Some b" "b < rm_next m" "rm_heap m b = Some d"
    "unat (rd_relay_id d) = i" "get_relay m i = Some b" by (rule manager_cell [OF ok i])
  have il: "i < items_length m" "ri_exists (items m ! i)" "i < max_item_index m"
    using i D(11) by (auto simp: live_def)
  define k where "k = max_stack_index m"
  have fresh: "i \<notin> set (free_ids m)" using i D(10) by simp
  have "k \<le> card ({..<max_item_index m} - {i})"
    unfolding k_def length_free_ids [OF ok, symmetric] distinct_card [OF D(9), symmetric] D(10)
    using i by (intro card_mono) auto
  also have "\<dots> < items_length m" using il D(4) by simp
  finally have k: "k < items_length m" .
  define st where "st = (if stack_length m \<le> k then removed_id_stack m @ replicate (stack_length m) 0 else removed_id_stack m)"
  define sl where "sl = (if stack_length m \<le> k then 2 * stack_length m else stack_length m)"
  have sl: "length st = sl" "k < sl" "0 < sl" "sl \<le> 2 * items_length m" "take k st = take k (removed_id_stack m)"
    using D(5-8) k by (auto simp: st_def sl_def k_def)
  define m' where "m' = m\<lparr>stack_length := sl, removed_id_stack := st[k := i], max_stack_index := k + 1,
      rm_heap := (rm_heap m)(b := None), items := (items m)[i := \<lparr>ri_exists = False, ri_data = None\<rparr>]\<rparr>"
  have item: "(items m ! i)\<lparr>ri_exists := False, ri_data := None\<rparr> = \<lparr>ri_exists = False, ri_data = None\<rparr>"
    by (cases "items m ! i") simp
  have "u32n (stack_length m * 2) = stack_length m * 2" if "stack_length m \<le> k"
    using that k D(3) by (intro u32n_small) simp
  then have res: "remove_relay alloc_ok m i = Some (True, m')"
    using il D(1,5,7) b(1) a sl(1,2)
    by (auto simp: remove_relay_def m'_def st_def sl_def item k_def Let_def mult.commute)
  have lv: "live m' = live m - {i}"
    using il D(1) by (auto simp: live_def m'_def nth_list_update)
  have fr: "free_ids m' = free_ids m @ [i]"
    using sl by (simp add: free_ids_def m'_def take_Suc_conv_app_nth k_def)
  have other: "items m' ! j = items m ! j" if "j \<noteq> i" for j using that by (simp add: m'_def)
  have heap: "rm_heap m' c = rm_heap m c" if "j \<in> live m" "j \<noteq> i" "ri_data (items m ! j) = Some c" for j c
    using that b(1) cells_distinct [OF ok that(1) i] by (auto simp: m'_def)
  have "\<exists>a d. ri_data (items m' ! j) = Some a \<and> a < rm_next m' \<and> rm_heap m' a = Some d \<and> unat (rd_relay_id d) = j"
    if j: "j \<in> live m'" for j
  proof -
    have j': "j \<in> live m" "j \<noteq> i" using j lv by auto
    obtain c d where "ri_data (items m ! j) = Some c" "c < rm_next m" "rm_heap m c = Some d" "unat (rd_relay_id d) = j"
      by (rule manager_cell [OF ok j'(1)])
    then show ?thesis using heap [OF j'] other [OF j'(2)] by (simp add: m'_def)
  qed
  moreover have "set (free_ids m') = {..<max_item_index m} - live m'"
    unfolding fr lv using D(10) il(3) by auto
  moreover have "distinct (free_ids m')" unfolding fr using D(9) fresh by simp
  moreover have "rm_initialized m" using ok by (simp add: manager_ok_def)
  moreover have "live m' \<subseteq> {..<max_item_index m'}" using lv D(11) by (auto simp: m'_def)
  ultimately have ok': "manager_ok m'"
    unfolding manager_ok_def using D sl by (simp add: m'_def)
  show ?thesis
  proof (rule that [OF res ok' lv fr])
    show "get_relay m' j = get_relay m j \<and> item_data m' j = item_data m j" if j: "j \<in> live m" "j \<noteq> i" for j
    proof -
      obtain c where "ri_data (items m ! j) = Some c" using manager_cell [OF ok j(1)] by blast
      then show ?thesis using heap [OF j] other [OF j(2)] by (simp add: get_relay_def item_data_def m'_def)
    qed
    show "rm_heap m' (the (get_relay m i)) = None" using b(5) by (simp add: m'_def)
  qed (simp_all add: m'_def)
qed

section \<open>Batches\<close>

text \<open>How many of a sequence of items are looked at until \<open>n\<close> live ones are found.\<close>

fun consumed :: "nat \<Rightarrow> bool list \<Rightarrow> nat" where
  "consumed n [] = 0"
| "consumed n (b # bs) = (if n = 0 then 0 else Suc (consumed (if b then n - 1 else n) bs))"

definition descriptor_at :: "relay_manager \<Rightarrow> nat \<Rightarrow> relay_descriptor" where
  "descriptor_at m i = rd_descriptor (the (item_data m i))"

definition ring_from :: "nat \<Rightarrow> nat \<Rightarrow> nat \<Rightarrow> nat list" where
  "ring_from n i k = map (\<lambda>j. (i + j) mod n) [0..<k]"

lemma ring_from_Suc: "i < n \<Longrightarrow> ring_from n i (Suc k) = i # ring_from n ((i + 1) mod n) k"
  by (simp add: ring_from_def upt_conv_Cons map_Suc_upt [symmetric] mod_simps comp_def del: upt_Suc)

lemma consumed_0 [simp]: "consumed 0 bs = 0" by (cases bs) simp_all

lemma batch_loop_spec:
  assumes ok: "manager_ok m"
  shows "i < items_length m \<Longrightarrow> count \<le> items_length m \<Longrightarrow> length found \<le> n \<Longrightarrow>
    batch_loop m n i count found =
      Some (found @ map (descriptor_at m)
              (take (n - length found) (filter (\<lambda>j. j \<in> live m) (ring_from (items_length m) i (items_length m - count)))),
            (i + consumed (n - length found)
              (map (\<lambda>j. j \<in> live m) (ring_from (items_length m) i (items_length m - count)))) mod items_length m)"
proof (induction "items_length m - count" arbitrary: i count found)
  case 0
  then show ?case by (subst batch_loop.simps) (simp add: ring_from_def)
next
  case (Suc x)
  let ?N = "items_length m"
  have x: "?N - count = Suc x" "?N - (count + 1) = x" using Suc.hyps(2) by simp_all
  have i': "(i + 1) mod ?N < ?N" using Suc.prems by simp
  show ?case
  proof (cases "length found < n")
    case False
    then show ?thesis using Suc.prems by (subst batch_loop.simps) simp
  next
    case True
    define found' where "found' = (if i \<in> live m then found @ [descriptor_at m i] else found)"
    have "batch_loop m n i count found = batch_loop m n ((i + 1) mod ?N) (count + 1) found'"
    proof (cases "i \<in> live m")
      case live: True
      obtain a d where "ri_data (items m ! i) = Some a" "rm_heap m a = Some d" "get_relay m i = Some a"
        by (rule manager_cell [OF ok live])
      then show ?thesis using live True Suc.prems x(1)
        by (subst batch_loop.simps) (auto simp: found'_def descriptor_at_def item_data_def live_def)
    next
      case dead: False
      then have "\<not> ri_exists (items m ! i)" using Suc.prems by (simp add: live_def)
      then show ?thesis using dead True Suc.prems x(1)
        by (subst batch_loop.simps) (auto simp: found'_def)
    qed
    also have "\<dots> = Some (found' @ map (descriptor_at m)
        (take (n - length found') (filter (\<lambda>j. j \<in> live m) (ring_from ?N ((i + 1) mod ?N) x))),
        ((i + 1) mod ?N + consumed (n - length found')
          (map (\<lambda>j. j \<in> live m) (ring_from ?N ((i + 1) mod ?N) x))) mod ?N)"
      using Suc.hyps(1) [of "count + 1" "(i + 1) mod ?N" found'] x i' True Suc.prems
      by (simp add: found'_def)
    also have "\<dots> = Some (found @ map (descriptor_at m)
        (take (n - length found) (filter (\<lambda>j. j \<in> live m) (ring_from ?N i (Suc x)))),
        (i + consumed (n - length found) (map (\<lambda>j. j \<in> live m) (ring_from ?N i (Suc x)))) mod ?N)"
    proof -
      obtain r where r: "n - length found = Suc r" using True by (metis Suc_diff_Suc)
      then have "i \<in> live m \<Longrightarrow> n - length found' = r" "i \<notin> live m \<Longrightarrow> n - length found' = Suc r"
        by (simp_all add: found'_def)
      then show ?thesis
        using r Suc.prems(1) by (cases "i \<in> live m") (simp_all add: ring_from_Suc found'_def mod_simps)
    qed
    finally show ?thesis by (simp only: x)
  qed
qed

lemma get_relay_batch_spec:
  assumes "manager_ok m"
  shows "get_relay_batch m start n =
    Some (map (descriptor_at m)
            (take n (filter (\<lambda>j. j \<in> live m) (ring_from (items_length m) (start mod items_length m) (items_length m)))),
          (start mod items_length m + consumed n
            (map (\<lambda>j. j \<in> live m) (ring_from (items_length m) (start mod items_length m) (items_length m)))) mod items_length m)"
  using batch_loop_spec [OF assms, of "start mod items_length m" 0 "[]" n] manager_okD(2) [OF assms]
  by (simp add: get_relay_batch_def)

section \<open>Sequences of calls\<close>

text \<open>
  One call of the manager's interface, from any thread. Writing through a returned pointer, as the
  relay handler does after a signup, changes the descriptor of the cell only.
\<close>

inductive manager_step :: "relay_manager \<Rightarrow> relay_manager \<Rightarrow> bool" where
  step_gen: "items_length m \<le> 2 ^ 30 \<Longrightarrow> gen_relay (\<lambda>_. True) m = Some (a, m') \<Longrightarrow> manager_step m m'"
| step_remove: "i < items_length m \<Longrightarrow> remove_relay (\<lambda>_. True) m i = Some (r, m') \<Longrightarrow> manager_step m m'"
| step_write: "get_relay m i = Some a \<Longrightarrow> rm_heap m a = Some d \<Longrightarrow>
    manager_step m (m\<lparr>rm_heap := (rm_heap m)(a \<mapsto> d\<lparr>rd_descriptor := x\<rparr>)\<rparr>)"

inductive manager_reachable :: "relay_manager \<Rightarrow> bool" where
  reach_init: "\<not> rm_initialized m \<Longrightarrow> manager_reachable (init_relay_manager m)"
| reach_step: "manager_reachable m \<Longrightarrow> manager_step m m' \<Longrightarrow> manager_reachable m'"

lemma write_cell_ok:
  assumes ok: "manager_ok m" and h: "rm_heap m a = Some d"
    and m': "m' = m\<lparr>rm_heap := (rm_heap m)(a \<mapsto> d\<lparr>rd_descriptor := x\<rparr>)\<rparr>"
  shows "manager_ok m'" "live m' = live m"
proof -
  show lv: "live m' = live m" by (simp add: live_def m')
  have "\<exists>b e. ri_data (items m' ! j) = Some b \<and> b < rm_next m' \<and> rm_heap m' b = Some e \<and>
      unat (rd_relay_id e) = j" if j: "j \<in> live m" for j
  proof -
    obtain b e where "ri_data (items m ! j) = Some b" "b < rm_next m" "rm_heap m b = Some e" "unat (rd_relay_id e) = j"
      by (rule manager_cell [OF ok j])
    then show ?thesis using h by (cases "b = a") (simp_all add: m')
  qed
  then show "manager_ok m'" using ok unfolding manager_ok_def lv by (simp add: m' free_ids_def)
qed

lemma manager_step_ok: "manager_step m m' \<Longrightarrow> manager_ok m \<Longrightarrow> manager_ok m'"
proof (induction rule: manager_step.induct)
  case (step_gen m a m')
  obtain i m1 where "gen_relay (\<lambda>_. True) m = Some (rm_next m, m1)" "manager_ok m1"
    by (rule gen_relay_ok [where alloc_ok = "\<lambda>_. True", OF step_gen(3,1)]) simp_all
  then show ?case using step_gen(2) by simp
next
  case (step_remove i m r m')
  show ?case
  proof (cases "i \<in> live m")
    case True
    obtain m1 where "remove_relay (\<lambda>_. True) m i = Some (True, m1)" "manager_ok m1"
      by (rule remove_relay_ok [where alloc_ok = "\<lambda>_. True", OF step_remove(3) True]) simp_all
    then show ?thesis using step_remove(2) by simp
  next
    case False
    then show ?thesis using step_remove remove_relay_absent [of m i "\<lambda>_. True"] by simp
  qed
next
  case (step_write m i a d x)
  then show ?case by (auto intro: write_cell_ok)
qed

lemma manager_reachable_ok: "manager_reachable m \<Longrightarrow> manager_ok m"
  by (induction rule: manager_reachable.induct) (auto simp: init_manager_ok intro: manager_step_ok)

section \<open>Properties\<close>

definition blank_manager :: relay_manager where
  "blank_manager = \<lparr>rm_initialized = False, items_length = 0, items = [], max_item_index = 0,
     stack_length = 0, removed_id_stack = [], max_stack_index = 0, rm_heap = (\<lambda>_. None), rm_next = 0\<rparr>"

lemma blank_manager_ok: "manager_ok (init_relay_manager blank_manager)" "live (init_relay_manager blank_manager) = {}"
  "free_ids (init_relay_manager blank_manager) = []" "items_length (init_relay_manager blank_manager) = 2"
  "max_item_index (init_relay_manager blank_manager) = 0"
  using init_manager_ok [of blank_manager]
  by (simp_all add: blank_manager_def free_ids_def init_relay_manager_def RELAY_ITEMS_MIN_LENGTH_def)

text \<open>C31. After any sequence of calls on an initialised manager the table is consistent: every live item
  has a heap cell of its own, allocated, that carries the item's index as its relay id; the ids on
  the stack of removed ids are pairwise different and are exactly the ids handed out before and
  no longer live; and no id that was not handed out is live.\<close>

theorem manager_reachable_consistent:
  assumes "manager_reachable m"
  shows "(\<forall>i \<in> live m. \<exists>d. item_data m i = Some d \<and> unat (rd_relay_id d) = i) \<and>
    inj_on (get_relay m) (live m) \<and>
    distinct (free_ids m) \<and> set (free_ids m) = {..<max_item_index m} - live m \<and>
    live m \<subseteq> {..<max_item_index m}"
proof -
  have ok: "manager_ok m" by (rule manager_reachable_ok [OF assms])
  have "\<exists>d. item_data m i = Some d \<and> unat (rd_relay_id d) = i" if "i \<in> live m" for i
    by (rule manager_cell [OF ok that]) (simp add: item_data_def)
  moreover have "get_relay m i = ri_data (items m ! i)" if "i \<in> live m" for i
    using that by (simp add: live_def get_relay_def)
  then have "inj_on (get_relay m) (live m)"
    using cells_distinct [OF ok] by (auto intro!: inj_onI)
  ultimately show ?thesis using manager_okD(9-11) [OF ok] by blast
qed

lemma manager_reachable_consistent_witness:
  "\<exists>m. live m = {0} \<and> (\<forall>i \<in> live m. \<exists>d. item_data m i = Some d \<and> unat (rd_relay_id d) = i)"
proof -
  let ?m = "init_relay_manager blank_manager"
  obtain i m' where m': "gen_relay (\<lambda>_. True) ?m = Some (rm_next ?m, m')" "live m' = insert i (live ?m)"
    "i = (if free_ids ?m = [] then max_item_index ?m else last (free_ids ?m))"
    by (rule gen_relay_ok [where alloc_ok = "\<lambda>_. True", OF blank_manager_ok(1)]) (simp_all add: blank_manager_ok)
  have "manager_reachable m'"
    by (rule reach_step [OF reach_init step_gen [OF _ m'(1)]]) (simp_all add: blank_manager_ok, simp add: blank_manager_def)
  then show ?thesis using manager_reachable_consistent [of m'] m' by (intro exI [of _ m']) (simp add: blank_manager_ok)
qed

text \<open>\<open>gen_relay\<close> hands out an id that is not live, the one removed last if there is one and else
  the next new one, with a fresh zeroed cell that carries it; every other relay keeps its
  pointer and data, also when the array is moved to grow it.\<close>

theorem gen_relay_fresh_id:
  assumes "manager_ok m" "items_length m \<le> 2 ^ 30" "\<forall>n. alloc_ok n"
  shows "\<exists>i m'. gen_relay alloc_ok m = Some (rm_next m, m') \<and> manager_ok m' \<and>
    i \<notin> live m \<and> live m' = insert i (live m) \<and>
    i = (if free_ids m = [] then max_item_index m else last (free_ids m)) \<and>
    item_data m' i = Some (zero_relay_data\<lparr>rd_relay_id := word_of_nat i\<rparr>) \<and>
    (\<forall>j \<in> live m. get_relay m' j = get_relay m j \<and> item_data m' j = item_data m j)"
proof -
  obtain i m' where m': "gen_relay alloc_ok m = Some (rm_next m, m')" "manager_ok m'"
    "i \<notin> live m" "live m' = insert i (live m)" "get_relay m' i = Some (rm_next m)"
    "rm_heap m' (rm_next m) = Some (zero_relay_data\<lparr>rd_relay_id := word_of_nat i\<rparr>)"
    "\<And>j. j \<in> live m \<Longrightarrow> get_relay m' j = get_relay m j \<and> item_data m' j = item_data m j"
    "i = (if free_ids m = [] then max_item_index m else last (free_ids m))"
    by (rule gen_relay_ok [where alloc_ok = alloc_ok, OF assms(1,2)]) (use assms(3) in blast)+
  have "item_data m' i = Some (zero_relay_data\<lparr>rd_relay_id := word_of_nat i\<rparr>)"
    using m'(5,6) by (simp add: item_data_def)
  then show ?thesis using m'(1-4,7,8) by blast
qed

lemma gen_relay_fresh_id_witness:
  "\<exists>m'. gen_relay (\<lambda>_. True) (init_relay_manager blank_manager) = Some (0, m') \<and> live m' = {0}"
  using gen_relay_fresh_id [OF blank_manager_ok(1), of "\<lambda>_. True"]
  by (auto simp: blank_manager_ok) (simp add: init_relay_manager_def blank_manager_def)

text \<open>\<open>remove_relay\<close> of a live id takes exactly that relay out, frees its cell, and makes its id the
  next one to be handed out; of an id in the table that is not live it changes nothing and
  returns false.\<close>

theorem remove_relay_exact:
  assumes "manager_ok m" "i < items_length m" "\<forall>n. alloc_ok n"
  shows "if i \<in> live m
    then \<exists>m'. remove_relay alloc_ok m i = Some (True, m') \<and> manager_ok m' \<and> live m' = live m - {i} \<and>
      last (free_ids m') = i \<and> rm_heap m' (the (get_relay m i)) = None \<and>
      (\<forall>j \<in> live m - {i}. get_relay m' j = get_relay m j \<and> item_data m' j = item_data m j)
    else remove_relay alloc_ok m i = Some (False, m)"
proof (cases "i \<in> live m")
  case True
  obtain m' where m': "remove_relay alloc_ok m i = Some (True, m')" "manager_ok m'"
    "live m' = live m - {i}" "free_ids m' = free_ids m @ [i]"
    "\<And>j. j \<in> live m \<Longrightarrow> j \<noteq> i \<Longrightarrow> get_relay m' j = get_relay m j \<and> item_data m' j = item_data m j"
    "rm_heap m' (the (get_relay m i)) = None"
    by (rule remove_relay_ok [where alloc_ok = alloc_ok, OF assms(1) True]) (use assms(3) in blast)+
  then show ?thesis using True by (auto intro!: exI [of _ m'])
next
  case False
  then show ?thesis using remove_relay_absent [OF assms(1,2)] by simp
qed

lemma remove_relay_exact_witness:
  "remove_relay (\<lambda>_. True) (init_relay_manager blank_manager) 1 = Some (False, init_relay_manager blank_manager)"
  using remove_relay_exact [OF blank_manager_ok(1), of 1 "\<lambda>_. True"] by (simp add: blank_manager_ok)

text \<open>An id beyond the table is not refused by \<open>remove_relay\<close>: the item is read before the id is
  compared with the length, an access outside the array, while \<open>get_relay\<close> answers NULL.\<close>

theorem remove_relay_out_of_bounds:
  assumes "manager_ok m" "items_length m \<le> i"
  shows "get_relay m i = None \<and> remove_relay alloc_ok m i = None"
  using assms by (simp add: get_relay_def remove_relay_def manager_okD)

lemma remove_relay_out_of_bounds_witness:
  "get_relay (init_relay_manager blank_manager) 2 = None \<and>
   remove_relay (\<lambda>_. True) (init_relay_manager blank_manager) 2 = None"
  by (rule remove_relay_out_of_bounds [OF blank_manager_ok(1)]) (simp add: blank_manager_ok)

lemma ring_from_all:
  assumes "s < n" shows "distinct (ring_from n s n)" "set (ring_from n s n) = {..<n}"
proof -
  show "distinct (ring_from n s n)"
    by (auto simp: ring_from_def distinct_map intro!: inj_onI dest: ring_index_inj)
  then have "card (set (ring_from n s n)) = length (ring_from n s n)" by (rule distinct_card)
  also have "\<dots> = card {..<n}" by (simp add: ring_from_def)
  finally have "card (set (ring_from n s n)) = card {..<n}" .
  then show "set (ring_from n s n) = {..<n}"
    using assms by (intro card_subset_eq) (auto simp: ring_from_def)
qed

text \<open>A batch never fails and never repeats a relay: it holds the descriptors of \<open>max\<close> different live
  relays, or of all of them when there are fewer.\<close>

theorem get_relay_batch_live:
  assumes "manager_ok m"
  shows "\<exists>js next. get_relay_batch m start n = Some (map (descriptor_at m) js, next) \<and>
    distinct js \<and> set js \<subseteq> live m \<and> length js = min n (card (live m)) \<and> next < items_length m"
proof -
  let ?N = "items_length m"
  let ?r = "ring_from ?N (start mod ?N) ?N"
  let ?js = "take n (filter (\<lambda>j. j \<in> live m) ?r)"
  have N: "0 < ?N" using manager_okD [OF assms] by simp
  note r = ring_from_all [of "start mod ?N" ?N]
  have "set (filter (\<lambda>j. j \<in> live m) ?r) = live m" using r N live_less by auto
  then have "length (filter (\<lambda>j. j \<in> live m) ?r) = card (live m)"
    using r N by (metis distinct_card distinct_filter mod_less_divisor)
  then have "length ?js = min n (card (live m))" by simp
  moreover have "distinct ?js" using r(1) N by simp
  moreover have "set ?js \<subseteq> live m" by (auto dest: in_set_takeD)
  ultimately show ?thesis
    unfolding get_relay_batch_spec [OF assms, of start n] using N
    by (intro exI conjI) (rule refl, simp_all)
qed

lemma get_relay_batch_live_witness:
  "\<exists>next. get_relay_batch (init_relay_manager blank_manager) 7 14 = Some ([], next)"
  using get_relay_batch_live [OF blank_manager_ok(1), of 7 14] by (auto simp: blank_manager_ok)

end
