(* ===== verification/Socket_Context.thy ===== *)
theory Socket_Context
  imports Encryptions
begin

text \<open>
  The directory server's table from sockets to session keys, \<open>src/server/services/socket_context.c\<close>: a
  growing array indexed by the file descriptor. As in the relay manager each function holds the
  file's mutex throughout, so the steps below happen one after the other. A \<open>key_data_t*\<close> into the
  array is the address of the array (\<open>sc_base\<close>, new after each \<open>realloc\<close>) and the index. Fields of an
  entry that were never written are \<open>None\<close>. A result \<open>None\<close> is an abort or a loop that does not end.
\<close>

definition KEY_LIST_START_SIZE :: nat where "KEY_LIST_START_SIZE = 4"

record 'd key_sock =
  ks_exists :: bool
  ks_key :: "key_data option"
  ks_data :: "'d option"

record 'd socket_context =
  sc_initialized :: bool
  socks_used :: nat
  key_list :: "'d key_sock list"
  sc_base :: nat

definition unused_entry :: "'d key_sock" where
  "unused_entry = \<lparr>ks_exists = False, ks_key = None, ks_data = None\<rparr>"

section \<open>The operations\<close>

text \<open>The cast \<open>(uint64_t)sock_fd\<close>.\<close>

definition fd_index :: "int \<Rightarrow> nat" where "fd_index fd = nat (fd mod 2 ^ 64)"

definition is_valid_socket :: "'d socket_context \<Rightarrow> int \<Rightarrow> bool" where
  "is_valid_socket c fd \<longleftrightarrow> fd_index fd < length (key_list c) \<and> ks_exists (key_list c ! fd_index fd)"

partial_function (option) resize_length :: "nat \<Rightarrow> nat \<Rightarrow> nat option" where
  "resize_length i len = (if len \<le> i then resize_length i (len * 2 mod 2 ^ 64) else Some len)"

definition resize_key_list :: "(nat \<Rightarrow> bool) \<Rightarrow> 'd socket_context \<Rightarrow> int \<Rightarrow> 'd socket_context option" where
  "resize_key_list alloc_ok c fd =
     Option.bind (resize_length (fd_index fd) (length (key_list c))) (\<lambda>len.
     if alloc_ok len
     then Some (c\<lparr>key_list := key_list c @ replicate (len - length (key_list c)) unused_entry,
                  sc_base := sc_base c + 1\<rparr>)
     else None)"

definition init_socket_context :: "'d socket_context \<Rightarrow> 'd socket_context" where
  "init_socket_context c =
     (if sc_initialized c then c
      else c\<lparr>sc_initialized := True, key_list := replicate KEY_LIST_START_SIZE unused_entry,
             sc_base := sc_base c + 1, socks_used := 0\<rparr>)"

definition add_socket ::
  "(nat \<Rightarrow> bool) \<Rightarrow> 'd socket_context \<Rightarrow> int \<Rightarrow> key_data \<Rightarrow> 'd option \<Rightarrow> (bool \<times> 'd socket_context) option" where
  "add_socket alloc_ok c fd key data =
     Option.bind (if length (key_list c) \<le> fd_index fd then resize_key_list alloc_ok c fd else Some c) (\<lambda>c.
     if ks_exists (key_list c ! fd_index fd) then Some (False, c)
     else Some (True, c\<lparr>
       key_list := (key_list c)[fd_index fd := \<lparr>ks_exists = True, ks_key = Some key, ks_data = data\<rparr>],
       socks_used := socks_used c + 1\<rparr>))"

definition assign_sock_data :: "'d socket_context \<Rightarrow> int \<Rightarrow> 'd option \<Rightarrow> bool \<times> 'd socket_context" where
  "assign_sock_data c fd data =
     (if \<not> is_valid_socket c fd then (False, c)
      else (True, c\<lparr>key_list := (key_list c)[fd_index fd := (key_list c ! fd_index fd)\<lparr>ks_data := data\<rparr>]\<rparr>))"

definition get_sock_data :: "'d socket_context \<Rightarrow> int \<Rightarrow> 'd option" where
  "get_sock_data c fd = (if is_valid_socket c fd then ks_data (key_list c ! fd_index fd) else None)"

text \<open>\<open>free_data\<close> says whether the callback is given; the last component is the data it is called on.\<close>

definition free_sock_data :: "'d socket_context \<Rightarrow> int \<Rightarrow> bool \<Rightarrow> 'd socket_context \<times> 'd option list" where
  "free_sock_data c fd free_data =
     (if \<not> free_data \<or> \<not> is_valid_socket c fd then (c, [])
      else (c\<lparr>key_list := (key_list c)[fd_index fd := (key_list c ! fd_index fd)\<lparr>ks_data := None\<rparr>]\<rparr>,
            [ks_data (key_list c ! fd_index fd)]))"

definition get_sock_key :: "'d socket_context \<Rightarrow> int \<Rightarrow> (nat \<times> nat) option" where
  "get_sock_key c fd = (if is_valid_socket c fd then Some (sc_base c, fd_index fd) else None)"

text \<open>Reading through such a pointer is defined while the array has not moved.\<close>

definition read_key :: "'d socket_context \<Rightarrow> nat \<times> nat \<Rightarrow> key_data option" where
  "read_key c p =
     (if fst p = sc_base c \<and> snd p < length (key_list c) then ks_key (key_list c ! snd p) else None)"

definition free_socket :: "'d socket_context \<Rightarrow> int \<Rightarrow> bool \<Rightarrow> 'd socket_context \<times> 'd option list" where
  "free_socket c fd free_data =
     (if \<not> is_valid_socket c fd then (c, [])
      else
        let e = key_list c ! fd_index fd
        in (c\<lparr>key_list := (key_list c)[fd_index fd := e\<lparr>ks_exists := False, ks_key := map_option free_key (ks_key e)\<rparr>],
              socks_used := socks_used c - 1\<rparr>,
            if free_data then [ks_data e] else []))"

text \<open>\<open>initialized\<close> is not reset.\<close>

definition free_socket_context :: "'d socket_context \<Rightarrow> bool \<times> 'd socket_context" where
  "free_socket_context c =
     (if socks_used c \<noteq> 0 then (False, c) else (True, c\<lparr>key_list := [], sc_base := sc_base c + 1\<rparr>))"

section \<open>The invariant\<close>

definition used_socks :: "'d socket_context \<Rightarrow> nat set" where
  "used_socks c = {i. i < length (key_list c) \<and> ks_exists (key_list c ! i)}"

definition context_ok :: "'d socket_context \<Rightarrow> bool" where
  "context_ok c \<longleftrightarrow> sc_initialized c \<and> 0 < length (key_list c) \<and> length (key_list c) \<le> 2 ^ 32 \<and>
     socks_used c = card (used_socks c) \<and>
     (\<forall>i \<in> used_socks c. ks_key (key_list c ! i) \<noteq> None)"

text \<open>The table as a finite map.\<close>

definition sock_lookup :: "'d socket_context \<Rightarrow> nat \<Rightarrow> (key_data \<times> 'd option) option" where
  "sock_lookup c i =
     (if i \<in> used_socks c then Some (the (ks_key (key_list c ! i)), ks_data (key_list c ! i)) else None)"

lemma finite_used [simp]: "finite (used_socks c)" by (simp add: used_socks_def)

lemma fd_index_valid: "0 \<le> fd \<Longrightarrow> fd < 2 ^ 31 \<Longrightarrow> fd_index fd = nat fd \<and> fd_index fd < 2 ^ 31"
  by (simp add: fd_index_def)

lemma is_valid_used: "is_valid_socket c fd \<longleftrightarrow> fd_index fd \<in> used_socks c"
  by (simp add: is_valid_socket_def used_socks_def)

section \<open>Growing\<close>

lemma resize_length_ends:
  "0 < len \<Longrightarrow> len \<le> 2 ^ 32 \<Longrightarrow> i < 2 ^ 31 \<Longrightarrow>
   \<exists>len'. resize_length i len = Some len' \<and> i < len' \<and> len \<le> len' \<and> len' \<le> 2 ^ 32"
proof (induction "2 ^ 32 - len" arbitrary: len rule: less_induct)
  case less
  show ?case
  proof (cases "len \<le> i")
    case False
    then show ?thesis using less.prems by (subst resize_length.simps) simp
  next
    case True
    have "\<exists>len'. resize_length i (2 * len) = Some len' \<and> i < len' \<and> 2 * len \<le> len' \<and> len' \<le> 2 ^ 32"
      using less.prems True by (intro less.hyps) simp_all
    then show ?thesis using less.prems True by (subst resize_length.simps) (auto simp: mult.commute)
  qed
qed

lemma resize_length_zero: "resize_length i 0 = None"
proof -
  have "len = 0 \<Longrightarrow> False" if "resize_length i len = Some y" for len y
  proof -
    have "len = 0 \<longrightarrow> False"
      by (rule resize_length.raw_induct [where P = "\<lambda>i len y. len = 0 \<longrightarrow> False", OF _ that])
         (auto split: if_splits, metis mod_0 mult_0 not_gr_zero)
    then show "len = 0 \<Longrightarrow> False" by blast
  qed
  then show ?thesis by (cases "resize_length i 0") blast+
qed

lemma resize_ok:
  assumes ok: "context_ok c" and i: "fd_index fd < 2 ^ 31" and a: "\<forall>n. alloc_ok n"
  obtains c' where
    "(if length (key_list c) \<le> fd_index fd then resize_key_list alloc_ok c fd else Some c) = Some c'"
    "context_ok c'" "fd_index fd < length (key_list c')" "sock_lookup c' = sock_lookup c"
    "used_socks c' = used_socks c"
    "sc_base c' = (if length (key_list c) \<le> fd_index fd then sc_base c + 1 else sc_base c)"
proof (cases "length (key_list c) \<le> fd_index fd")
  case False
  then show ?thesis using that [of c] ok by simp
next
  case True
  obtain len where len: "resize_length (fd_index fd) (length (key_list c)) = Some len" "fd_index fd < len"
    "length (key_list c) \<le> len" "len \<le> 2 ^ 32"
    using resize_length_ends [of "length (key_list c)" "fd_index fd"] ok i by (auto simp: context_ok_def)
  define c' where "c' = c\<lparr>key_list := key_list c @ replicate (len - length (key_list c)) unused_entry,
      sc_base := sc_base c + 1\<rparr>"
  have at: "key_list c' ! i = (if i < length (key_list c) then key_list c ! i else unused_entry)" if "i < len" for i
    using that by (simp add: c'_def nth_append)
  have "length (key_list c') = len" using len by (simp add: c'_def)
  then have u: "used_socks c' = used_socks c"
    using len by (auto simp: used_socks_def at unused_entry_def split: if_splits)
  have e: "key_list c' ! i = key_list c ! i" if "i \<in> used_socks c" for i
    using that by (simp add: used_socks_def c'_def nth_append)
  have "context_ok c'"
    using ok u e len by (simp add: context_ok_def) (simp add: c'_def)
  moreover have "sock_lookup c' = sock_lookup c" by (auto simp: sock_lookup_def u e)
  ultimately show ?thesis
    using that [of c'] True len a u by (simp add: resize_key_list_def c'_def)
qed

lemma add_socket_ok:
  assumes ok: "context_ok c" and i: "fd_index fd < 2 ^ 31" and a: "\<forall>n. alloc_ok n"
  obtains c' where
    "add_socket alloc_ok c fd key data = Some (fd_index fd \<notin> used_socks c, c')" "context_ok c'"
    "sock_lookup c' = (if fd_index fd \<in> used_socks c then sock_lookup c
                       else (sock_lookup c)(fd_index fd \<mapsto> (key, data)))"
    "sc_base c' = (if length (key_list c) \<le> fd_index fd then sc_base c + 1 else sc_base c)"
proof -
  let ?i = "fd_index fd"
  obtain c1 where c1:
    "(if length (key_list c) \<le> ?i then resize_key_list alloc_ok c fd else Some c) = Some c1"
    "context_ok c1" "?i < length (key_list c1)" "sock_lookup c1 = sock_lookup c"
    "used_socks c1 = used_socks c"
    "sc_base c1 = (if length (key_list c) \<le> ?i then sc_base c + 1 else sc_base c)"
    by (rule resize_ok [where alloc_ok = alloc_ok, OF ok i a])
  show ?thesis
  proof (cases "?i \<in> used_socks c")
    case True
    then have "ks_exists (key_list c1 ! ?i)" using c1(5) by (auto simp: used_socks_def)
    then show ?thesis using that [of c1] True c1 by (simp add: add_socket_def)
  next
    case False
    define c2 where "c2 = c1\<lparr>
       key_list := (key_list c1)[?i := \<lparr>ks_exists = True, ks_key = Some key, ks_data = data\<rparr>],
       socks_used := socks_used c1 + 1\<rparr>"
    have n: "\<not> ks_exists (key_list c1 ! ?i)" using False c1(3,5) by (auto simp: used_socks_def)
    have at: "key_list c2 ! k = (if k = ?i then \<lparr>ks_exists = True, ks_key = Some key, ks_data = data\<rparr> else key_list c1 ! k)" for k
      using c1(3) by (simp add: c2_def)
    moreover have len2: "length (key_list c2) = length (key_list c1)" by (simp add: c2_def)
    ultimately have u: "used_socks c2 = insert ?i (used_socks c1)"
      using c1(3) by (auto simp: used_socks_def)
    have "context_ok c2"
      using c1(2,5) False u at by (auto simp: context_ok_def) (simp_all add: c2_def context_ok_def)
    moreover have "sock_lookup c2 = (sock_lookup c)(?i \<mapsto> (key, data))"
      unfolding c1(4) [symmetric] by (auto simp: sock_lookup_def u at fun_eq_iff)
    ultimately show ?thesis
      using that [of c2] False c1 n by (simp add: add_socket_def c2_def)
  qed
qed

lemma free_socket_ok:
  assumes ok: "context_ok c"
  obtains c' where "free_socket c fd free_data = (c', if free_data \<and> is_valid_socket c fd then [ks_data (key_list c ! fd_index fd)] else [])"
    "context_ok c'" "sock_lookup c' = (sock_lookup c)(fd_index fd := None)" "sc_base c' = sc_base c"
proof (cases "is_valid_socket c fd")
  case False
  then show ?thesis using that [of c] ok
    by (auto simp: free_socket_def is_valid_used sock_lookup_def fun_eq_iff)
next
  case True
  let ?i = "fd_index fd"
  define e where "e = key_list c ! ?i"
  define c' where "c' = c\<lparr>key_list := (key_list c)[?i := e\<lparr>ks_exists := False, ks_key := map_option free_key (ks_key e)\<rparr>],
              socks_used := socks_used c - 1\<rparr>"
  have il: "?i \<in> used_socks c" "?i < length (key_list c)" using True by (simp_all add: is_valid_used used_socks_def)
  have at: "k \<noteq> ?i \<Longrightarrow> key_list c' ! k = key_list c ! k" for k by (simp add: c'_def)
  have "\<not> ks_exists (key_list c' ! ?i)" "length (key_list c') = length (key_list c)"
    using il by (simp_all add: c'_def)
  then have u: "used_socks c' = used_socks c - {?i}"
    using at by (auto simp: used_socks_def) metis+
  have "context_ok c'"
    using ok u at il by (auto simp: context_ok_def) (simp_all add: c'_def)
  moreover have "sock_lookup c' = (sock_lookup c)(?i := None)"
    by (auto simp: sock_lookup_def u at fun_eq_iff)
  ultimately show ?thesis
    using that [of c'] True by (simp add: free_socket_def c'_def e_def Let_def)
qed

lemma init_context_ok: "\<not> sc_initialized c \<Longrightarrow> context_ok (init_socket_context c) \<and> sock_lookup (init_socket_context c) = (\<lambda>_. None)"
  by (auto simp: init_socket_context_def context_ok_def used_socks_def unused_entry_def sock_lookup_def
      KEY_LIST_START_SIZE_def)

lemma get_sock_key_reads:
  assumes "context_ok c" "sock_lookup c (fd_index fd) = Some (key, data)"
  shows "\<exists>p. get_sock_key c fd = Some p \<and> read_key c p = Some key \<and> get_sock_data c fd = data"
proof -
  have "fd_index fd \<in> used_socks c" "key = the (ks_key (key_list c ! fd_index fd))"
    "data = ks_data (key_list c ! fd_index fd)"
    using assms(2) by (simp_all add: sock_lookup_def split: if_splits)
  then show ?thesis using assms(1)
    by (auto simp: get_sock_key_def read_key_def get_sock_data_def is_valid_used context_ok_def used_socks_def)
qed

section \<open>Properties\<close>

definition blank_context :: "unit socket_context" where
  "blank_context = \<lparr>sc_initialized = False, socks_used = 0, key_list = [], sc_base = 0\<rparr>"

lemma blank_context_ok: "context_ok (init_socket_context blank_context)"
  "used_socks (init_socket_context blank_context) = {}" "length (key_list (init_socket_context blank_context)) = 4"
  "sc_base (init_socket_context blank_context) = 1"
  using init_context_ok [of blank_context]
  by (auto simp: blank_context_def init_socket_context_def KEY_LIST_START_SIZE_def used_socks_def unused_entry_def)

text \<open>C32. The table is a finite map from sockets to keys: \<open>add_socket\<close> of any valid descriptor completes
  (the doubling ends), adds the pair exactly when the socket was not there, and the key
  pointer then handed out reads the added key; \<open>free_socket\<close> removes exactly that socket, and
  both keep the count of used entries right.\<close>

theorem socket_context_finite_map:
  assumes "context_ok c" "0 \<le> fd" "fd < 2 ^ 31" "\<forall>n. alloc_ok n"
  shows "\<exists>c'. add_socket alloc_ok c fd key data = Some (fd_index fd \<notin> used_socks c, c') \<and> context_ok c' \<and>
    sock_lookup c' = (if fd_index fd \<in> used_socks c then sock_lookup c
                      else (sock_lookup c)(fd_index fd \<mapsto> (key, data))) \<and>
    (fd_index fd \<notin> used_socks c \<longrightarrow>
      (\<exists>p. get_sock_key c' fd = Some p \<and> read_key c' p = Some key)) \<and>
    context_ok (fst (free_socket c' fd False)) \<and>
    sock_lookup (fst (free_socket c' fd False)) = (sock_lookup c)(fd_index fd := None)"
proof -
  have i: "fd_index fd < 2 ^ 31" using fd_index_valid [OF assms(2,3)] by simp
  obtain c' where c': "add_socket alloc_ok c fd key data = Some (fd_index fd \<notin> used_socks c, c')" "context_ok c'"
    "sock_lookup c' = (if fd_index fd \<in> used_socks c then sock_lookup c
                       else (sock_lookup c)(fd_index fd \<mapsto> (key, data)))"
    by (rule add_socket_ok [where alloc_ok = alloc_ok, OF assms(1) i assms(4)])
  have "\<exists>p. get_sock_key c' fd = Some p \<and> read_key c' p = Some key" if "fd_index fd \<notin> used_socks c"
    using get_sock_key_reads [OF c'(2), of fd key data] c'(3) that by auto
  moreover obtain c'' where "fst (free_socket c' fd False) = c''" "context_ok c''"
    "sock_lookup c'' = (sock_lookup c')(fd_index fd := None)"
    using free_socket_ok [OF c'(2), of fd False] by (metis fst_conv)
  ultimately show ?thesis using c' by auto
qed

lemma socket_context_finite_map_witness:
  "\<exists>c'. add_socket (\<lambda>_. True) (init_socket_context blank_context) 100 (init_key create_dh_identity_key) None =
     Some (True, c') \<and> context_ok c'"
  using socket_context_finite_map [OF blank_context_ok(1), of 100 "\<lambda>_. True"] by (auto simp: blank_context_ok)

text \<open>\<open>free_socket_context\<close> leaves the table initialised and empty, so a later
  \<open>init_socket_context\<close> does nothing and the next \<open>add_socket\<close> never returns: doubling a length
  of 0 does not reach the descriptor.\<close>

theorem socket_context_reuse_diverges:
  assumes "sc_initialized c" "free_socket_context c = (True, c')"
  shows "add_socket alloc_ok (init_socket_context c') fd key data = None"
proof -
  have "sc_initialized c'" "key_list c' = []"
    using assms by (auto simp: free_socket_context_def split: if_splits)
  then show ?thesis
    by (simp add: init_socket_context_def add_socket_def resize_key_list_def resize_length_zero)
qed

lemma socket_context_reuse_diverges_witness:
  "add_socket (\<lambda>_. True) (init_socket_context (snd (free_socket_context (init_socket_context blank_context)))) 5
     (init_key create_dh_identity_key) None = None"
proof -
  have "socks_used (init_socket_context blank_context) = 0"
    using blank_context_ok by (simp add: context_ok_def)
  then show ?thesis
    by (intro socket_context_reuse_diverges [of "init_socket_context blank_context"])
       (simp_all add: free_socket_context_def init_socket_context_def blank_context_def)
qed

text \<open>The key pointer a session keeps does not survive the growth of the table: when another
  connection adds a descriptor beyond the array, reading the key through the old pointer is an
  access to freed memory, although the session's entry is unchanged.\<close>

theorem socket_key_pointer_stale:
  assumes "context_ok c" "get_sock_key c fd = Some p" "\<forall>n. alloc_ok n"
    and "0 \<le> fd'" "fd' < 2 ^ 31" "length (key_list c) \<le> fd_index fd'"
  shows "\<exists>c'. add_socket alloc_ok c fd' key data = Some (True, c') \<and> read_key c' p = None \<and>
    sock_lookup c' (fd_index fd) = sock_lookup c (fd_index fd)"
proof -
  have i: "fd_index fd' < 2 ^ 31" using fd_index_valid [OF assms(4,5)] by simp
  have n: "fd_index fd' \<notin> used_socks c" using assms(6) by (auto simp: used_socks_def)
  have fd: "fd_index fd < length (key_list c)" and p: "p = (sc_base c, fd_index fd)"
    using assms(2) by (auto simp: get_sock_key_def is_valid_socket_def split: if_splits)
  obtain c' where "add_socket alloc_ok c fd' key data = Some (fd_index fd' \<notin> used_socks c, c')"
    "sock_lookup c' = (if fd_index fd' \<in> used_socks c then sock_lookup c
                       else (sock_lookup c)(fd_index fd' \<mapsto> (key, data)))"
    "sc_base c' = (if length (key_list c) \<le> fd_index fd' then sc_base c + 1 else sc_base c)"
    by (rule add_socket_ok [where alloc_ok = alloc_ok, OF assms(1) i assms(3)])
  then show ?thesis using n assms(6) p fd by (auto simp: read_key_def)
qed

lemma socket_key_pointer_stale_witness:
  "\<exists>c :: unit socket_context. \<exists>p c'. get_sock_key c 3 = Some p \<and>
     add_socket (\<lambda>_. True) c 9 (init_key create_dh_identity_key) None = Some (True, c') \<and>
     read_key c' p = None"
proof -
  let ?k = "init_key create_dh_identity_key"
  obtain c where c: "add_socket (\<lambda>_. True) (init_socket_context blank_context) 3 ?k None = Some (True, c)" "context_ok c"
    by (rule add_socket_ok [where alloc_ok = "\<lambda>_. True", OF blank_context_ok(1), of 3 ?k None])
       (simp_all add: fd_index_def blank_context_ok)
  have l: "length (key_list c) = 4"
    using c(1) blank_context_ok(3) by (auto simp: add_socket_def fd_index_def split: if_splits)
  have "sock_lookup c 3 \<noteq> None"
    using c(1) blank_context_ok(3) by (auto simp: add_socket_def fd_index_def sock_lookup_def used_socks_def split: if_splits)
  then obtain p where p: "get_sock_key c 3 = Some p"
    by (auto simp: get_sock_key_def is_valid_used sock_lookup_def fd_index_def split: if_splits)
  obtain c' where "add_socket (\<lambda>_. True) c 9 ?k None = Some (True, c')" "read_key c' p = None"
    using socket_key_pointer_stale [OF c(2) p, of "\<lambda>_. True" 9 ?k None] l by (auto simp: fd_index_def)
  then show ?thesis using p by blast
qed

end
