(* ===== verification/Net.thy ===== *)
theory Net
  imports Encryptions Protocol
begin

text \<open>
  Sockets, and the messages exchanged with the directory server: \<open>src/server/net\<close>, and the directory
  part of \<open>src/client/net\<close> and \<open>src/relay/net\<close>.

  The operating system's side is the record \<open>net\<close>: for each descriptor the chunks that successive
  \<open>read\<close> calls find (none left, or an empty one, is a result of 0 or less) and whether a \<open>send\<close> goes
  out whole; for the coming connection attempts the descriptor \<open>socket\<close> gives and whether \<open>connect\<close>
  succeeds; the clock; and the log of the addresses dialled and of what was sent and closed. A \<open>read\<close> that finds less than was asked for leaves the rest of the buffer as it was, and the
  code does not ask again.
\<close>

record net =
  net_in :: "int \<Rightarrow> bytes list"
  net_ok :: "int \<Rightarrow> bool"
  net_connects :: "(int \<times> bool) list"
  net_dialed :: "(bytes \<times> nat) list"
  net_time :: u64
  net_out :: "(int \<times> bytes) list"
  net_closed :: "int list"

definition read_fd :: "int \<Rightarrow> nat \<Rightarrow> net \<Rightarrow> bytes option \<times> net" where
  "read_fd fd n s =
     (case net_in s fd of
        [] \<Rightarrow> (None, s)
      | c # cs \<Rightarrow>
          if c = [] then (None, s\<lparr>net_in := (net_in s)(fd := cs)\<rparr>)
          else (Some (take n c),
                s\<lparr>net_in := (net_in s)(fd := (if n < length c then drop n c # cs else cs))\<rparr>))"

definition send_fd :: "int \<Rightarrow> bytes \<Rightarrow> net \<Rightarrow> bool \<times> net" where
  "send_fd fd data s =
     (if net_ok s fd then (True, s\<lparr>net_out := net_out s @ [(fd, data)]\<rparr>) else (False, s))"

definition close_fd :: "int \<Rightarrow> net \<Rightarrow> net" where
  "close_fd fd s = s\<lparr>net_closed := net_closed s @ [fd]\<rparr>"

text \<open>
  An address of the protocol as the \<open>sockaddr_storage\<close> of Linux (128 bytes) and its length, with the
  numbers Linux gives the address families. Client and relay have the same function.
\<close>

definition AF_INET :: u8 where "AF_INET = 2"
definition AF_INET6 :: u8 where "AF_INET6 = 10"

definition sockaddr_to_unix :: "sock_addr \<Rightarrow> bytes \<times> nat" where
  "sockaddr_to_unix a =
     (let storage = replicate 128 0
      in if sa_family a = AF_INET then
           (splice 4 (take 4 (sa_addr a)) (splice 2 (le16_bytes (sa_port a)) (splice 0 (le16_bytes (ucast AF_INET)) storage)), 16)
         else if sa_family a = AF_INET6 then
           (splice 8 (take 16 (sa_addr a)) (splice 2 (le16_bytes (sa_port a)) (splice 0 (le16_bytes (ucast AF_INET6)) storage)), 28)
         else (storage, 0))"

text \<open>
  \<open>connect_server_by_sockaddr\<close> (\<open>src/utils/sock_utils\<close>): -1 when there is no socket or no connection.
\<close>

definition connect_server_by_sockaddr :: "bytes \<Rightarrow> nat \<Rightarrow> net \<Rightarrow> int \<times> net" where
  "connect_server_by_sockaddr addr addr_len s =
     (case net_connects s of
        [] \<Rightarrow> (-1, s)
      | (sock, connected) # rest \<Rightarrow>
          let s = s\<lparr>net_connects := rest\<rparr>
          in if sock = -1 then (-1, s)
             else
               let s = s\<lparr>net_dialed := net_dialed s @ [(addr, addr_len)]\<rparr>
               in if \<not> connected then (-1, close_fd sock s) else (sock, s))"

text \<open>\<open>read(fd, buffer, sizeof buffer)\<close> and the test of its count that all callers make.\<close>

definition read_buffer :: "int \<Rightarrow> bytes \<Rightarrow> net \<Rightarrow> bool \<times> bytes \<times> net" where
  "read_buffer fd buffer s =
     (case read_fd fd (length buffer) s of
        (None, s) \<Rightarrow> (False, buffer, s)
      | (Some data, s) \<Rightarrow> (True, splice 0 data buffer, s))"

section \<open>Nonblocking sockets\<close>

text \<open>
  \<open>fcntl\<close> of Linux on the status flags of open descriptors: \<open>F_GETFL\<close> gives the flags, or -1 when the descriptor
  is not open, and \<open>F_SETFL\<close> sets those that may change (\<open>O_APPEND\<close>, \<open>O_NONBLOCK\<close>, \<open>O_ASYNC\<close>, \<open>O_DIRECT\<close>, \<open>O_NOATIME\<close>).
\<close>

definition O_NONBLOCK :: u32 where "O_NONBLOCK = 0x800"
definition settable_flags :: u32 where "settable_flags = 0x46C00"

definition fcntl_getfl :: "(int \<Rightarrow> u32 option) \<Rightarrow> int \<Rightarrow> u32" where
  "fcntl_getfl files fd = (case files fd of None \<Rightarrow> - 1 | Some flags \<Rightarrow> flags)"

definition fcntl_setfl :: "(int \<Rightarrow> u32 option) \<Rightarrow> int \<Rightarrow> u32 \<Rightarrow> int \<Rightarrow> u32 option" where
  "fcntl_setfl files fd arg =
     (case files fd of
        None \<Rightarrow> files
      | Some flags \<Rightarrow> files(fd \<mapsto> (flags AND NOT settable_flags) OR (arg AND settable_flags)))"

definition set_socket_nonblock :: "(int \<Rightarrow> u32 option) \<Rightarrow> int \<Rightarrow> int \<Rightarrow> u32 option" where
  "set_socket_nonblock files fd = fcntl_setfl files fd (fcntl_getfl files fd OR O_NONBLOCK)"

text \<open>It adds the one flag to the one descriptor; on a descriptor that is not open it does nothing.\<close>

lemma set_socket_nonblock_adds:
  "set_socket_nonblock files fd = files(fd := map_option (\<lambda>flags. flags OR O_NONBLOCK) (files fd))"
proof (cases "files fd")
  case None
  then show ?thesis by (auto simp: set_socket_nonblock_def fcntl_setfl_def)
next
  case (Some flags)
  have "O_NONBLOCK AND settable_flags = O_NONBLOCK" by (simp add: O_NONBLOCK_def settable_flags_def)
  then have "bit O_NONBLOCK i \<Longrightarrow> bit settable_flags i" for i by (metis bit_and_iff)
  then have "(flags AND NOT settable_flags) OR ((flags OR O_NONBLOCK) AND settable_flags) = flags OR O_NONBLOCK"
    by (intro bit_word_eqI) (auto simp: bit_and_iff bit_or_iff bit_not_iff)
  then show ?thesis using Some by (simp add: set_socket_nonblock_def fcntl_setfl_def fcntl_getfl_def)
qed

section \<open>Messages of the directory protocol\<close>

definition recv_server_msg :: "int \<Rightarrow> bytes \<Rightarrow> net \<Rightarrow> bool \<times> bytes \<times> net" where
  "recv_server_msg fd buffer s = read_buffer fd buffer s"

definition recv_enc_server_msg :: "int \<Rightarrow> bytes \<Rightarrow> key_data \<Rightarrow> net \<Rightarrow> bool \<times> bytes \<times> net" where
  "recv_enc_server_msg fd buffer key s =
     (case read_buffer fd buffer s of
        (False, buffer, s) \<Rightarrow> (False, buffer, s)
      | (True, buffer, s) \<Rightarrow> (True, symmetric_decrypt key buffer SERVER_MSG_SIZE, s))"

definition send_server_msg :: "int \<Rightarrow> bytes \<Rightarrow> net \<Rightarrow> bool \<times> bytes \<times> net" where
  "send_server_msg fd data s =
     (let buffer = splice 0 data (replicate SERVER_MSG_SIZE 0);
          (ok, s) = send_fd fd buffer s
      in (ok, buffer, s))"

definition send_enc_server_msg :: "int \<Rightarrow> bytes \<Rightarrow> key_data \<Rightarrow> net \<Rightarrow> bool \<times> bytes \<times> net" where
  "send_enc_server_msg fd data key s =
     (let buffer = splice 0 data (replicate SERVER_MSG_SIZE 0);
          buffer = symmetric_encrypt key buffer SERVER_MSG_SIZE;
          (ok, s) = send_fd fd buffer s
      in (ok, buffer, s))"

subsection \<open>The server's side\<close>

definition recv_handshake_request ::
  "int \<Rightarrow> bytes \<Rightarrow> net \<Rightarrow> bool \<times> server_handshake_request \<times> bytes \<times> net" where
  "recv_handshake_request fd buffer s =
     (case recv_server_msg fd buffer s of
        (False, buffer, s) \<Rightarrow> (False, handshake_request_of buffer, buffer, s)
      | (True, buffer, s) \<Rightarrow>
          let req = handshake_request_of buffer
          in (hr_version req = 1 \<and>
              (hr_user_type req = prot_user_type_client \<or> hr_user_type req = prot_user_type_relay),
              req, buffer, s))"

definition recv_handshake_client_key :: "int \<Rightarrow> bytes \<Rightarrow> net \<Rightarrow> bool \<times> bytes \<times> bytes \<times> net" where
  "recv_handshake_client_key fd buffer s =
     (case recv_server_msg fd buffer s of
        (False, buffer, s) \<Rightarrow> (False, [], buffer, s)
      | (True, buffer, s) \<Rightarrow> (True, slice 0 256 buffer, buffer, s))"

text \<open>\<open>g\<close> and \<open>p\<close> are the server's \<open>encryption_globals\<close>, \<open>pubkey\<close> the export of its identity key.\<close>

definition send_handshake_response :: "u64 \<Rightarrow> bytes \<Rightarrow> bytes \<Rightarrow> int \<Rightarrow> net \<Rightarrow> bool \<times> bytes \<times> net" where
  "send_handshake_response g p pubkey fd s =
     send_server_msg fd (handshake_response_bytes \<lparr>hs_g = g, hs_p = p, hs_server_pubkey = pubkey\<rparr>) s"

definition send_handshake_confirmation :: "int \<Rightarrow> key_data \<Rightarrow> u32 \<Rightarrow> net \<Rightarrow> bool \<times> bytes \<times> net" where
  "send_handshake_confirmation fd key i s =
     send_enc_server_msg fd (confirmation_bytes
       \<lparr>hc_magic = SERVER_HANDSHAKE_V1_MAGIC, hc_assigned_id = i, hc_timestamp = net_time s\<rparr>) key s"

definition response_base :: "u16 \<Rightarrow> u32 \<Rightarrow> net \<Rightarrow> server_response_base" where
  "response_base command code s =
     \<lparr>rb_timestamp = net_time s, rb_response_code = code, rb_command = command\<rparr>"

definition send_enc_relay_signup_response ::
  "int \<Rightarrow> key_data \<Rightarrow> u32 \<Rightarrow> u32 \<Rightarrow> net \<Rightarrow> bool \<times> bytes \<times> net" where
  "send_enc_relay_signup_response fd key code i s =
     send_enc_server_msg fd (signup_response_bytes (response_base RELAY_COMMAND_SIGNUP code s) (ucast i)) key s"

definition send_enc_relay_signout_response :: "int \<Rightarrow> key_data \<Rightarrow> u32 \<Rightarrow> net \<Rightarrow> bool \<times> bytes \<times> net" where
  "send_enc_relay_signout_response fd key code s =
     send_enc_server_msg fd (response_base_bytes (response_base RELAY_COMMAND_SIGNOUT code s)) key s"

definition send_enc_relay_exit_response :: "int \<Rightarrow> key_data \<Rightarrow> u32 \<Rightarrow> net \<Rightarrow> bool \<times> bytes \<times> net" where
  "send_enc_relay_exit_response fd key code s =
     send_enc_server_msg fd (response_base_bytes (response_base RELAY_COMMAND_EXIT code s)) key s"

text \<open>All 14 descriptors of the list are copied, whatever \<open>amount\<close> is.\<close>

definition send_enc_client_relay_map ::
  "int \<Rightarrow> key_data \<Rightarrow> u16 \<Rightarrow> relay_descriptor list \<Rightarrow> u32 \<Rightarrow> net \<Rightarrow> bool \<times> bytes \<times> net" where
  "send_enc_client_relay_map fd key amount relays code s =
     send_enc_server_msg fd
       (map_response_bytes (response_base CLIENT_COMMAND_GET_RELAY_MAP code s) amount relays) key s"

definition send_enc_client_exit :: "int \<Rightarrow> key_data \<Rightarrow> u32 \<Rightarrow> net \<Rightarrow> bool \<times> bytes \<times> net" where
  "send_enc_client_exit fd key code s =
     send_enc_server_msg fd (response_base_bytes (response_base CLIENT_COMMAND_EXIT code s)) key s"

subsection \<open>The side of the client and the relays\<close>

definition client_send_server_handshake_req :: "int \<Rightarrow> net \<Rightarrow> bool \<times> bytes \<times> net" where
  "client_send_server_handshake_req fd s =
     send_server_msg fd (handshake_request_bytes
       \<lparr>hr_version = 1, hr_user_type = prot_user_type_client, hr_flags = 0\<rparr>) s"

definition relay_send_server_handshake_req :: "int \<Rightarrow> net \<Rightarrow> bool \<times> bytes \<times> net" where
  "relay_send_server_handshake_req fd s =
     send_server_msg fd (handshake_request_bytes
       \<lparr>hr_version = 1, hr_user_type = prot_user_type_relay, hr_flags = 0\<rparr>) s"

definition send_server_handshake_key :: "int \<Rightarrow> bytes \<Rightarrow> net \<Rightarrow> bool \<times> bytes \<times> net" where
  "send_server_handshake_key fd pubkey s = send_server_msg fd pubkey s"

definition send_server_relay_map_req :: "int \<Rightarrow> key_data \<Rightarrow> net \<Rightarrow> bool \<times> bytes \<times> net" where
  "send_server_relay_map_req fd key s = send_enc_server_msg fd (le16_bytes CLIENT_COMMAND_GET_RELAY_MAP) key s"

definition client_send_server_exit_req :: "int \<Rightarrow> key_data \<Rightarrow> net \<Rightarrow> bool \<times> bytes \<times> net" where
  "client_send_server_exit_req fd key s = send_enc_server_msg fd (le16_bytes CLIENT_COMMAND_EXIT) key s"

definition relay_send_server_exit_req :: "int \<Rightarrow> key_data \<Rightarrow> net \<Rightarrow> bool \<times> bytes \<times> net" where
  "relay_send_server_exit_req fd key s = send_enc_server_msg fd (le16_bytes RELAY_COMMAND_EXIT) key s"

definition send_server_signup_req :: "int \<Rightarrow> key_data \<Rightarrow> sock_addr \<Rightarrow> net \<Rightarrow> bool \<times> bytes \<times> net" where
  "send_server_signup_req fd key addr s = send_enc_server_msg fd (signup_request_bytes addr) key s"

definition send_server_signout_req :: "int \<Rightarrow> key_data \<Rightarrow> u32 \<Rightarrow> net \<Rightarrow> bool \<times> bytes \<times> net" where
  "send_server_signout_req fd key i s = send_enc_server_msg fd (signout_request_bytes i) key s"

definition recv_server_handshake_res ::
  "int \<Rightarrow> bytes \<Rightarrow> net \<Rightarrow> server_handshake_response option \<times> bytes \<times> net" where
  "recv_server_handshake_res fd buffer s =
     (case recv_server_msg fd buffer s of
        (False, buffer, s) \<Rightarrow> (None, buffer, s)
      | (True, buffer, s) \<Rightarrow> (Some (handshake_response_of buffer), buffer, s))"

definition recv_server_handshake_confirmation ::
  "int \<Rightarrow> bytes \<Rightarrow> key_data \<Rightarrow> net \<Rightarrow> server_handshake_confirmation option \<times> bytes \<times> net" where
  "recv_server_handshake_confirmation fd buffer key s =
     (case recv_enc_server_msg fd buffer key s of
        (False, buffer, s) \<Rightarrow> (None, buffer, s)
      | (True, buffer, s) \<Rightarrow> (Some (confirmation_of buffer), buffer, s))"

text \<open>The 64-bit id of the response is cut to 32 bits.\<close>

definition recv_server_signup_res :: "int \<Rightarrow> bytes \<Rightarrow> key_data \<Rightarrow> net \<Rightarrow> u32 option \<times> bytes \<times> net" where
  "recv_server_signup_res fd buffer key s =
     (case recv_enc_server_msg fd buffer key s of
        (False, buffer, s) \<Rightarrow> (None, buffer, s)
      | (True, buffer, s) \<Rightarrow> (Some (ucast (signup_response_id buffer)), buffer, s))"

definition recv_server_signout_res :: "int \<Rightarrow> bytes \<Rightarrow> key_data \<Rightarrow> net \<Rightarrow> bool \<times> bytes \<times> net" where
  "recv_server_signout_res fd buffer key s = recv_enc_server_msg fd buffer key s"

definition recv_server_exit_res :: "int \<Rightarrow> bytes \<Rightarrow> key_data \<Rightarrow> net \<Rightarrow> bool \<times> bytes \<times> net" where
  "recv_server_exit_res fd buffer key s = recv_enc_server_msg fd buffer key s"

definition recv_server_relay_map_res ::
  "int \<Rightarrow> bytes \<Rightarrow> key_data \<Rightarrow> net \<Rightarrow> (u16 \<times> relay_descriptor list) option \<times> bytes \<times> net" where
  "recv_server_relay_map_res fd buffer key s =
     (case recv_enc_server_msg fd buffer key s of
        (False, buffer, s) \<Rightarrow> (None, buffer, s)
      | (True, buffer, s) \<Rightarrow>
          (Some (map_response_amount buffer, map (map_response_relay buffer) [0..<SERVER_RELAYS_MAP_AMOUNT]),
           buffer, s))"

section \<open>Delivery\<close>

text \<open>Sending puts one whole buffer on the wire, or nothing; receiving it whole gives the bytes sent.\<close>

lemma SERVER_SIZES [simp]: "SERVER_MSG_SIZE = 4096" "SERVER_RELAYS_MAP_AMOUNT = 14"
  by (simp_all add: SERVER_MSG_SIZE_def SERVER_RELAYS_MAP_AMOUNT_def)

definition padded_msg :: "bytes \<Rightarrow> bytes" where
  "padded_msg data = data @ replicate (SERVER_MSG_SIZE - length data) 0"

lemma length_padded_msg [simp, len_simps]: "length data \<le> 4096 \<Longrightarrow> length (padded_msg data) = 4096"
  by (simp add: padded_msg_def)

lemma splice_padded: "length data \<le> 4096 \<Longrightarrow> splice 0 data (replicate 4096 0) = padded_msg data"
  by (simp add: splice_def padded_msg_def)

lemma whole_block_roundtrip:
  assumes "length data = 16 * q" "symmetric_key k' = symmetric_key k"
  shows "symmetric_decrypt k' (symmetric_encrypt k data (length data)) (length data) = data"
    "length (symmetric_encrypt k data (length data)) = length data"
proof -
  let ?e = "ecb (\<lambda>b. aes_encrypt128 b (symmetric_key k)) data"
  have "symmetric_decrypt k' ?e (length ?e) = ecb (\<lambda>b. aes_decrypt128 b (symmetric_key k)) ?e"
    by (simp only: symmetric_decrypt_ecb assms(2))
  then show "symmetric_decrypt k' (symmetric_encrypt k data (length data)) (length data) = data"
    using aes.ecb_inverse [OF assms(1), of "symmetric_key k"] by (simp add: symmetric_encrypt_ecb)
  show "length (symmetric_encrypt k data (length data)) = length data"
    by (simp add: symmetric_encrypt_ecb)
qed

lemma read_buffer_whole:
  "net_in s fd = msg # rest \<Longrightarrow> length msg = length buffer \<Longrightarrow> msg \<noteq> [] \<Longrightarrow>
   read_buffer fd buffer s = (True, msg, s\<lparr>net_in := (net_in s)(fd := rest)\<rparr>)"
  by (simp add: read_buffer_def read_fd_def splice_def)

lemma send_enc_server_msg_out:
  assumes "length data \<le> 4096" "net_ok s fd"
  shows "send_enc_server_msg fd data key s =
    (True, symmetric_encrypt key (padded_msg data) 4096,
     s\<lparr>net_out := net_out s @ [(fd, symmetric_encrypt key (padded_msg data) 4096)]\<rparr>)"
  using assms by (simp add: send_enc_server_msg_def splice_padded send_fd_def Let_def)

lemma send_server_msg_out:
  assumes "length data \<le> 4096" "net_ok s fd"
  shows "send_server_msg fd data s = (True, padded_msg data, s\<lparr>net_out := net_out s @ [(fd, padded_msg data)]\<rparr>)"
  using assms by (simp add: send_server_msg_def splice_padded send_fd_def Let_def)

text \<open>An encrypted message read whole by the holder of the same key is the padded plain message.\<close>

lemma recv_enc_server_msg_whole:
  assumes "length data \<le> 4096" "symmetric_key k' = symmetric_key k" "length buffer = 4096"
    and "net_in s fd = symmetric_encrypt k (padded_msg data) 4096 # rest"
  shows "recv_enc_server_msg fd buffer k' s = (True, padded_msg data, s\<lparr>net_in := (net_in s)(fd := rest)\<rparr>)"
proof -
  have l: "length (padded_msg data) = 16 * 256" using assms(1) by simp
  note r = whole_block_roundtrip [OF l assms(2)]
  have "symmetric_encrypt k (padded_msg data) 4096 \<noteq> []"
    using r(2) assms(1) by auto
  then show ?thesis
    using r assms(1,3) read_buffer_whole [OF assms(4)] by (simp add: recv_enc_server_msg_def)
qed

lemma length_map_response:
  assumes "\<forall>d \<in> set ds. descriptor_ok d"
  shows "length (map_response_bytes r n ds) = 16 + length ds * 276"
  using assms by (simp add: map_response_bytes_def length_concat comp_def sum_list_triv cong: map_cong)

lemma map_read_back:
  assumes "length ds = 14" "\<forall>d \<in> set ds. descriptor_ok d"
  shows "length (map_response_bytes r n ds) \<le> 4096" "map_response_amount (padded_msg (map_response_bytes r n ds)) = n"
    "map (map_response_relay (padded_msg (map_response_bytes r n ds))) [0..<14] = ds"
proof -
  show "length (map_response_bytes r n ds) \<le> 4096" using length_map_response [OF assms(2)] assms(1) by simp
  show "map_response_amount (padded_msg (map_response_bytes r n ds)) = n"
    using map_response_roundtrip(1) [OF assms(2), of 0] assms(1) unfolding padded_msg_def by simp
  have "i < 14 \<Longrightarrow> map_response_relay (padded_msg (map_response_bytes r n ds)) i = ds ! i" for i
    using map_response_roundtrip(2) [OF assms(2)] assms(1) unfolding padded_msg_def by auto
  then show "map (map_response_relay (padded_msg (map_response_bytes r n ds))) [0..<14] = ds"
    using assms(1) by (intro nth_equalityI) auto
qed

section \<open>Properties\<close>

text \<open>The relay map travels intact: what \<open>send_enc_client_relay_map\<close> puts on the wire fits one
  server message, and read whole by a client with the same session key it gives back the amount
  and every one of the 14 descriptors.\<close>

theorem relay_map_delivered:
  assumes "length ds = SERVER_RELAYS_MAP_AMOUNT" "\<forall>d \<in> set ds. descriptor_ok d" "net_ok s fd"
    and "symmetric_key k' = symmetric_key k" "length buffer = SERVER_MSG_SIZE"
  shows "\<exists>wire s'. send_enc_client_relay_map fd k amount ds code s = (True, wire, s') \<and>
    net_out s' = net_out s @ [(fd, wire)] \<and> length wire = SERVER_MSG_SIZE \<and>
    (\<forall>c fd' rest. net_in c fd' = wire # rest \<longrightarrow>
      fst (recv_server_relay_map_res fd' buffer k' c) = Some (amount, ds))"
proof -
  let ?data = "map_response_bytes (response_base CLIENT_COMMAND_GET_RELAY_MAP code s) amount ds"
  let ?wire = "symmetric_encrypt k (padded_msg ?data) 4096"
  have d: "length ds = 14" using assms(1) by simp
  note m = map_read_back [OF d assms(2), of "response_base CLIENT_COMMAND_GET_RELAY_MAP code s" amount]
  note l = m(1)
  have lw: "length ?wire = 4096"
    using whole_block_roundtrip(2) [of "padded_msg ?data" 256 k k] l by simp
  have "fst (recv_server_relay_map_res fd' buffer k' c) = Some (amount, ds)"
    if "net_in c fd' = ?wire # rest" for c fd' rest
    using recv_enc_server_msg_whole [OF l assms(4) _ that] assms(5) m(2,3)
    by (simp add: recv_server_relay_map_res_def)
  then show ?thesis
    using send_enc_server_msg_out [OF l assms(3), of k] lw by (auto simp: send_enc_client_relay_map_def)
qed

definition quiet_net :: net where
  "quiet_net = \<lparr>net_in = (\<lambda>_. []), net_ok = (\<lambda>_. True), net_connects = [], net_dialed = [], net_time = 0, net_out = [], net_closed = []\<rparr>"

definition zero_descriptor :: relay_descriptor where
  "zero_descriptor = \<lparr>rd_sock_addr = \<lparr>sa_family = 0, sa_protocol = 0, sa_addr = replicate 16 0, sa_port = 0\<rparr>,
     rd_public_key = replicate 256 0\<rparr>"

lemma zero_descriptor_ok [simp]: "descriptor_ok zero_descriptor"
  by (simp add: descriptor_ok_def sock_addr_ok_def zero_descriptor_def)

lemma relay_map_delivered_witness:
  "\<exists>wire s'. send_enc_client_relay_map 4 (init_key create_dh_identity_key) 0 (replicate 14 zero_descriptor) 0
       quiet_net = (True, wire, s') \<and>
     fst (recv_server_relay_map_res 5 (replicate 4096 9) (init_key create_dh_identity_key)
       (quiet_net\<lparr>net_in := (\<lambda>_. [wire])\<rparr>)) = Some (0, replicate 14 zero_descriptor)"
  using relay_map_delivered [of "replicate 14 zero_descriptor" quiet_net 4 "init_key create_dh_identity_key"
      "init_key create_dh_identity_key" "replicate 4096 9" 0 0]
  by (fastforce simp: quiet_net_def)

text \<open>A short read passes for a message: whenever some bytes arrive, fewer than the 4096 of a message,
  the receiver reports success with the tail of the buffer left from before.\<close>

theorem short_read_accepted:
  assumes "net_in s fd = c # rest" "c \<noteq> []" "length c < length buffer"
  shows "\<exists>s'. recv_server_msg fd buffer s = (True, c @ drop (length c) buffer, s') \<and> net_in s' fd = rest"
  using assms by (simp add: recv_server_msg_def read_buffer_def read_fd_def splice_def)

lemma short_read_accepted_witness:
  "\<exists>s'. recv_server_msg 3 (replicate 4096 0) (quiet_net\<lparr>net_in := (\<lambda>_. [[7], [8]])\<rparr>) =
     (True, [7] @ drop 1 (replicate 4096 0), s') \<and> net_in s' 3 = [[8]]"
  using short_read_accepted [of "quiet_net\<lparr>net_in := (\<lambda>_. [[7], [8]])\<rparr>" 3 "[7]" "[[8]]" "replicate 4096 0"]
  by simp

end
