(* ===== verification/Server.thy ===== *)
theory Server
  imports Net Relay_Manager Socket_Context
begin

text \<open>
  The directory server's sessions: \<open>src/server/handlers\<close> and \<open>client_callback\<close> of
  \<open>src/server/core/server.c\<close>, over the relay table, the key table and the sockets. Handling one message is
  one step; sessions of other threads run between the steps of this one and share the two
  tables. A session keeps pointers across its steps: \<open>relay_data\<close>, the address of its relay's cell or
  \<open>NULL\<close>, and \<open>key\<close>, into the key table. \<open>None\<close> is an abort or an access through a pointer that is no
  longer valid.
\<close>

record server =
  sv_manager :: relay_manager
  sv_context :: "unit socket_context"
  sv_net :: net

text \<open>What does not change while the server runs: the crypto globals and the server's identity key, the
  allocator, and the contents of local arrays before they are written.\<close>

record server_env =
  se_gmp :: gmp
  se_globals :: dh_globals
  se_g :: u64
  se_p :: bytes
  se_identity :: identity_key
  se_alloc :: "nat \<Rightarrow> bool"
  se_junk_key :: bytes
  se_junk_hash :: bytes
  se_junk_relays :: "relay_descriptor list"

text \<open>Running a network operation on the server's sockets.\<close>

definition on_net :: "(net \<Rightarrow> 'a \<times> bytes \<times> net) \<Rightarrow> server \<Rightarrow> 'a \<times> bytes \<times> server" where
  "on_net f sv = (let (r, buffer, s) = f (sv_net sv) in (r, buffer, sv\<lparr>sv_net := s\<rparr>))"

type_synonym relay_step = "(bool \<times> nat option \<times> bytes \<times> server) option"

section \<open>The relay handler\<close>

definition handle_signup ::
  "server_env \<Rightarrow> int \<Rightarrow> nat option \<Rightarrow> key_data \<Rightarrow> bytes \<Rightarrow> server \<Rightarrow> relay_step" where
  "handle_signup E fd relay_data key buffer sv =
     (if relay_data \<noteq> None then Some (False, relay_data, buffer, sv)
      else
        let addr = signup_request_addr buffer in
        Option.bind (gen_relay (se_alloc E) (sv_manager sv)) (\<lambda>(a, m).
        Option.bind (rm_heap m a) (\<lambda>d.
        Option.bind (get_other_public_key (se_gmp E) key (rd_public_key (rd_descriptor d))) (\<lambda>pk.
        let m = m\<lparr>rm_heap := (rm_heap m)(a \<mapsto>
              d\<lparr>rd_descriptor := \<lparr>rd_sock_addr = addr, rd_public_key = pk\<rparr>\<rparr>)\<rparr>;
            (ok, buffer, sv) = on_net (send_enc_relay_signup_response fd key server_response_success (rd_relay_id d))
                                 (sv\<lparr>sv_manager := m\<rparr>)
        in Some (ok, Some a, buffer, sv)))))"

definition handle_signout ::
  "server_env \<Rightarrow> int \<Rightarrow> nat option \<Rightarrow> key_data \<Rightarrow> bytes \<Rightarrow> server \<Rightarrow> relay_step" where
  "handle_signout E fd relay_data key buffer sv =
     (case relay_data of
        Some a \<Rightarrow>
          Option.bind (rm_heap (sv_manager sv) a) (\<lambda>d.
          Option.bind (remove_relay (se_alloc E) (sv_manager sv) (unat (rd_relay_id d))) (\<lambda>(_, m).
          let (ok, buffer, sv) = on_net (send_enc_relay_signout_response fd key server_response_success)
                                   (sv\<lparr>sv_manager := m\<rparr>)
          in Some (ok, None, buffer, sv)))
      | None \<Rightarrow>
          (case get_relay (sv_manager sv) (unat (signout_request_id buffer)) of
             None \<Rightarrow>
               let (ok, buffer, sv) = on_net (send_enc_relay_signout_response fd key server_response_base_error) sv
               in Some (ok, None, buffer, sv)
           | Some a \<Rightarrow>
               Option.bind (get_other_public_key (se_gmp E) key (se_junk_key E)) (\<lambda>true_public_key.
               Option.bind (rm_heap (sv_manager sv) a) (\<lambda>d.
               if rd_public_key (rd_descriptor d) \<noteq> true_public_key then
                 let (ok, buffer, sv) = on_net (send_enc_relay_signout_response fd key server_response_base_error) sv
                 in Some (ok, Some a, buffer, sv)
               else
                 Option.bind (remove_relay (se_alloc E) (sv_manager sv) (unat (rd_relay_id d))) (\<lambda>(_, m).
                 let (ok, buffer, sv) = on_net (send_enc_relay_signout_response fd key server_response_success)
                                          (sv\<lparr>sv_manager := m\<rparr>)
                 in Some (ok, None, buffer, sv))))))"

definition relay_handle_exit :: "int \<Rightarrow> key_data \<Rightarrow> server \<Rightarrow> relay_step" where
  "relay_handle_exit fd key sv =
     (let (ok, buffer, sv) = on_net (send_enc_relay_exit_response fd key server_response_success) sv
      in Some (ok, None, buffer, sv))"

text \<open>The result adds \<open>running\<close>.\<close>

definition relay_handle_message ::
  "server_env \<Rightarrow> int \<Rightarrow> nat option \<Rightarrow> nat \<times> nat \<Rightarrow> bytes \<Rightarrow> server \<Rightarrow>
   (bool \<times> bool \<times> nat option \<times> bytes \<times> server) option" where
  "relay_handle_message E fd relay_data keyp buffer sv =
     Option.bind (read_key (sv_context sv) keyp) (\<lambda>key.
     case on_net (recv_enc_server_msg fd buffer key) sv of
       (False, buffer, sv) \<Rightarrow> Some (False, True, relay_data, buffer, sv)
     | (True, buffer, sv) \<Rightarrow>
         let command = get16 0 buffer in
         if command = RELAY_COMMAND_SIGNUP then
           map_option (\<lambda>(r, x). (r, True, x)) (handle_signup E fd relay_data key buffer sv)
         else if command = RELAY_COMMAND_SIGNOUT then
           map_option (\<lambda>(r, x). (r, True, x)) (handle_signout E fd relay_data key buffer sv)
         else if command = RELAY_COMMAND_EXIT then
           map_option (\<lambda>(r, x). (r, False, x)) (relay_handle_exit fd key sv)
         else Some (False, True, relay_data, buffer, sv))"

definition end_session :: "int \<Rightarrow> server \<Rightarrow> server" where
  "end_session fd sv =
     sv\<lparr>sv_context := fst (free_socket (sv_context sv) fd False), sv_net := close_fd fd (sv_net sv)\<rparr>"

text \<open>The loop of \<open>process_relay\<close>; the result is \<open>handler_success\<close> or \<open>handler_error\<close> as a truth value.\<close>

partial_function (option) relay_loop ::
  "server_env \<Rightarrow> int \<Rightarrow> nat \<times> nat \<Rightarrow> nat option \<Rightarrow> bytes \<Rightarrow> server \<Rightarrow> (bool \<times> server) option" where
  "relay_loop E fd keyp relay_data buffer sv =
     Option.bind (relay_handle_message E fd relay_data keyp buffer sv) (\<lambda>(ok, running, relay_data, buffer, sv).
     if \<not> ok then Some (False, end_session fd sv)
     else if running then relay_loop E fd keyp relay_data buffer sv
     else Some (True, end_session fd sv))"

definition process_relay :: "server_env \<Rightarrow> int \<Rightarrow> bytes \<Rightarrow> server \<Rightarrow> (bool \<times> server) option" where
  "process_relay E fd buffer sv =
     (case get_sock_key (sv_context sv) fd of
        None \<Rightarrow> Some (False, sv)
      | Some keyp \<Rightarrow> relay_loop E fd keyp None buffer sv)"

section \<open>The client handler\<close>

text \<open>\<open>relay_start\<close> is the session's \<open>client_data\<close>.\<close>

definition handle_get_relay_map ::
  "server_env \<Rightarrow> int \<Rightarrow> nat \<Rightarrow> key_data \<Rightarrow> server \<Rightarrow> (bool \<times> nat \<times> bytes \<times> server) option" where
  "handle_get_relay_map E fd relay_start key sv =
     Option.bind (get_relay_batch (sv_manager sv) relay_start SERVER_RELAYS_MAP_AMOUNT) (\<lambda>(found, next_start).
     let relays = found @ drop (length found) (se_junk_relays E);
         relay_amount = word_of_nat (length found) :: u16;
         relay_start = u32n (next_start + unat relay_amount);
         (ok, buffer, sv) = on_net (send_enc_client_relay_map fd key relay_amount relays server_response_success) sv
     in Some (ok, relay_start, buffer, sv))"

definition client_handle_exit :: "int \<Rightarrow> nat \<Rightarrow> key_data \<Rightarrow> server \<Rightarrow> (bool \<times> nat \<times> bytes \<times> server) option" where
  "client_handle_exit fd relay_start key sv =
     (let (ok, buffer, sv) = on_net (send_enc_relay_exit_response fd key server_response_success) sv
      in Some (ok, relay_start, buffer, sv))"

definition client_handle_message ::
  "server_env \<Rightarrow> int \<Rightarrow> nat \<Rightarrow> nat \<times> nat \<Rightarrow> bytes \<Rightarrow> server \<Rightarrow>
   (bool \<times> bool \<times> nat \<times> bytes \<times> server) option" where
  "client_handle_message E fd relay_start keyp buffer sv =
     Option.bind (read_key (sv_context sv) keyp) (\<lambda>key.
     case on_net (recv_enc_server_msg fd buffer key) sv of
       (False, buffer, sv) \<Rightarrow> Some (False, True, relay_start, buffer, sv)
     | (True, buffer, sv) \<Rightarrow>
         let command = get16 0 buffer in
         if command = CLIENT_COMMAND_GET_RELAY_MAP then
           map_option (\<lambda>(r, x). (r, True, x)) (handle_get_relay_map E fd relay_start key sv)
         else if command = CLIENT_COMMAND_EXIT then
           map_option (\<lambda>(r, x). (r, False, x)) (client_handle_exit fd relay_start key sv)
         else Some (False, True, relay_start, buffer, sv))"

partial_function (option) client_loop ::
  "server_env \<Rightarrow> int \<Rightarrow> nat \<times> nat \<Rightarrow> nat \<Rightarrow> bytes \<Rightarrow> server \<Rightarrow> (bool \<times> server) option" where
  "client_loop E fd keyp relay_start buffer sv =
     Option.bind (client_handle_message E fd relay_start keyp buffer sv) (\<lambda>(ok, running, relay_start, buffer, sv).
     if \<not> ok then Some (False, end_session fd sv)
     else if running then client_loop E fd keyp relay_start buffer sv
     else Some (True, end_session fd sv))"

definition process_client :: "server_env \<Rightarrow> int \<Rightarrow> bytes \<Rightarrow> server \<Rightarrow> (bool \<times> server) option" where
  "process_client E fd buffer sv =
     (case get_sock_key (sv_context sv) fd of
        None \<Rightarrow> Some (False, sv)
      | Some keyp \<Rightarrow> client_loop E fd keyp 0 buffer sv)"

section \<open>A connection\<close>

definition close_user :: "int \<Rightarrow> server \<Rightarrow> server" where
  "close_user fd sv = sv\<lparr>sv_net := close_fd fd (sv_net sv)\<rparr>"

definition client_callback :: "server_env \<Rightarrow> int \<Rightarrow> bytes \<Rightarrow> server \<Rightarrow> server option" where
  "client_callback E fd buffer sv =
     (let session_key = init_key (se_identity E);
          (ok, request, buffer, s) = recv_handshake_request fd buffer (sv_net sv);
          sv = sv\<lparr>sv_net := s\<rparr>
      in if \<not> ok then Some (close_user fd sv) else
      Option.bind (get_public_identity_key (se_gmp E) (se_identity E) (se_junk_key E)) (\<lambda>pubkey.
      let (ok, buffer, sv) = on_net (send_handshake_response (se_g E) (se_p E) pubkey fd) sv
      in if \<not> ok then Some (close_user fd sv) else
      let (ok, client_pubkey, buffer, s) = recv_handshake_client_key fd buffer (sv_net sv);
          sv = sv\<lparr>sv_net := s\<rparr>
      in if \<not> ok then Some (close_user fd sv) else
      Option.bind (derive_symmetric_key_from_public (se_gmp E) (se_globals E)
          (se_junk_key E, se_junk_hash E) session_key client_pubkey) (\<lambda>session_key.
      let (ok, buffer, sv) = on_net (send_handshake_confirmation fd session_key (word_of_int fd)) sv
      in if \<not> ok then Some (close_user fd sv) else
      Option.bind (add_socket (se_alloc E) (sv_context sv) fd session_key None) (\<lambda>(_, c).
      let sv = sv\<lparr>sv_context := c\<rparr>
      in if hr_user_type request = prot_user_type_client then map_option snd (process_client E fd buffer sv)
         else if hr_user_type request = prot_user_type_relay then map_option snd (process_relay E fd buffer sv)
         else Some sv))))"

section \<open>Single handlers\<close>

text \<open>A response that goes out whole.\<close>

lemma response_out:
  assumes "net_ok (sv_net sv) fd"
  shows "\<exists>buffer. on_net (send_enc_relay_signout_response fd key code) sv =
      (True, buffer, sv\<lparr>sv_net := sv_net sv\<lparr>net_out := net_out (sv_net sv) @ [(fd, buffer)]\<rparr>\<rparr>) \<and>
      buffer = symmetric_encrypt key
        (padded_msg (response_base_bytes (response_base RELAY_COMMAND_SIGNOUT code (sv_net sv)))) 4096"
  using assms by (simp add: on_net_def send_enc_relay_signout_response_def send_enc_server_msg_out)

lemma own_signout:
  assumes ok: "manager_ok (sv_manager sv)" and g: "get_relay (sv_manager sv) i = Some a"
    and n: "net_ok (sv_net sv) fd" and al: "\<forall>n. se_alloc E n"
  obtains buffer' sv' where "handle_signout E fd (Some a) key buffer sv = Some (True, None, buffer', sv')"
    "manager_ok (sv_manager sv')" "live (sv_manager sv') = live (sv_manager sv) - {i}"
    "sv_context sv' = sv_context sv"
proof -
  have i: "i \<in> live (sv_manager sv)" using g not_live_free [OF ok, of i] by auto
  obtain b d where d: "get_relay (sv_manager sv) i = Some b" "rm_heap (sv_manager sv) b = Some d"
    "unat (rd_relay_id d) = i" by (rule manager_cell [OF ok i])
  obtain m' where m': "remove_relay (se_alloc E) (sv_manager sv) i = Some (True, m')" "manager_ok m'"
    "live m' = live (sv_manager sv) - {i}"
    by (rule remove_relay_ok [where alloc_ok = "se_alloc E", OF ok i]) (use al in blast)+
  obtain buffer' where "on_net (send_enc_relay_signout_response fd key server_response_success) (sv\<lparr>sv_manager := m'\<rparr>) =
      (True, buffer', sv\<lparr>sv_manager := m', sv_net := sv_net sv\<lparr>net_out := net_out (sv_net sv) @ [(fd, buffer')]\<rparr>\<rparr>)"
    using response_out [of "sv\<lparr>sv_manager := m'\<rparr>" fd key server_response_success] n by auto
  then show ?thesis
    using that d m' g by (simp add: handle_signout_def Let_def)
qed

lemma public_key_export:
  assumes "gmp_documented G" "other_public (kd_session key) < 256 ^ 256" "length out = 256"
  obtains pk where "get_other_public_key G key out = Some pk" "length pk = 256"
    "le_value pk = other_public (kd_session key)"
  using export_fixed [OF assms(1) _ assms(3), of "other_public (kd_session key)"] assms(2)
  by (auto simp: get_other_public_key_def get_dh_key_other_public_def DH_KEY_BYTES_def)

section \<open>Properties\<close>

text \<open>A concrete server.\<close>

definition sample_env :: server_env where
  "sample_env = \<lparr>se_gmp = reference_gmp, se_globals = \<lparr>dh_p = 23, dh_g = 5\<rparr>, se_g = 5, se_p = 23 # replicate 255 0,
     se_identity = create_dh_identity_key, se_alloc = (\<lambda>_. True), se_junk_key = replicate 256 0,
     se_junk_hash = replicate 64 0, se_junk_relays = replicate 14 zero_descriptor\<rparr>"

definition sample_server :: "relay_manager \<Rightarrow> server" where
  "sample_server m = \<lparr>sv_manager = m, sv_context = init_socket_context blank_context, sv_net = quiet_net\<rparr>"

definition sample_key :: key_data where
  "sample_key = init_key create_dh_identity_key\<lparr>kd_session := create_dh_session_key create_dh_identity_key\<lparr>other_public := 8\<rparr>\<rparr>"

lemma sample_public_key: "get_other_public_key reference_gmp sample_key (replicate 256 0) = Some (8 # replicate 255 0)"
  by (simp add: get_other_public_key_def get_dh_key_other_public_def sample_key_def export_mpz_fixed_def
      DH_KEY_BYTES_def ENDIAN_MPZ_def reference_gmp_def le_digits.simps mem_write_def)

lemma sample_facts [simp]:
  "se_gmp sample_env = reference_gmp" "se_alloc sample_env n" "se_junk_key sample_env = replicate 256 0"
  "se_junk_relays sample_env = replicate 14 zero_descriptor"
  "sv_manager (sample_server m) = m" "net_ok (sv_net (sample_server m)) fd"
  by (simp_all add: sample_env_def sample_server_def quiet_net_def)

lemma one_relay:
  obtains m a where "manager_ok m" "live m = {0}" "get_relay m 0 = Some a"
    "rd_public_key (descriptor_at m 0) = replicate 256 0"
proof -
  let ?m = "init_relay_manager blank_manager"
  obtain i m' where "manager_ok m'" "live m' = insert i (live ?m)" "get_relay m' i = Some (rm_next ?m)"
    "rm_heap m' (rm_next ?m) = Some (zero_relay_data\<lparr>rd_relay_id := word_of_nat i\<rparr>)"
    "i = (if free_ids ?m = [] then max_item_index ?m else last (free_ids ?m))"
    by (rule gen_relay_ok [where alloc_ok = "\<lambda>_. True", OF blank_manager_ok(1)]) (simp_all add: blank_manager_ok)
  then show ?thesis
    using that [of m' "rm_next ?m"]
    by (simp add: blank_manager_ok descriptor_at_def item_data_def zero_relay_data_def)
qed

text \<open>A table of 32 items with relays 0 to 27.\<close>

definition table_of_28 :: relay_manager where
  "table_of_28 = \<lparr>rm_initialized = True, items_length = 32,
     items = map (\<lambda>i. if i < 28 then \<lparr>ri_exists = True, ri_data = Some i\<rparr> else zero_item) [0..<32],
     max_item_index = 28, stack_length = 1, removed_id_stack = [0], max_stack_index = 0,
     rm_heap = (\<lambda>i. if i < 28 then Some (zero_relay_data\<lparr>rd_relay_id := word_of_nat i\<rparr>) else None), rm_next = 28\<rparr>"

lemma table_of_28:
  shows "live table_of_28 = {..<28}" and "manager_ok table_of_28"
    and "i < 28 \<Longrightarrow> descriptor_ok (descriptor_at table_of_28 i)"
proof -
  have item: "items table_of_28 ! i = (if i < 28 then \<lparr>ri_exists = True, ri_data = Some i\<rparr> else zero_item)" if "i < 32" for i
    using that by (simp add: table_of_28_def del: upt_rec_numeral)
  have f: "items_length table_of_28 = 32" "max_item_index table_of_28 = 28" "rm_next table_of_28 = 28"
    "rm_initialized table_of_28" "length (items table_of_28) = 32" "stack_length table_of_28 = 1"
    "length (removed_id_stack table_of_28) = 1" "max_stack_index table_of_28 = 0" "free_ids table_of_28 = []"
    by (simp_all add: table_of_28_def free_ids_def del: upt_rec_numeral)
  show lv: "live table_of_28 = {..<28}" by (auto simp: live_def f item zero_item_def split: if_splits)
  have u: "unat (word_of_nat i :: u32) = i" if "i < 28" for i
    using that by (simp add: unsigned_of_nat take_bit_eq_mod)
  have h: "rm_heap table_of_28 i = Some (zero_relay_data\<lparr>rd_relay_id := word_of_nat i\<rparr>)" if "i < 28" for i
    using that by (simp add: table_of_28_def)
  show "manager_ok table_of_28"
    unfolding manager_ok_def lv by (auto simp: f item h u zero_relay_data_def)
  show "descriptor_ok (descriptor_at table_of_28 i)" if "i < 28"
    using that h [OF that] item [of i] f
    by (simp add: descriptor_at_def item_data_def get_relay_def zero_relay_data_def descriptor_ok_def sock_addr_ok_def)
qed

lemma signup_entry:
  assumes "manager_ok (sv_manager sv)" "items_length (sv_manager sv) \<le> 2 ^ 30" "\<forall>n. se_alloc E n"
    and "gmp_documented (se_gmp E)" "other_public (kd_session key) < 256 ^ 256" "net_ok (sv_net sv) fd"
  shows "\<exists>i a wire sv'. handle_signup E fd None key buffer sv = Some (True, Some a, wire, sv') \<and>
    manager_ok (sv_manager sv') \<and> i \<notin> live (sv_manager sv) \<and>
    live (sv_manager sv') = insert i (live (sv_manager sv)) \<and> get_relay (sv_manager sv') i = Some a \<and>
    rd_sock_addr (descriptor_at (sv_manager sv') i) = signup_request_addr buffer \<and>
    le_value (rd_public_key (descriptor_at (sv_manager sv') i)) = other_public (kd_session key) \<and>
    net_out (sv_net sv') = net_out (sv_net sv) @ [(fd, wire)] \<and>
    wire = symmetric_encrypt key (padded_msg (signup_response_bytes
      (response_base RELAY_COMMAND_SIGNUP server_response_success (sv_net sv)) (word_of_nat i))) 4096"
proof -
  let ?m = "sv_manager sv"
  obtain i m1 where m1: "gen_relay (se_alloc E) ?m = Some (rm_next ?m, m1)" "manager_ok m1"
    "i \<notin> live ?m" "live m1 = insert i (live ?m)" "get_relay m1 i = Some (rm_next ?m)"
    "rm_heap m1 (rm_next ?m) = Some (zero_relay_data\<lparr>rd_relay_id := word_of_nat i\<rparr>)"
    by (rule gen_relay_ok [where alloc_ok = "se_alloc E", OF assms(1,2)]) (use assms(3) in blast)+
  define d0 where "d0 = zero_relay_data\<lparr>rd_relay_id := word_of_nat i\<rparr>"
  have h0: "rm_heap m1 (rm_next ?m) = Some d0" using m1(6) by (simp only: d0_def)
  obtain pk where pk: "get_other_public_key (se_gmp E) key (replicate 256 0) = Some pk"
    "le_value pk = other_public (kd_session key)"
    by (rule public_key_export [OF assms(4,5), of "replicate 256 0"]) simp_all
  define m2 where "m2 = m1\<lparr>rm_heap := (rm_heap m1)(rm_next ?m \<mapsto>
      d0\<lparr>rd_descriptor := \<lparr>rd_sock_addr = signup_request_addr buffer, rd_public_key = pk\<rparr>\<rparr>)\<rparr>"
  note w = write_cell_ok [OF m1(2) h0 m2_def]
  have g: "get_relay m2 i = Some (rm_next ?m)" using m1(5) by (simp add: m2_def get_relay_def split: if_splits)
  have "descriptor_at m2 i = \<lparr>rd_sock_addr = signup_request_addr buffer, rd_public_key = pk\<rparr>"
    using g by (simp add: descriptor_at_def item_data_def) (simp add: m2_def)
  moreover have "i < 2 ^ 31" using live_less [of i m1] m1(4) manager_okD(3) [OF m1(2)] by auto
  then have u: "ucast (word_of_nat i :: u32) = (word_of_nat i :: u64)"
    by (intro word_unat_eq_iff [THEN iffD2]) (simp add: unsigned_ucast_eq unsigned_of_nat take_bit_eq_mod)
  let ?wire = "symmetric_encrypt key (padded_msg (signup_response_bytes
      (response_base RELAY_COMMAND_SIGNUP server_response_success (sv_net sv)) (word_of_nat i))) 4096"
  let ?sv = "sv\<lparr>sv_manager := m2, sv_net := sv_net sv\<lparr>net_out := net_out (sv_net sv) @ [(fd, ?wire)]\<rparr>\<rparr>"
  have r: "on_net (send_enc_relay_signup_response fd key server_response_success (rd_relay_id d0)) (sv\<lparr>sv_manager := m2\<rparr>) =
      (True, ?wire, ?sv)"
    using assms(6) u
    by (simp add: on_net_def send_enc_relay_signup_response_def send_enc_server_msg_out d0_def)
  have pk': "get_other_public_key (se_gmp E) key (rd_public_key (rd_descriptor d0)) = Some pk"
    using pk(1) by (simp add: zero_relay_data_def d0_def)
  have "handle_signup E fd None key buffer sv = Some (True, Some (rm_next ?m), ?wire, ?sv)"
    unfolding handle_signup_def
    by (simp add: m1(1) h0 pk' Let_def m2_def [symmetric] r)
  ultimately show ?thesis
    using m1(3,4) w g pk(2)
    by (intro exI [of _ i] exI [of _ "rm_next ?m"] exI [of _ ?wire] exI [of _ ?sv] conjI) simp_all
qed

text \<open>A signup on a session without a relay enters exactly one new relay in the table, with the address
  of the request and the public key of the session's handshake as descriptor, and the response
  that goes out carries the success code and the new relay's id.\<close>

theorem signup_registers_relay:
  assumes "manager_ok (sv_manager sv)" "items_length (sv_manager sv) \<le> 2 ^ 30" "\<forall>n. se_alloc E n"
    and "gmp_documented (se_gmp E)" "other_public (kd_session key) < 256 ^ 256" "net_ok (sv_net sv) fd"
  shows "\<exists>i a wire sv'. handle_signup E fd None key buffer sv = Some (True, Some a, wire, sv') \<and>
    manager_ok (sv_manager sv') \<and> i \<notin> live (sv_manager sv) \<and>
    live (sv_manager sv') = insert i (live (sv_manager sv)) \<and> get_relay (sv_manager sv') i = Some a \<and>
    rd_sock_addr (descriptor_at (sv_manager sv') i) = signup_request_addr buffer \<and>
    le_value (rd_public_key (descriptor_at (sv_manager sv') i)) = other_public (kd_session key) \<and>
    net_out (sv_net sv') = net_out (sv_net sv) @ [(fd, wire)] \<and>
    wire = symmetric_encrypt key (padded_msg (signup_response_bytes
      (response_base RELAY_COMMAND_SIGNUP server_response_success (sv_net sv)) (word_of_nat i))) 4096"
  using assms by (rule signup_entry)

lemma signup_registers_relay_witness:
  "\<exists>i a wire sv'. handle_signup sample_env 4 None sample_key (replicate 4096 0)
     (sample_server (init_relay_manager blank_manager)) = Some (True, Some a, wire, sv') \<and>
     live (sv_manager sv') = {i} \<and> le_value (rd_public_key (descriptor_at (sv_manager sv') i)) = 8"
proof -
  have "\<exists>i a wire sv'. handle_signup sample_env 4 None sample_key (replicate 4096 0)
     (sample_server (init_relay_manager blank_manager)) = Some (True, Some a, wire, sv') \<and>
    manager_ok (sv_manager sv') \<and> i \<notin> live (sv_manager (sample_server (init_relay_manager blank_manager))) \<and>
    live (sv_manager sv') = insert i (live (sv_manager (sample_server (init_relay_manager blank_manager)))) \<and>
    get_relay (sv_manager sv') i = Some a \<and>
    rd_sock_addr (descriptor_at (sv_manager sv') i) = signup_request_addr (replicate 4096 0) \<and>
    le_value (rd_public_key (descriptor_at (sv_manager sv') i)) = other_public (kd_session sample_key) \<and>
    net_out (sv_net sv') = net_out (sv_net (sample_server (init_relay_manager blank_manager))) @ [(4, wire)] \<and>
    wire = symmetric_encrypt sample_key (padded_msg (signup_response_bytes
      (response_base RELAY_COMMAND_SIGNUP server_response_success
        (sv_net (sample_server (init_relay_manager blank_manager)))) (word_of_nat i))) 4096"
    by (rule signup_registers_relay)
       (simp_all add: blank_manager_ok reference_gmp_documented, simp add: sample_key_def)
  then show ?thesis by (auto simp: blank_manager_ok sample_key_def)
qed

text \<open>A session's signout removes exactly the relay its pointer stands for and forgets the pointer.\<close>

theorem signout_removes_own_relay:
  assumes "manager_ok (sv_manager sv)" "get_relay (sv_manager sv) i = Some a" "net_ok (sv_net sv) fd"
    and "\<forall>n. se_alloc E n"
  shows "\<exists>wire sv'. handle_signout E fd (Some a) key buffer sv = Some (True, None, wire, sv') \<and>
    manager_ok (sv_manager sv') \<and> live (sv_manager sv') = live (sv_manager sv) - {i}"
  by (rule own_signout [OF assms, of key buffer]) blast

lemma signout_removes_own_relay_witness:
  "\<exists>m a wire sv'. live m = {0} \<and>
     handle_signout sample_env 4 (Some a) sample_key [] (sample_server m) = Some (True, None, wire, sv') \<and>
     live (sv_manager sv') = {}"
proof -
  obtain m a where m: "manager_ok m" "live m = {0}" "get_relay m 0 = Some a" by (rule one_relay)
  then show ?thesis
    using signout_removes_own_relay [of "sample_server m" 0 a 4 sample_env sample_key "[]"] by auto
qed

text \<open>C36. A relay can sign out any other relay: a signout for a foreign id is answered with an error, but
  leaves the session's pointer on the foreign relay, so the same request sent again takes the
  branch of a session that signed up itself and removes the relay without any check of its key.\<close>

theorem signout_twice_removes_foreign_relay:
  assumes "manager_ok (sv_manager sv)" "i \<in> live (sv_manager sv)" "net_ok (sv_net sv) fd" "\<forall>n. se_alloc E n"
    and "get_other_public_key (se_gmp E) key (se_junk_key E) = Some pk"
    and "rd_public_key (descriptor_at (sv_manager sv) i) \<noteq> pk" "unat (signout_request_id buffer) = i"
  shows "\<exists>a wire sv1 wire2 sv2.
    handle_signout E fd None key buffer sv = Some (True, Some a, wire, sv1) \<and>
    sv_manager sv1 = sv_manager sv \<and>
    handle_signout E fd (Some a) key buffer sv1 = Some (True, None, wire2, sv2) \<and>
    live (sv_manager sv2) = live (sv_manager sv) - {i}"
proof -
  obtain a d where d: "get_relay (sv_manager sv) i = Some a" "rm_heap (sv_manager sv) a = Some d"
    by (rule manager_cell [OF assms(1,2)])
  then have k: "rd_public_key (rd_descriptor d) \<noteq> pk"
    using assms(6) by (simp add: descriptor_at_def item_data_def)
  obtain wire where w: "on_net (send_enc_relay_signout_response fd key server_response_base_error) sv =
      (True, wire, sv\<lparr>sv_net := sv_net sv\<lparr>net_out := net_out (sv_net sv) @ [(fd, wire)]\<rparr>\<rparr>)"
    using response_out [OF assms(3), of key server_response_base_error] by blast
  let ?sv1 = "sv\<lparr>sv_net := sv_net sv\<lparr>net_out := net_out (sv_net sv) @ [(fd, wire)]\<rparr>\<rparr>"
  have "handle_signout E fd None key buffer sv = Some (True, Some a, wire, ?sv1)"
    using d k w assms(5,7) by (simp add: handle_signout_def Let_def)
  moreover obtain wire2 sv2 where "handle_signout E fd (Some a) key buffer ?sv1 = Some (True, None, wire2, sv2)"
    "live (sv_manager sv2) = live (sv_manager sv) - {i}"
    by (rule own_signout [of ?sv1 i a fd E key buffer]) (use assms(1,3,4) d(1) in simp_all)
  moreover have "sv_manager ?sv1 = sv_manager sv" by simp
  ultimately show ?thesis by blast
qed

lemma signout_twice_removes_foreign_relay_witness:
  "\<exists>m a wire sv1 wire2 sv2. live m = {0} \<and>
     handle_signout sample_env 4 None sample_key (replicate 4096 0) (sample_server m) = Some (True, Some a, wire, sv1) \<and>
     handle_signout sample_env 4 (Some a) sample_key (replicate 4096 0) sv1 = Some (True, None, wire2, sv2) \<and>
     live (sv_manager sv2) = {}"
proof -
  obtain m where m: "manager_ok m" "live m = {0}" "rd_public_key (descriptor_at m 0) = replicate 256 0"
    by (rule one_relay)
  have "rd_public_key (descriptor_at m 0) \<noteq> 8 # replicate 255 0"
    using m(3) replicate_Suc [of 255 "0 :: u8"] by simp
  moreover have "unat (signout_request_id (replicate 4096 0)) = 0"
    by (simp add: signout_request_id_def get32_def le32_def)
  ultimately show ?thesis
    using signout_twice_removes_foreign_relay [of "sample_server m" 0 4 sample_env sample_key "8 # replicate 255 0" "replicate 4096 0"]
      m sample_public_key by auto
qed

text \<open>A relay pointer outlives its cell: once another session has removed the relay (with the same
  identity key a relay may sign out by id), the signout of the session that signed up reads
  freed memory.\<close>

theorem signout_after_foreign_removal_dangles:
  assumes "manager_ok (sv_manager sv)" "get_relay (sv_manager sv) i = Some a" "\<forall>n. se_alloc E n"
  shows "\<exists>m'. remove_relay (se_alloc E) (sv_manager sv) i = Some (True, m') \<and>
    handle_signout E fd (Some a) key buffer (sv\<lparr>sv_manager := m'\<rparr>) = None"
proof -
  have i: "i \<in> live (sv_manager sv)" using assms(2) not_live_free [OF assms(1), of i] by auto
  obtain m' where "remove_relay (se_alloc E) (sv_manager sv) i = Some (True, m')"
    "rm_heap m' (the (get_relay (sv_manager sv) i)) = None"
    by (rule remove_relay_ok [where alloc_ok = "se_alloc E", OF assms(1) i]) (use assms(3) in blast)+
  then show ?thesis using assms(2) by (intro exI [of _ m']) (simp add: handle_signout_def)
qed

lemma signout_after_foreign_removal_dangles_witness:
  "\<exists>m a m'. remove_relay (\<lambda>_. True) m 0 = Some (True, m') \<and> get_relay m 0 = Some a \<and>
     handle_signout sample_env 4 (Some a) sample_key [] ((sample_server m)\<lparr>sv_manager := m'\<rparr>) = None"
proof -
  obtain m a where m: "manager_ok m" "get_relay m 0 = Some a" by (rule one_relay)
  then show ?thesis
    using signout_after_foreign_removal_dangles [of "sample_server m" 0 a sample_env 4 sample_key "[]"]
    by (auto simp: sample_env_def)
qed

text \<open>The first 14 of 28 relays, from either place a session can stand.\<close>

lemma batch_of_28:
  assumes "start = 0 \<or> start = 28"
  shows "take 14 (filter (\<lambda>j. j < 28) (ring_from 32 (start mod 32) 32)) = [0..<14]"
    and "(start mod 32 + consumed 14 (map (\<lambda>j. j < 28) (ring_from 32 (start mod 32) 32))) mod 32 = 14"
proof -
  have "ring_from 32 0 32 = [0..<32]" unfolding ring_from_def by (rule map_idI) simp
  moreover have "ring_from 32 28 32 = [28..<32] @ [0..<28]" by code_simp
  moreover have "take 14 (filter (\<lambda>j. j < 28) ([0..<32] :: nat list)) = [0..<14]"
    "take 14 (filter (\<lambda>j. j < 28) ([28..<32] @ [0..<28] :: nat list)) = [0..<14]"
    "consumed 14 (map (\<lambda>j. j < 28) [0..<32 :: nat]) = 14"
    "consumed 14 (map (\<lambda>j. j < 28) ([28..<32] @ [0..<28] :: nat list)) = 18"
    by code_simp+
  ultimately show "take 14 (filter (\<lambda>j. j < 28) (ring_from 32 (start mod 32) 32)) = [0..<14]"
    "(start mod 32 + consumed 14 (map (\<lambda>j. j < 28) (ring_from 32 (start mod 32) 32))) mod 32 = 14"
    using assms by auto
qed

text \<open>C38. Paging through the relays can repeat a page for ever: with 28 relays in a table of 32 items, every
  request of a session is answered with relays 0 to 13, because the position, already behind the
  last relay sent, is advanced by their number once more; relays 14 to 27 are never sent.\<close>

theorem relay_map_pages_repeat:
  assumes "manager_ok (sv_manager sv)" "items_length (sv_manager sv) = 32" "live (sv_manager sv) = {..<28}"
    and "net_ok (sv_net sv) fd" "length (se_junk_relays E) = 14" "start = 0 \<or> start = 28"
    and "\<forall>i < 28. descriptor_ok (descriptor_at (sv_manager sv) i)"
  shows "\<exists>wire sv'. handle_get_relay_map E fd start key sv = Some (True, 28, wire, sv') \<and>
    sv_manager sv' = sv_manager sv \<and> net_ok (sv_net sv') = net_ok (sv_net sv) \<and>
    wire = symmetric_encrypt key (padded_msg (map_response_bytes
      (response_base CLIENT_COMMAND_GET_RELAY_MAP server_response_success (sv_net sv)) 14
      (map (descriptor_at (sv_manager sv)) [0..<14]))) 4096"
proof -
  let ?ds = "map (descriptor_at (sv_manager sv)) [0..<14]"
  have "(\<lambda>j. j \<in> live (sv_manager sv)) = (\<lambda>j. j < 28)" using assms(3) by auto
  then have b: "get_relay_batch (sv_manager sv) start 14 = Some (?ds, 14)"
    using get_relay_batch_spec [OF assms(1), of start 14] batch_of_28 [OF assms(6)] assms(2)
    by (simp only:)
  have "length (map_response_bytes r n ?ds) \<le> 4096" for r n
    using length_map_response [of ?ds r n] assms(7) by simp
  then show ?thesis
    using assms(4,5) b
    by (simp add: handle_get_relay_map_def on_net_def send_enc_client_relay_map_def send_enc_server_msg_out
        Let_def u32n_def del: upt_rec_numeral)
qed

lemma relay_map_pages_repeat_witness:
  "\<exists>wire sv'. handle_get_relay_map sample_env 4 28 sample_key (sample_server table_of_28) = Some (True, 28, wire, sv')"
  using relay_map_pages_repeat [of "sample_server table_of_28" 4 sample_env 28 sample_key] table_of_28
  by (fastforce simp: table_of_28_def)

text \<open>The relay map leaks the server's stack: when fewer than 14 relays are live, the rest of the
  descriptors sent to the client is whatever the local array held before.\<close>

theorem relay_map_sends_uninitialised:
  assumes "manager_ok (sv_manager sv)" "live (sv_manager sv) = {}" "net_ok (sv_net sv) fd"
    and "length (se_junk_relays E) = 14" "\<forall>d \<in> set (se_junk_relays E). descriptor_ok d"
  shows "\<exists>start' wire sv'. handle_get_relay_map E fd start key sv = Some (True, start', wire, sv') \<and>
    wire = symmetric_encrypt key (padded_msg (map_response_bytes
      (response_base CLIENT_COMMAND_GET_RELAY_MAP server_response_success (sv_net sv)) 0 (se_junk_relays E))) 4096"
proof -
  obtain start1 where b: "get_relay_batch (sv_manager sv) start 14 = Some ([], start1)"
    using get_relay_batch_spec [OF assms(1), of start 14] assms(2) by simp
  have "length (map_response_bytes r n (se_junk_relays E)) \<le> 4096" for r n
    using length_map_response [OF assms(5)] assms(4) by simp
  then show ?thesis
    using assms(3) b
    by (simp add: handle_get_relay_map_def on_net_def send_enc_client_relay_map_def send_enc_server_msg_out Let_def)
qed

lemma relay_map_sends_uninitialised_witness:
  "\<exists>start' wire sv'. handle_get_relay_map sample_env 4 0 sample_key (sample_server (init_relay_manager blank_manager)) =
     Some (True, start', wire, sv')"
  using relay_map_sends_uninitialised [of "sample_server (init_relay_manager blank_manager)" 4 sample_env 0 sample_key]
  by (auto simp: blank_manager_ok)

end
