(* ===== verification/Onion.thy ===== *)
theory Onion
  imports Net
begin

text \<open>
  Cells on the wire: \<open>send_tor_buffer\<close> and \<open>recv_tor_buffer\<close> of the client (\<open>src/client/net\<close>) and of a
  relay (\<open>src/relay/net\<close>), and the key exchange of a link (\<open>handle_tls.c\<close>, the same file in both). A
  cell has 512 bytes. The link encryption covers all of it, an onion layer the 509 bytes after
  the circuit id and the command. An absent key (\<open>NULL\<close>) is \<open>None\<close>.

  The specification is what the layers are for: a cell the client sends through a circuit is,
  peeled by the relays in turn, the cell it built, and the same backwards. This holds for the
  bytes that the ciphers cover in whole blocks, all but the last 13.
\<close>

section \<open>Layers\<close>

definition onion_encrypt :: "key_data \<Rightarrow> bytes \<Rightarrow> bytes" where
  "onion_encrypt key b = splice 3 (symmetric_encrypt key (drop 3 b) (TOR_MSG_SIZE - 3)) b"

definition onion_decrypt :: "key_data \<Rightarrow> bytes \<Rightarrow> bytes" where
  "onion_decrypt key b = splice 3 (symmetric_decrypt key (drop 3 b) (TOR_MSG_SIZE - 3)) b"

definition link_encrypt :: "key_data option \<Rightarrow> bytes \<Rightarrow> bytes" where
  "link_encrypt tls b = (case tls of None \<Rightarrow> b | Some key \<Rightarrow> symmetric_encrypt key b TOR_MSG_SIZE)"

definition link_decrypt :: "key_data option \<Rightarrow> bytes \<Rightarrow> bytes" where
  "link_decrypt tls b = (case tls of None \<Rightarrow> b | Some key \<Rightarrow> symmetric_decrypt key b TOR_MSG_SIZE)"

section \<open>The client's functions\<close>

text \<open>The loop \<open>for (i = onion_amount; i-- > 0;)\<close> encrypts for the last relay first.\<close>

definition client_seal :: "key_data option \<Rightarrow> key_data list \<Rightarrow> nat \<Rightarrow> bytes \<Rightarrow> bytes" where
  "client_seal tls onion_keys amount b =
     link_encrypt tls (fold (\<lambda>i. onion_encrypt (onion_keys ! i)) (rev [0..<amount]) b)"

definition client_open :: "key_data option \<Rightarrow> key_data list \<Rightarrow> nat \<Rightarrow> bytes \<Rightarrow> bytes" where
  "client_open tls onion_keys amount b =
     fold (\<lambda>i. onion_decrypt (onion_keys ! i)) [0..<amount] (link_decrypt tls b)"

definition client_send_tor_buffer ::
  "int \<Rightarrow> bytes \<Rightarrow> key_data option \<Rightarrow> key_data list \<Rightarrow> nat \<Rightarrow> net \<Rightarrow> bool \<times> bytes \<times> net" where
  "client_send_tor_buffer fd b tls onion_keys amount s =
     (let b = client_seal tls onion_keys amount b; (ok, s) = send_fd fd b s in (ok, b, s))"

definition client_recv_tor_buffer ::
  "int \<Rightarrow> bytes \<Rightarrow> key_data option \<Rightarrow> key_data list \<Rightarrow> nat \<Rightarrow> net \<Rightarrow> bool \<times> bytes \<times> net" where
  "client_recv_tor_buffer fd b tls onion_keys amount s =
     (case read_buffer fd b s of
        (False, b, s) \<Rightarrow> (False, b, s)
      | (True, b, s) \<Rightarrow> (True, client_open tls onion_keys amount b, s))"

section \<open>A relay's functions\<close>

definition relay_seal :: "key_data option \<Rightarrow> key_data option \<Rightarrow> bool \<Rightarrow> bytes \<Rightarrow> bytes" where
  "relay_seal tls onion_key to_client b =
     link_encrypt tls (case onion_key of None \<Rightarrow> b | Some key \<Rightarrow> if to_client then onion_encrypt key b else b)"

definition relay_open :: "key_data option \<Rightarrow> key_data option \<Rightarrow> bool \<Rightarrow> bytes \<Rightarrow> bytes" where
  "relay_open tls onion_key from_client b =
     (let b = link_decrypt tls b
      in case onion_key of None \<Rightarrow> b | Some key \<Rightarrow> if from_client then onion_decrypt key b else b)"

definition relay_send_tor_buffer ::
  "int \<Rightarrow> bytes \<Rightarrow> key_data option \<Rightarrow> key_data option \<Rightarrow> bool \<Rightarrow> net \<Rightarrow> bool \<times> bytes \<times> net" where
  "relay_send_tor_buffer fd b tls onion_key to_client s =
     (let b = relay_seal tls onion_key to_client b; (ok, s) = send_fd fd b s in (ok, b, s))"

definition relay_recv_tor_buffer ::
  "int \<Rightarrow> bytes \<Rightarrow> key_data option \<Rightarrow> key_data option \<Rightarrow> bool \<Rightarrow> net \<Rightarrow> bool \<times> bytes \<times> net" where
  "relay_recv_tor_buffer fd b tls onion_key from_client s =
     (case read_buffer fd b s of
        (False, b, s) \<Rightarrow> (False, b, s)
      | (True, b, s) \<Rightarrow> (True, relay_open tls onion_key from_client b, s))"

section \<open>The key exchange of a link\<close>

definition send_tls_msg :: "int \<Rightarrow> bytes \<Rightarrow> net \<Rightarrow> bool \<times> net" where
  "send_tls_msg fd data s = send_fd fd data s"

definition recv_tls_msg :: "int \<Rightarrow> bytes \<Rightarrow> net \<Rightarrow> bool \<times> bytes \<times> net" where
  "recv_tls_msg fd data s = read_buffer fd data s"

text \<open>
  Local arrays: \<open>junk\<close> and \<open>junk'\<close> are what the two key buffers hold before, \<open>local\<close> what those of
  \<open>derive_symmetric_key_from_public\<close> do. On failure the socket is closed.
\<close>

definition handle_tls_sender ::
  "gmp \<Rightarrow> dh_globals \<Rightarrow> bytes \<Rightarrow> bytes \<Rightarrow> bytes \<times> bytes \<Rightarrow> int \<Rightarrow> key_data \<Rightarrow> net \<Rightarrow> (bool \<times> key_data \<times> net) option" where
  "handle_tls_sender G g junk junk' local fd this s =
     (case recv_tls_msg fd junk s of
        (False, _, s) \<Rightarrow> Some (False, this, close_fd fd s)
      | (True, other, s) \<Rightarrow>
          Option.bind (derive_symmetric_key_from_public G g local this other) (\<lambda>this.
          Option.bind (get_public_identity_key G (kd_identity this) junk') (\<lambda>pub.
          case send_tls_msg fd pub s of
            (False, s) \<Rightarrow> Some (False, this, close_fd fd s)
          | (True, s) \<Rightarrow> Some (True, this, s))))"

definition handle_tls_recviever ::
  "gmp \<Rightarrow> dh_globals \<Rightarrow> bytes \<Rightarrow> bytes \<Rightarrow> bytes \<times> bytes \<Rightarrow> int \<Rightarrow> key_data \<Rightarrow> net \<Rightarrow> (bool \<times> key_data \<times> net) option" where
  "handle_tls_recviever G g junk junk' local fd this s =
     Option.bind (get_public_identity_key G (kd_identity this) junk) (\<lambda>pub.
     case send_tls_msg fd pub s of
       (False, s) \<Rightarrow> Some (False, this, close_fd fd s)
     | (True, s) \<Rightarrow>
         (case recv_tls_msg fd junk' s of
            (False, _, s) \<Rightarrow> Some (False, this, close_fd fd s)
          | (True, other, s) \<Rightarrow>
              Option.bind (derive_symmetric_key_from_public G g local this other) (\<lambda>this.
              Some (True, this, s))))"

section \<open>What survives a layer\<close>

text \<open>
  The intact part of a cell: the 3 header bytes and the 31 whole blocks after them. On it, a layer
  is a transformation of its own that has an inverse.
\<close>

definition intact :: "bytes \<Rightarrow> bytes" where "intact b = take 499 b"

definition layer :: "(block \<Rightarrow> block) \<Rightarrow> bytes \<Rightarrow> bytes" where
  "layer f x = take 3 x @ ecb f (drop 3 x)"

lemma TOR_MSG_SIZE_value [simp]: "TOR_MSG_SIZE = 512" by (simp add: TOR_MSG_SIZE_def)

lemma onion_ecb:
  assumes "is_cell b"
  shows "onion_encrypt k b = take 3 b @ ecb (\<lambda>x. aes_encrypt128 x (symmetric_key k)) (drop 3 b)"
    and "onion_decrypt k b = take 3 b @ ecb (\<lambda>x. aes_decrypt128 x (symmetric_key k)) (drop 3 b)"
proof -
  have l: "length (drop 3 b) = 509" using assms by simp
  show "onion_encrypt k b = take 3 b @ ecb (\<lambda>x. aes_encrypt128 x (symmetric_key k)) (drop 3 b)"
    using symmetric_encrypt_ecb [of k "drop 3 b"] l assms by (simp add: onion_encrypt_def splice_def)
  show "onion_decrypt k b = take 3 b @ ecb (\<lambda>x. aes_decrypt128 x (symmetric_key k)) (drop 3 b)"
    using symmetric_decrypt_ecb [of k "drop 3 b"] l assms by (simp add: onion_decrypt_def splice_def)
qed

lemma length_onion [simp, len_simps]:
  "is_cell b \<Longrightarrow> is_cell (onion_encrypt k b)" "is_cell b \<Longrightarrow> is_cell (onion_decrypt k b)"
  by (simp_all add: onion_ecb)

lemma length_link [simp, len_simps]:
  assumes "is_cell b" shows "is_cell (link_encrypt tls b)" "is_cell (link_decrypt tls b)"
  using assms symmetric_encrypt_ecb [of _ b] symmetric_decrypt_ecb [of _ b]
  by (simp_all add: link_encrypt_def link_decrypt_def split: option.splits)

lemma intact_layer:
  assumes "is_cell b" "keeps_blocks f"
  shows "intact (take 3 b @ ecb f (drop 3 b)) = layer f (intact b)"
proof -
  have "take (16 * 31) (ecb f (drop 3 b)) = ecb f (take (16 * 31) (drop 3 b))"
    using assms by (intro ecb_take) simp_all
  then show ?thesis
    using assms(1) by (simp add: intact_def layer_def take_drop min_def)
qed

lemma intact_onion:
  assumes "is_cell b"
  shows "intact (onion_encrypt k b) = layer (\<lambda>x. aes_encrypt128 x (symmetric_key k)) (intact b)"
    and "intact (onion_decrypt k b) = layer (\<lambda>x. aes_decrypt128 x (symmetric_key k)) (intact b)"
  using assms by (simp_all add: onion_ecb intact_layer)

lemma layer_inverse:
  "length x = 499 \<Longrightarrow>
   layer (\<lambda>x. aes_decrypt128 x key) (layer (\<lambda>x. aes_encrypt128 x key) x) = x"
proof -
  assume "length x = 499"
  then have "length (drop 3 x) = 16 * 31" by simp
  then show ?thesis using aes.ecb_inverse [of "drop 3 x" 31 key] \<open>length x = 499\<close>
    by (simp add: layer_def)
qed

lemma length_layer [simp]: "keeps_blocks f \<Longrightarrow> length x = 499 \<Longrightarrow> length (layer f x) = 499"
  by (simp add: layer_def)

lemma length_intact [simp]: "is_cell b \<Longrightarrow> length (intact b) = 499" by (simp add: intact_def)

text \<open>The link encryption covers 32 whole blocks and loses nothing.\<close>

lemma link_inverse:
  assumes "is_cell b" "map_option symmetric_key tls' = map_option symmetric_key tls"
  shows "link_decrypt tls' (link_encrypt tls b) = b"
proof (cases tls)
  case None
  then show ?thesis using assms(2) by (simp add: link_encrypt_def link_decrypt_def)
next
  case (Some k)
  then obtain k' where k': "tls' = Some k'" "symmetric_key k' = symmetric_key k" using assms(2) by auto
  have l: "length b = 16 * 32" using assms(1) by simp
  show ?thesis
    using whole_block_roundtrip(1) [OF l k'(2)] assms(1)
    by (simp add: Some k' link_encrypt_def link_decrypt_def)
qed

section \<open>Circuits\<close>

text \<open>
  A circuit is the list of its relays, each with the key of the link that leads to it and its onion
  key. \<open>deliver\<close> is the way of a cell from the wire of the first link to the last relay: every relay
  opens the cell, and all but the last send what they hold on to the next link. \<open>send_back\<close> is the
  way of a cell the last relay sends, to the wire of the first link.
\<close>

type_synonym hop = "key_data \<times> key_data"

fun deliver :: "hop list \<Rightarrow> bytes \<Rightarrow> bytes" where
  "deliver [] c = c"
| "deliver [(tls, key)] c = relay_open (Some tls) (Some key) True c"
| "deliver ((tls, key) # (tls', key') # hops) c =
     deliver ((tls', key') # hops)
       (relay_seal (Some tls') (Some key) False (relay_open (Some tls) (Some key) True c))"

fun send_back :: "hop list \<Rightarrow> bytes \<Rightarrow> bytes" where
  "send_back [] c = c"
| "send_back [(tls, key)] c = relay_seal (Some tls) (Some key) True c"
| "send_back ((tls, key) # (tls', key') # hops) c =
     relay_seal (Some tls) (Some key) True
       (relay_open (Some tls') (Some key) False (send_back ((tls', key') # hops) c))"

text \<open>The client holds the same symmetric keys.\<close>

definition shares_keys :: "key_data \<Rightarrow> key_data list \<Rightarrow> hop list \<Rightarrow> bool" where
  "shares_keys tls onion_keys hops \<longleftrightarrow>
     hops \<noteq> [] \<and> symmetric_key tls = symmetric_key (fst (hd hops)) \<and> length hops \<le> length onion_keys \<and>
     map symmetric_key (take (length hops) onion_keys) = map (symmetric_key \<circ> snd) hops"

abbreviation enc_layer :: "block \<Rightarrow> bytes \<Rightarrow> bytes" where
  "enc_layer key \<equiv> layer (\<lambda>x. aes_encrypt128 x key)"

abbreviation dec_layer :: "block \<Rightarrow> bytes \<Rightarrow> bytes" where
  "dec_layer key \<equiv> layer (\<lambda>x. aes_decrypt128 x key)"

lemma fold_layers:
  "is_cell b \<Longrightarrow> is_cell (fold onion_encrypt ks b) \<and>
     intact (fold onion_encrypt ks b) = fold enc_layer (map symmetric_key ks) (intact b)"
  "is_cell b \<Longrightarrow> is_cell (fold onion_decrypt ks b) \<and>
     intact (fold onion_decrypt ks b) = fold dec_layer (map symmetric_key ks) (intact b)"
  by (induction ks arbitrary: b) (simp_all add: intact_onion)

lemma fold_nth_take: "n \<le> length ks \<Longrightarrow> fold (\<lambda>i. f (ks ! i)) [0..<n] = fold f (take n ks)"
  "n \<le> length ks \<Longrightarrow> fold (\<lambda>i. f (ks ! i)) (rev [0..<n]) = fold f (rev (take n ks))"
proof -
  assume "n \<le> length ks"
  then have m: "map (\<lambda>i. ks ! i) [0..<n] = take n ks" by (intro nth_equalityI) simp_all
  then show "fold (\<lambda>i. f (ks ! i)) [0..<n] = fold f (take n ks)"
    by (simp add: m [symmetric] fold_map comp_def)
  show "fold (\<lambda>i. f (ks ! i)) (rev [0..<n]) = fold f (rev (take n ks))"
    by (simp add: m [symmetric] rev_map fold_map comp_def)
qed

lemma layers_inverse:
  assumes "length x = 499"
  shows "fold dec_layer ks (fold enc_layer (rev ks) x) = x"
  using fold_inverse [of "rev ks" "\<lambda>x. length x = 499" enc_layer dec_layer x] assms
  by (simp add: layer_inverse)

lemma relay_open_link:
  assumes "is_cell x" "symmetric_key t' = symmetric_key t"
  shows "relay_open (Some t') (Some k) from_client (link_encrypt (Some t) x) =
    (if from_client then onion_decrypt k x else x)"
  using link_inverse [OF assms(1), of "Some t'" "Some t"] assms(2) by (simp add: relay_open_def)

lemma deliver_layers:
  "is_cell x \<Longrightarrow> symmetric_key t = symmetric_key (fst (hd hops)) \<Longrightarrow> hops \<noteq> [] \<Longrightarrow>
   intact (deliver hops (link_encrypt (Some t) x)) =
     fold dec_layer (map (symmetric_key \<circ> snd) hops) (intact x)"
proof (induction hops arbitrary: x t rule: induct_list012)
  case 1
  then show ?case by simp
next
  case (2 h)
  then show ?case by (cases h) (simp add: relay_open_link intact_onion)
next
  case (3 h h' hops)
  obtain tl k tl' k' where h: "h = (tl, k)" "h' = (tl', k')" by fastforce
  have "deliver (h # h' # hops) (link_encrypt (Some t) x) =
      deliver (h' # hops) (link_encrypt (Some tl') (onion_decrypt k x))"
    using 3 by (simp add: h relay_open_link relay_seal_def)
  then show ?case
    using 3(2) [of "onion_decrypt k x" tl'] 3(3) by (simp add: h intact_onion)
qed

lemma send_back_layers:
  "is_cell x \<Longrightarrow> hops \<noteq> [] \<Longrightarrow>
   \<exists>y. send_back hops x = link_encrypt (Some (fst (hd hops))) y \<and> is_cell y \<and>
     intact y = fold enc_layer (rev (map (symmetric_key \<circ> snd) hops)) (intact x)"
proof (induction hops rule: induct_list012)
  case 1
  then show ?case by simp
next
  case (2 h)
  then show ?case
    by (cases h) (auto simp: relay_seal_def intact_onion intro!: exI [of _ "onion_encrypt (snd h) x"])
next
  case (3 h h' hops)
  obtain tl k tl' k' where h: "h = (tl, k)" "h' = (tl', k')" by fastforce
  obtain y where y: "send_back (h' # hops) x = link_encrypt (Some (fst (hd (h' # hops)))) y" "is_cell y"
    "intact y = fold enc_layer (rev (map (symmetric_key \<circ> snd) (h' # hops))) (intact x)"
    using 3(2) [OF 3(3)] by blast
  have "send_back (h # h' # hops) x = link_encrypt (Some tl) (onion_encrypt k y)"
    using y(1,2) by (simp add: h relay_open_link relay_seal_def)
  then show ?case
    using y by (intro exI [of _ "onion_encrypt k y"]) (simp add: h intact_onion comp_def)
qed

text \<open>The two directions.\<close>

lemma circuit_forward:
  assumes "shares_keys tls onion_keys hops" "is_cell msg"
  shows "intact (deliver hops (client_seal (Some tls) onion_keys (length hops) msg)) = intact msg"
proof -
  let ?ks = "map (symmetric_key \<circ> snd) hops"
  have n: "length hops \<le> length onion_keys" and t: "symmetric_key tls = symmetric_key (fst (hd hops))"
    and ks: "map symmetric_key (take (length hops) onion_keys) = ?ks" and ne: "hops \<noteq> []"
    using assms(1) by (simp_all add: shares_keys_def)
  define x where "x = fold onion_encrypt (rev (take (length hops) onion_keys)) msg"
  have "is_cell x" "intact x = fold enc_layer (rev ?ks) (intact msg)"
    using fold_layers(1) [OF assms(2), of "rev (take (length hops) onion_keys)"]
    by (simp_all add: x_def rev_map [symmetric] ks)
  moreover have "client_seal (Some tls) onion_keys (length hops) msg = link_encrypt (Some tls) x"
    by (simp add: client_seal_def fold_nth_take [OF n] x_def)
  ultimately show ?thesis
    using deliver_layers [of x tls hops] t ne layers_inverse [of "intact msg" ?ks] assms(2) by simp
qed

lemma circuit_backward:
  assumes "shares_keys tls onion_keys hops" "is_cell msg"
  shows "intact (client_open (Some tls) onion_keys (length hops) (send_back hops msg)) = intact msg"
proof -
  let ?ks = "map (symmetric_key \<circ> snd) hops"
  have n: "length hops \<le> length onion_keys" and t: "symmetric_key tls = symmetric_key (fst (hd hops))"
    and ks: "map symmetric_key (take (length hops) onion_keys) = ?ks" and ne: "hops \<noteq> []"
    using assms(1) by (simp_all add: shares_keys_def)
  obtain y where y: "send_back hops msg = link_encrypt (Some (fst (hd hops))) y" "is_cell y"
    "intact y = fold enc_layer (rev ?ks) (intact msg)"
    using send_back_layers [OF assms(2) ne] by blast
  have "client_open (Some tls) onion_keys (length hops) (send_back hops msg) =
      fold onion_decrypt (take (length hops) onion_keys) y"
    using link_inverse [OF y(2), of "Some tls" "Some (fst (hd hops))"] t y(1)
    by (simp add: client_open_def fold_nth_take [OF n])
  then show ?thesis
    using fold_layers(2) [OF y(2), of "take (length hops) onion_keys"] y(3) ks
      layers_inverse [of "intact msg" ?ks] assms(2) by simp
qed

section \<open>Properties\<close>

text \<open>C1. Onion routing forward: a cell the client seals with the keys of a circuit of any length,
  carried through the relays, each of which removes its layer and re-encrypts for the next link,
  arrives at the last relay as it was built, in every byte that the layers cover in whole
  blocks: the header, the relay fields and the first 485 bytes of the payload.\<close>

theorem onion_forward:
  assumes "shares_keys tls onion_keys hops" "is_cell msg"
  shows "intact (deliver hops (client_seal (Some tls) onion_keys (length hops) msg)) = intact msg"
  using assms by (rule circuit_forward)

text \<open>A sample circuit.\<close>

definition key_of :: "u8 \<Rightarrow> key_data" where
  "key_of b = (init_key create_dh_identity_key)\<lparr>symmetric_key := replicate 16 b\<rparr>"

lemma sample_circuit: "shares_keys (key_of 1) [key_of 2, key_of 3, key_of 4, key_of 0]
    [(key_of 1, key_of 2), (key_of 5, key_of 3), (key_of 6, key_of 4)]"
  by (simp add: shares_keys_def)

lemma sample_length: "length [(key_of 1, key_of 2), (key_of 5, key_of 3), (key_of 6, key_of 4)] = 3"
  by simp

lemma onion_forward_witness:
  "intact (deliver [(key_of 1, key_of 2), (key_of 5, key_of 3), (key_of 6, key_of 4)]
     (client_seal (Some (key_of 1)) [key_of 2, key_of 3, key_of 4, key_of 0] 3 (replicate 512 7))) =
   intact (replicate 512 7)"
  using onion_forward [OF sample_circuit length_replicate] unfolding sample_length .



text \<open>The two sides of a link's key exchange run against each other, each reading whole what the other
  sent, both succeed and end with the same symmetric key.\<close>

theorem link_key_exchange:
  assumes "gmp_documented G" "dh_usable g" "key_pair g a" "key_pair g b"
    and "get_public_identity_key G a ja' = Some pub_a" "get_public_identity_key G b jb = Some pub_b"
    and "length ja = 256" "length ja' = 256" "length jb = 256" "length jb' = 256"
    and "length (fst la) = 256" "length (snd la) = 64" "length (fst lb) = 256" "length (snd lb) = 64"
    and "net_in sa fa = pub_b # ra" "net_in sb fb = pub_a # rb" "net_ok sa fa" "net_ok sb fb"
  shows "\<exists>ka kb sa' sb'. handle_tls_sender G g ja ja' la fa (init_key a) sa = Some (True, ka, sa') \<and>
    handle_tls_recviever G g jb jb' lb fb (init_key b) sb = Some (True, kb, sb') \<and>
    symmetric_key ka = symmetric_key kb \<and>
    net_out sa' = net_out sa @ [(fa, pub_a)] \<and> net_out sb' = net_out sb @ [(fb, pub_b)]"
proof -
  have l: "length pub_a = 256" "length pub_b = 256"
    using import_export(2) [OF assms(1) public_less [OF assms(2,3)], of ja' pub_a]
      import_export(2) [OF assms(1) public_less [OF assms(2,4)], of jb pub_b] assms(5,6,8,9)
    by (simp_all add: get_public_identity_key_def get_dh_public_identity_key_def DH_KEY_BYTES_def)
  obtain ka kb where k:
    "derive_symmetric_key_from_public G g la (init_key a) pub_b = Some ka"
    "derive_symmetric_key_from_public G g lb (init_key b) pub_a = Some kb"
    "symmetric_key ka = symmetric_key kb"
    using session_key_agreement [OF assms(1-4), of ja' jb pub_a pub_b la lb] assms(5-14)
    by (auto simp: ASYMMETRIC_KEY_BYTES_def SHA_PADDING_def)
  have "kd_identity ka = a"
    using k(1) by (auto simp: derive_symmetric_key_from_public_def init_key_def Let_def
        split: Option.bind_splits if_splits)
  moreover have "pub_a \<noteq> []" "pub_b \<noteq> []" using l by auto
  ultimately show ?thesis
    using k assms(5-10,15-18) l
    by (auto simp: handle_tls_sender_def handle_tls_recviever_def recv_tls_msg_def send_tls_msg_def
        read_buffer_whole send_fd_def init_key_def)
qed

lemma link_key_exchange_witness:
  "\<exists>ka kb sa' sb'.
     handle_tls_sender reference_gmp \<lparr>dh_p = 23, dh_g = 5\<rparr> (replicate 256 0) (replicate 256 0)
       (replicate 256 1, replicate 64 2) 4 (init_key \<lparr>this_private = 6, this_public = 8\<rparr>)
       (quiet_net\<lparr>net_in := (\<lambda>_. [19 # replicate 255 0])\<rparr>) = Some (True, ka, sa') \<and>
     handle_tls_recviever reference_gmp \<lparr>dh_p = 23, dh_g = 5\<rparr> (replicate 256 0) (replicate 256 0)
       (replicate 256 3, replicate 64 4) 5 (init_key \<lparr>this_private = 15, this_public = 19\<rparr>)
       (quiet_net\<lparr>net_in := (\<lambda>_. [8 # replicate 255 0])\<rparr>) = Some (True, kb, sb') \<and>
     symmetric_key ka = symmetric_key kb \<and>
     net_out sa' = net_out (quiet_net\<lparr>net_in := (\<lambda>_. [19 # replicate 255 0])\<rparr>) @ [(4, 8 # replicate 255 0)] \<and>
     net_out sb' = net_out (quiet_net\<lparr>net_in := (\<lambda>_. [8 # replicate 255 0])\<rparr>) @ [(5, 19 # replicate 255 0)]"
  by (rule link_key_exchange [where ra = "[]" and rb = "[]"])
     (simp_all add: reference_gmp_documented reference_public_key dh_usable_def key_pair_def
        DH_KEY_BYTES_def quiet_net_def)

end
