(* ===== verification/Relay_Session.thy ===== *)
theory Relay_Session
  imports Onion Hashmaps Event_Loops
begin

text \<open>
  A relay's side of a circuit: \<open>src/relay/router\<close> and \<open>src/relay/net/relay_send_messages.c\<close>. After the
  \<open>create\<close> cell the first relay cell decides the role: \<open>extend\<close> makes a middle relay, which connects to
  the next one and then passes cells both ways; anything else makes an end relay, which opens streams to
  the internet.

  The record \<open>relay_run\<close> has what the functions of both roles pass on: the session, the sockets, the
  cell buffer and the variable \<open>response\<close>; \<open>end_run\<close> adds the stream table and the descriptors
  registered with \<open>epoll\<close>, each with its event data. The boolean results are the code's, whether the
  session goes on. A result \<open>None\<close> is an access outside an object.
\<close>

datatype relay_code = relay_success | relay_error | relay_unexpected_msg | relay_conntinue

record relay_session =
  onion_key :: key_data
  tls_last_key :: key_data
  tls_next_key :: key_data
  last_fd :: int
  next_fd :: int

record relay_run =
  rr_session :: relay_session
  rr_net :: net
  rr_buffer :: bytes
  rr_response :: relay_code

record end_run = relay_run +
  er_streams :: "int hashmap"
  er_watched :: "(int \<times> u32) list"

definition CLIENT_STREAM_ID :: u32 where "CLIENT_STREAM_ID = NOT 0"

section \<open>Cells a relay sends\<close>

text \<open>To the client, with the onion layer and the key of the link before.\<close>

definition send_to_client :: "bytes \<Rightarrow> 'r relay_run_scheme \<Rightarrow> bool \<times> 'r relay_run_scheme" where
  "send_to_client b w =
     (let ses = rr_session w;
          (ok, b, s) = relay_send_tor_buffer (last_fd ses) b (Some (tls_last_key ses)) (Some (onion_key ses)) True (rr_net w)
      in (ok, w\<lparr>rr_net := s, rr_buffer := b\<rparr>))"

definition end_cell :: "u16 \<Rightarrow> u8 \<Rightarrow> bytes \<Rightarrow> bytes" where
  "end_cell stream_id reason b =
     set_end_reason reason (set_relay_cmd RELAY_END (set_relay_stream_id stream_id (set_cell_cmd TOR_RELAY b)))"

definition tor_send_end_relay_end :: "u16 \<Rightarrow> u8 \<Rightarrow> 'r relay_run_scheme \<Rightarrow> bool \<times> 'r relay_run_scheme" where
  "tor_send_end_relay_end stream_id reason w = send_to_client (end_cell stream_id reason (rr_buffer w)) w"

text \<open>
  \<open>tor_send_end_relay_data\<close> writes through the type of an \<open>end\<close> cell, whose array \<open>data\<close> starts one byte
  later, at offset 15.
\<close>

definition data_cell :: "u16 \<Rightarrow> bytes \<Rightarrow> u16 \<Rightarrow> bytes \<Rightarrow> bytes option" where
  "data_cell stream_id data len b =
     (let b = set_relay_length len (set_relay_cmd RELAY_DATA (set_relay_stream_id stream_id (set_cell_cmd TOR_RELAY b)))
      in Option.bind (mem_read 0 (unat len) data) (\<lambda>data. mem_write 15 data b))"

definition tor_send_end_relay_data ::
  "u16 \<Rightarrow> bytes \<Rightarrow> u16 \<Rightarrow> 'r relay_run_scheme \<Rightarrow> (bool \<times> 'r relay_run_scheme) option" where
  "tor_send_end_relay_data stream_id data len w =
     Option.bind (data_cell stream_id data len (rr_buffer w)) (\<lambda>b. Some (send_to_client b w))"

definition connected_cell :: "u16 \<Rightarrow> bytes \<Rightarrow> bytes" where
  "connected_cell stream_id b =
     set_relay_cmd RELAY_CONNECTED (set_relay_stream_id stream_id (set_cell_cmd TOR_RELAY b))"

definition tor_send_end_relay_connected :: "u16 \<Rightarrow> 'r relay_run_scheme \<Rightarrow> bool \<times> 'r relay_run_scheme" where
  "tor_send_end_relay_connected stream_id w = send_to_client (connected_cell stream_id (rr_buffer w)) w"

definition tor_send_middle_relay_create :: "bytes \<Rightarrow> 'r relay_run_scheme \<Rightarrow> bool \<times> 'r relay_run_scheme" where
  "tor_send_middle_relay_create client_public_key w =
     (let ses = rr_session w;
          b = set_create_public_key client_public_key (set_cell_cmd TOR_CREATE (rr_buffer w));
          (ok, b, s) = relay_send_tor_buffer (next_fd ses) b (Some (tls_next_key ses)) None False (rr_net w)
      in (ok, w\<lparr>rr_net := s, rr_buffer := b\<rparr>))"

definition tor_send_middle_relay_extended :: "'r relay_run_scheme \<Rightarrow> bool \<times> 'r relay_run_scheme" where
  "tor_send_middle_relay_extended w =
     send_to_client (set_relay_cmd RELAY_EXTENDED (set_cell_cmd TOR_RELAY (rr_buffer w))) w"

section \<open>The session\<close>

definition init_relay_session :: "identity_key \<Rightarrow> int \<Rightarrow> relay_session" where
  "init_relay_session key sock_fd =
     \<lparr>onion_key = init_key key, tls_last_key = init_key key, tls_next_key = init_key key,
      last_fd = sock_fd, next_fd = -1\<rparr>"

definition free_relay_session :: "relay_session \<Rightarrow> net \<Rightarrow> relay_session \<times> net" where
  "free_relay_session ses s =
     (let ses = ses\<lparr>onion_key := free_key (onion_key ses), tls_last_key := free_key (tls_last_key ses),
                     tls_next_key := free_key (tls_next_key ses)\<rparr>;
          (ses, s) = (if 0 \<le> last_fd ses then (ses\<lparr>last_fd := -1\<rparr>, close_fd (last_fd ses) s) else (ses, s))
      in if 0 \<le> next_fd ses then (ses\<lparr>next_fd := -1\<rparr>, close_fd (next_fd ses) s) else (ses, s))"

text \<open>
  The environment of a session: GMP, the Diffie-Hellman parameters, the relay's key, and the local
  arrays' contents before they are written (keys, hash input, the cell buffers of \<open>relay_middle.c\<close>, the
  stream table).
\<close>

record relay_env =
  re_gmp :: gmp
  re_globals :: dh_globals
  re_key :: identity_key
  re_junk_key :: bytes
  re_junk_key' :: bytes
  re_junk_hash :: bytes
  re_junk_cell :: bytes
  re_junk_streams :: "int hashmap"

definition handle_create_message ::
  "relay_env \<Rightarrow> 'r relay_run_scheme \<Rightarrow> (relay_code \<times> 'r relay_run_scheme) option" where
  "handle_create_message E w =
     (let ses = rr_session w;
          (ok, b, s) = relay_recv_tor_buffer (last_fd ses) (rr_buffer w) (Some (tls_last_key ses)) None True (rr_net w);
          w = w\<lparr>rr_buffer := b, rr_net := s\<rparr>
      in if \<not> ok then Some (relay_error, w)
         else if cell_cmd b \<noteq> TOR_CREATE then Some (relay_error, w)
         else
           Option.bind (get_public_identity_key (re_gmp E) (kd_identity (onion_key ses)) (re_junk_key E)) (\<lambda>relay_public_key.
           Option.bind (derive_symmetric_key_from_public (re_gmp E) (re_globals E) (re_junk_key' E, re_junk_hash E)
               (onion_key ses) (create_public_key b)) (\<lambda>key.
           let ses = ses\<lparr>onion_key := key\<rparr>;
               b = splice 3 (replicate ASYMMETRIC_KEY_BYTES 0) (set_cell_cmd TOR_CREATED b);
               (_, b, s) = relay_send_tor_buffer (last_fd ses) b (Some (tls_last_key ses)) None True s
           in Some (relay_success, w\<lparr>rr_session := ses, rr_buffer := b, rr_net := s\<rparr>))))"

section \<open>The end of a circuit\<close>

text \<open>What the handlers do with the result of a send: carry on, or end the session with an error.\<close>

definition or_error :: "bool \<times> 'r relay_run_scheme \<Rightarrow> bool \<times> 'r relay_run_scheme" where
  "or_error r = (case r of (ok, w) \<Rightarrow> if ok then (True, w) else (False, w\<lparr>rr_response := relay_error\<rparr>))"

definition epoll_add :: "int \<Rightarrow> u32 \<Rightarrow> end_run \<Rightarrow> end_run" where
  "epoll_add fd data w = w\<lparr>er_watched := er_watched w @ [(fd, data)]\<rparr>"

definition epoll_del :: "int \<Rightarrow> end_run \<Rightarrow> end_run" where
  "epoll_del fd w = w\<lparr>er_watched := filter (\<lambda>(fd', _). fd' \<noteq> fd) (er_watched w)\<rparr>"

text \<open>The sockets of all streams are closed, in the order of the table.\<close>

definition close_streams :: "end_run \<Rightarrow> end_run" where
  "close_streams w = w\<lparr>rr_net := fold close_fd (socket_hashmap_free (er_streams w)) (rr_net w)\<rparr>"

definition handle_relay_begin :: "end_run \<Rightarrow> bool \<times> end_run" where
  "handle_relay_begin w =
     (let b = rr_buffer w;
          (relay_addr, len) = sockaddr_to_unix (begin_addr b);
          (sock_fd, s) = connect_server_by_sockaddr relay_addr len (rr_net w);
          w = w\<lparr>rr_net := s\<rparr>;
          stream_id = relay_stream_id b
      in if sock_fd = -1 then or_error (tor_send_end_relay_end stream_id TOR_REASON_END_FAIL_INIT w)
         else
           case socket_hashmap_insert (er_streams w) stream_id sock_fd of
             (None, _) \<Rightarrow> or_error (tor_send_end_relay_end stream_id TOR_REASON_END_FAIL_INIT w)
           | (Some entry, m) \<Rightarrow>
               let w = epoll_add sock_fd (ucast (he_stream_id (m ! entry))) (w\<lparr>er_streams := m\<rparr>)
               in or_error (tor_send_end_relay_connected stream_id w))"

text \<open>
  The length field of the cell is not checked: the payload is read from offset 14 on. \<open>send\<close> of nothing
  returns 0, which the code takes for a closed connection.
\<close>

definition handle_relay_data :: "end_run \<Rightarrow> (bool \<times> end_run) option" where
  "handle_relay_data w =
     (let b = rr_buffer w; stream_id = relay_stream_id b
      in case socket_hashmap_find (er_streams w) stream_id of
           None \<Rightarrow> Some (or_error (tor_send_end_relay_end stream_id TOR_REASON_END_ABSENT w))
         | Some entry \<Rightarrow>
             Option.bind (mem_read 14 (unat (relay_length b)) b) (\<lambda>data.
             let (ok, s) = send_fd (he_data (er_streams w ! entry)) data (rr_net w);
                 w = w\<lparr>rr_net := s\<rparr>
             in if \<not> ok \<or> data = [] then
                  Some (or_error (tor_send_end_relay_end stream_id TOR_REASON_END_EOF w))
                else Some (True, w)))"

definition handle_relay_end :: "end_run \<Rightarrow> bool \<times> end_run" where
  "handle_relay_end w =
     (let stream_id = relay_stream_id (rr_buffer w)
      in case socket_hashmap_find (er_streams w) stream_id of
           None \<Rightarrow>
             (case tor_send_end_relay_end stream_id TOR_REASON_END_ABSENT w of
                (True, w) \<Rightarrow> (True, w)
              | (False, w) \<Rightarrow> (False, (close_streams w)\<lparr>rr_response := relay_error\<rparr>))
         | Some entry \<Rightarrow>
             let sock_fd = he_data (er_streams w ! entry);
                 w = epoll_del sock_fd w;
                 w = w\<lparr>rr_net := close_fd sock_fd (rr_net w),
                       er_streams := snd (socket_hashmap_remove (er_streams w) stream_id)\<rparr>
             in or_error (tor_send_end_relay_end stream_id TOR_REASON_END_DONE w))"

definition handle_client_msg :: "end_run \<Rightarrow> (bool \<times> end_run) option" where
  "handle_client_msg w =
     (let b = rr_buffer w in
      if cell_cmd b = TOR_DESTROY then Some (False, w\<lparr>rr_response := relay_success\<rparr>)
      else if cell_cmd b = TOR_PADDING then Some (or_error (send_to_client b w))
      else if cell_cmd b \<noteq> TOR_RELAY then Some (True, w)
      else if relay_cmd b = RELAY_BEGIN then Some (handle_relay_begin w)
      else if relay_cmd b = RELAY_END then Some (handle_relay_end w)
      else if relay_cmd b = RELAY_DATA then handle_relay_data w
      else Some (True, w))"

text \<open>
  \<open>read_buffer\<close> of \<open>relay_end.c\<close> over what its calls of \<open>read\<close> give: bytes (none at the end of the connection), or -1
  with \<open>errno\<close>. It is the amount, the bytes and the results not looked at; \<open>None\<close> when no call returns any more.
\<close>

datatype read_result = Read_got bytes | Read_again | Read_interrupted | Read_failed

fun relay_read_buffer :: "nat \<Rightarrow> read_result list \<Rightarrow> (int \<times> bytes \<times> read_result list) option" where
  "relay_read_buffer n [] = None"
| "relay_read_buffer n (Read_got d # rs) =
     Some (int (length (take n d)), take n d, if n < length d then Read_got (drop n d) # rs else rs)"
| "relay_read_buffer n (Read_again # rs) = Some (0, [], rs)"
| "relay_read_buffer n (Read_interrupted # rs) = relay_read_buffer n rs"
| "relay_read_buffer n (Read_failed # rs) = Some (- 1, [], rs)"

text \<open>Its caller asks only whether the amount is positive, so it is \<open>read_fd\<close> on what remains when the interrupted calls are left out.\<close>

fun chunk_of :: "read_result \<Rightarrow> bytes list" where
  "chunk_of (Read_got d) = [d]"
| "chunk_of Read_interrupted = []"
| "chunk_of r = [[]]"

lemma relay_read_buffer_is_read_fd:
  assumes "relay_read_buffer n rs = Some (amount, data, rs')" "net_in s fd = concat (map chunk_of rs)" "0 < n"
  shows "read_fd fd n s = (if 0 < amount then Some data else None, s\<lparr>net_in := (net_in s)(fd := concat (map chunk_of rs'))\<rparr>)"
  using assms
proof (induction n rs rule: relay_read_buffer.induct)
  case (2 n d rs)
  then show ?case by (cases "d = []") (auto simp: read_fd_def fun_upd_def cong: if_cong)
qed (auto simp: read_fd_def fun_upd_def)

text \<open>The socket of a stream is readable; at most 498 bytes are taken.\<close>

definition handle_internet_event :: "nat \<Rightarrow> end_run \<Rightarrow> (bool \<times> end_run) option" where
  "handle_internet_event entry w =
     (let sock_fd = he_data (er_streams w ! entry);
          (data, s) = read_fd sock_fd RELAY_MSG_SIZE (rr_net w);
          w = w\<lparr>rr_net := s\<rparr>;
          stream_id = he_stream_id (er_streams w ! entry)
      in case data of
           None \<Rightarrow>
             let w = epoll_del sock_fd w;
                 w = w\<lparr>rr_net := close_fd sock_fd (rr_net w),
                       er_streams := snd (socket_hashmap_remove (er_streams w) stream_id)\<rparr>
             in Some (or_error (tor_send_end_relay_end stream_id TOR_REASON_END_EOF w))
         | Some data \<Rightarrow>
             map_option or_error (tor_send_end_relay_data stream_id data (word_of_nat (length data)) w))"

definition end_handle_event :: "u32 \<Rightarrow> end_run \<Rightarrow> (bool \<times> end_run) option" where
  "end_handle_event event w =
     (if event = CLIENT_STREAM_ID then
        let ses = rr_session w;
            (ok, b, s) = relay_recv_tor_buffer (last_fd ses) (rr_buffer w) (Some (tls_last_key ses))
                           (Some (onion_key ses)) True (rr_net w);
            w = w\<lparr>rr_buffer := b, rr_net := s\<rparr>
        in if \<not> ok then Some (False, w\<lparr>rr_response := relay_error\<rparr>) else handle_client_msg w
      else
        case socket_hashmap_find (er_streams w) (ucast event) of
          None \<Rightarrow> Some (False, w\<lparr>rr_response := relay_error\<rparr>)
        | Some entry \<Rightarrow> handle_internet_event entry w)"

text \<open>What \<open>epoll_wait\<close> comes back with: the data of one event, an interruption, or an error.\<close>

datatype wait_result = Event u32 | Interrupted | Wait_error

definition handle_epoll_event :: "wait_result \<Rightarrow> end_run \<Rightarrow> (bool \<times> end_run) option" where
  "handle_epoll_event r w =
     (case r of
        Event event \<Rightarrow> end_handle_event event w
      | Interrupted \<Rightarrow> Some (True, w)
      | Wait_error \<Rightarrow> Some (False, w\<lparr>rr_response := relay_error\<rparr>))"

text \<open>
  The loop over the results of \<open>epoll_wait\<close>. The first component says whether the session has ended by
  the end of the list; then its sockets have been closed.
\<close>

fun end_events :: "wait_result list \<Rightarrow> end_run \<Rightarrow> (bool \<times> end_run) option" where
  "end_events [] w = Some (False, w)"
| "end_events (r # rs) w =
     (case handle_epoll_event r w of
        None \<Rightarrow> None
      | Some (False, w) \<Rightarrow> Some (True, close_streams w)
      | Some (True, w) \<Rightarrow> end_events rs w)"

text \<open>The start: an empty table, and the client's link registered.\<close>

definition end_start :: "relay_env \<Rightarrow> relay_run \<Rightarrow> end_run" where
  "end_start E w = epoll_add (last_fd (rr_session w)) CLIENT_STREAM_ID
     (relay_run.extend (w\<lparr>rr_response := relay_success\<rparr>)
       (end_run.fields (socket_hashmap_init (re_junk_streams E)) []))"

text \<open>When the first cell already ends the session, nothing is closed.\<close>

definition process_end_relay_session ::
  "relay_env \<Rightarrow> wait_result list \<Rightarrow> relay_run \<Rightarrow> (bool \<times> end_run) option" where
  "process_end_relay_session E rs w =
     Option.bind (handle_client_msg (end_start E w)) (\<lambda>(running, w).
     if \<not> running then Some (True, w) else end_events rs w)"

section \<open>In the middle of a circuit\<close>

text \<open>
  \<open>next_fd\<close> is set to the result of the connection attempt, also when that is -1; the key exchange then
  fails on it.
\<close>

definition extend_relay :: "relay_env \<Rightarrow> relay_run \<Rightarrow> (relay_code \<times> relay_run) option" where
  "extend_relay E w =
     (let b = rr_buffer w;
          (relay_addr, len) = sockaddr_to_unix (extend_addr b);
          (fd, s) = connect_server_by_sockaddr relay_addr len (rr_net w);
          ses = (rr_session w)\<lparr>next_fd := fd\<rparr>
      in Option.bind (handle_tls_sender (re_gmp E) (re_globals E) (re_junk_key E) (re_junk_key' E)
             (re_junk_key E, re_junk_hash E) fd (tls_next_key ses) s) (\<lambda>(ok, key, s).
         let w = w\<lparr>rr_session := ses\<lparr>tls_next_key := key\<rparr>, rr_net := s\<rparr>
         in if \<not> ok then Some (relay_error, w) else
         case tor_send_middle_relay_create (extend_public_key b) w of
           (False, w) \<Rightarrow> Some (relay_error, w)
         | (True, w) \<Rightarrow>
             let (ok, b, s) = relay_recv_tor_buffer fd (rr_buffer w) (Some key) None False (rr_net w);
                 w = w\<lparr>rr_buffer := b, rr_net := s\<rparr>
             in if \<not> ok then Some (relay_error, w)
                else if cell_cmd b \<noteq> TOR_CREATED then Some (relay_error, w)
                else case tor_send_middle_relay_extended w of
                       (False, w) \<Rightarrow> Some (relay_error, w)
                     | (True, w) \<Rightarrow> Some (relay_success, w)))"

text \<open>
  A cell is received in one local buffer and sent from the other; the result also gives the received
  cell, which stays open.
\<close>

definition handle_fd_common :: "relay_env \<Rightarrow> bool \<Rightarrow> relay_run \<Rightarrow> bool \<times> bytes \<times> relay_run" where
  "handle_fd_common E from_client w =
     (let ses = rr_session w;
          recv_sock_fd = (if from_client then last_fd ses else next_fd ses);
          recv_tls_key = (if from_client then tls_last_key ses else tls_next_key ses);
          (ok, recv_msg, s) = relay_recv_tor_buffer recv_sock_fd (re_junk_cell E) (Some recv_tls_key)
                                (Some (onion_key ses)) from_client (rr_net w)
      in if \<not> ok then (False, recv_msg, w\<lparr>rr_net := s, rr_response := relay_error\<rparr>)
         else
           let send_sock_fd = (if from_client then next_fd ses else last_fd ses);
               send_tls_key = (if from_client then tls_next_key ses else tls_last_key ses);
               (ok, _, s) = relay_send_tor_buffer send_sock_fd recv_msg (Some send_tls_key)
                              (Some (onion_key ses)) (\<not> from_client) s
           in if \<not> ok then (False, recv_msg, w\<lparr>rr_net := s, rr_response := relay_error\<rparr>)
              else (True, recv_msg, w\<lparr>rr_net := s\<rparr>))"

definition handle_last_fd :: "relay_env \<Rightarrow> relay_run \<Rightarrow> bool \<times> relay_run" where
  "handle_last_fd E w =
     (case handle_fd_common E True w of
        (False, _, w) \<Rightarrow> (False, w)
      | (True, recv, w) \<Rightarrow>
          if cell_cmd recv = TOR_DESTROY then (False, w\<lparr>rr_response := relay_success\<rparr>) else (True, w))"

definition handle_next_fd :: "relay_env \<Rightarrow> relay_run \<Rightarrow> bool \<times> relay_run" where
  "handle_next_fd E w = (case handle_fd_common E False w of (ok, _, w) \<Rightarrow> (ok, w))"

definition process_event :: "relay_env \<Rightarrow> int \<Rightarrow> relay_run \<Rightarrow> bool \<times> relay_run" where
  "process_event E fd w = (if fd = last_fd (rr_session w) then handle_last_fd E w else handle_next_fd E w)"

text \<open>
  The loop over the results of \<open>epoll_wait\<close>, a descriptor or \<open>None\<close> for an error. The result is the code
  the session ends with, if it ends within the list. The response of a session that goes on is the
  \<open>relay_success\<close> of \<open>extend_relay\<close>.
\<close>

fun middle_events :: "relay_env \<Rightarrow> int option list \<Rightarrow> relay_run \<Rightarrow> relay_code option \<times> relay_run" where
  "middle_events E [] w = (None, w)"
| "middle_events E (None # es) w = (Some relay_error, w)"
| "middle_events E (Some fd # es) w =
     (case process_event E fd w of
        (False, w) \<Rightarrow> (Some (rr_response w), w)
      | (True, w) \<Rightarrow> middle_events E es w)"

definition process_middle_relay_session ::
  "relay_env \<Rightarrow> int option list \<Rightarrow> relay_run \<Rightarrow> (relay_code option \<times> relay_run) option" where
  "process_middle_relay_session E es w =
     Option.bind (extend_relay E w) (\<lambda>(response, w).
     if response \<noteq> relay_success then Some (Some response, w)
     else Some (middle_events E es (w\<lparr>rr_response := response\<rparr>)))"

text \<open>Both loops are event loops; the middle one keeps the code it ends with in its result.\<close>

definition middle_handle :: "relay_env \<Rightarrow> int option \<Rightarrow> relay_run \<Rightarrow> (bool \<times> relay_run) option" where
  "middle_handle E e w = Some (case e of None \<Rightarrow> (False, w) | Some fd \<Rightarrow> process_event E fd w)"

interpretation end_loop: event_loop handle_epoll_event close_streams end_events
  by unfold_locales (auto split: option.splits)

interpretation middle_loop: event_loop "middle_handle E" "\<lambda>w. w"
    "\<lambda>es w. Some (apfst (\<lambda>code. code \<noteq> None) (middle_events E es w))" for E
proof
  show "Some (apfst (\<lambda>code. code \<noteq> None) (middle_events E (e # es) w)) = Option.bind (middle_handle E e w)
      (\<lambda>(ok, w). if ok then Some (apfst (\<lambda>code. code \<noteq> None) (middle_events E es w)) else Some (True, w))" for e es w
    by (cases e) (auto simp: middle_handle_def split: prod.splits bool.splits)
qed simp

section \<open>From the first cell on\<close>

text \<open>
  What a session comes to: it returns a code, or goes on as a middle or an end relay after the given
  events. A failing \<open>recv_tor_buffer\<close> returns the \<open>relay_success\<close> of the \<open>create\<close> cell.
\<close>

datatype session_result = Returned relay_code relay_run | Middle relay_run | End end_run

definition process_relay_session ::
  "relay_env \<Rightarrow> int option list \<Rightarrow> wait_result list \<Rightarrow> relay_run \<Rightarrow> session_result option" where
  "process_relay_session E es rs w =
     Option.bind (handle_create_message E w) (\<lambda>(return_value, w).
     if return_value \<noteq> relay_success then Some (Returned return_value w)
     else
       let ses = rr_session w;
           (ok, b, s) = relay_recv_tor_buffer (last_fd ses) (rr_buffer w) (Some (tls_last_key ses))
                          (Some (onion_key ses)) True (rr_net w);
           w = w\<lparr>rr_buffer := b, rr_net := s\<rparr>
       in if \<not> ok then Some (Returned return_value w)
          else if cell_cmd b = TOR_RELAY \<and> relay_cmd b = RELAY_EXTEND then
            map_option (\<lambda>(r, w). case r of None \<Rightarrow> Middle w | Some code \<Rightarrow> Returned code w)
              (process_middle_relay_session E es w)
          else
            map_option (\<lambda>(ended, w). if ended then Returned (rr_response w) (relay_run.truncate w) else End w)
              (process_end_relay_session E rs w))"

text \<open>
  A connection the relay accepts: the key exchange of the link, then the session. A session that returned
  an error is not freed. A failed key exchange counts as one here, but its session is freed, without
  closing the socket a second time.
\<close>

definition relay_client_callback ::
  "relay_env \<Rightarrow> bytes \<Rightarrow> int option list \<Rightarrow> wait_result list \<Rightarrow> int \<Rightarrow> net \<Rightarrow> session_result option" where
  "relay_client_callback E buffer es rs user_fd s =
     (let ses = init_relay_session (re_key E) user_fd
      in Option.bind (handle_tls_recviever (re_gmp E) (re_globals E) (re_junk_key E) (re_junk_key' E)
             (re_junk_key E, re_junk_hash E) user_fd (tls_last_key ses) s) (\<lambda>(ok, key, s).
         let ses = ses\<lparr>tls_last_key := key\<rparr>;
             run = (\<lambda>(ses, s) code. \<lparr>rr_session = ses, rr_net = s, rr_buffer = buffer, rr_response = code\<rparr>)
         in if \<not> ok then
              Some (Returned relay_error (run (free_relay_session (ses\<lparr>last_fd := -1\<rparr>) s) relay_error))
            else
              map_option (\<lambda>r. case r of
                  Returned relay_success w \<Rightarrow>
                    Returned relay_success (run (free_relay_session (rr_session w) (rr_net w)) relay_success)
                | r \<Rightarrow> r)
                (process_relay_session E es rs (run (ses, s) relay_success))))"

section \<open>Sending and receiving whole cells\<close>

lemma relay_recv_whole:
  assumes "net_in s fd = cell # rest" "length cell = length b" "cell \<noteq> []"
  shows "relay_recv_tor_buffer fd b tls key from_client s =
    (True, relay_open tls key from_client cell, s\<lparr>net_in := (net_in s)(fd := rest)\<rparr>)"
  using assms by (simp add: relay_recv_tor_buffer_def read_buffer_whole)

lemma relay_send_out:
  "net_ok s fd \<Longrightarrow> relay_send_tor_buffer fd b tls key to_client s =
     (True, relay_seal tls key to_client b, s\<lparr>net_out := net_out s @ [(fd, relay_seal tls key to_client b)]\<rparr>)"
  by (simp add: relay_send_tor_buffer_def send_fd_def Let_def)

text \<open>What the session puts on the wire to the client, and the state after it.\<close>

definition client_wire :: "relay_session \<Rightarrow> bytes \<Rightarrow> bytes" where
  "client_wire ses b = relay_seal (Some (tls_last_key ses)) (Some (onion_key ses)) True b"

lemma send_to_client_out:
  assumes "net_ok (rr_net w) (last_fd (rr_session w))"
  shows "send_to_client b w = (True,
    w\<lparr>rr_net := rr_net w\<lparr>net_out := net_out (rr_net w) @ [(last_fd (rr_session w), client_wire (rr_session w) b)]\<rparr>,
      rr_buffer := client_wire (rr_session w) b\<rparr>)"
  using assms by (simp add: send_to_client_def relay_send_out client_wire_def Let_def)

text \<open>A handler's answer never touches the streams, whether it goes out or not.\<close>

lemma send_to_client_frame:
  assumes "send_to_client b w = (ok, w')"
  shows "er_streams w' = er_streams w" "er_watched w' = er_watched w" "rr_session w' = rr_session w"
    "rr_buffer w' = client_wire (rr_session w) b"
    "net_connects (rr_net w') = net_connects (rr_net w)" "net_closed (rr_net w') = net_closed (rr_net w)"
    "net_dialed (rr_net w') = net_dialed (rr_net w)"
  using assms by (auto simp: send_to_client_def relay_send_tor_buffer_def send_fd_def client_wire_def Let_def
      split: if_splits)

lemma or_error_frame:
  assumes "or_error r = (ok, w')"
  shows "er_streams w' = er_streams (snd r)" "er_watched w' = er_watched (snd r)" "rr_session w' = rr_session (snd r)"
    "rr_buffer w' = rr_buffer (snd r)" "rr_net w' = rr_net (snd r)" "ok \<longleftrightarrow> fst r"
  using assms by (auto simp: or_error_def split: prod.splits if_splits)

section \<open>A middle relay is a hop\<close>

text \<open>
  What a middle relay does with a cell from either side: exactly the step that \<open>deliver\<close> and \<open>send_back\<close>
  make for it.
\<close>

lemma middle_forward:
  assumes "is_cell (re_junk_cell E)" "is_cell cell" "net_in (rr_net w) (last_fd (rr_session w)) = cell # rest"
    and "net_ok (rr_net w) (next_fd (rr_session w))"
  defines "ses \<equiv> rr_session w"
  defines "plain \<equiv> relay_open (Some (tls_last_key ses)) (Some (onion_key ses)) True cell"
  defines "sent \<equiv> relay_seal (Some (tls_next_key ses)) (Some (onion_key ses)) False plain"
  shows "\<exists>w'. handle_last_fd E w = (cell_cmd plain \<noteq> TOR_DESTROY, w') \<and> rr_session w' = ses \<and>
    net_out (rr_net w') = net_out (rr_net w) @ [(next_fd ses, sent)]"
proof -
  have "cell \<noteq> []" using assms(2) by auto
  then show ?thesis
    using assms(1-4)
    by (simp add: handle_last_fd_def handle_fd_common_def relay_recv_whole relay_send_out Let_def
        ses_def plain_def sent_def)
qed

lemma middle_backward:
  assumes "is_cell (re_junk_cell E)" "is_cell cell" "net_in (rr_net w) (next_fd (rr_session w)) = cell # rest"
    and "net_ok (rr_net w) (last_fd (rr_session w))"
  defines "ses \<equiv> rr_session w"
  defines "sent \<equiv> client_wire ses (relay_open (Some (tls_next_key ses)) (Some (onion_key ses)) False cell)"
  shows "\<exists>w'. handle_next_fd E w = (True, w') \<and> rr_session w' = ses \<and>
    net_out (rr_net w') = net_out (rr_net w) @ [(last_fd ses, sent)]"
proof -
  have "cell \<noteq> []" using assms(2) by auto
  then show ?thesis
    using assms(1-4)
    by (simp add: handle_next_fd_def handle_fd_common_def relay_recv_whole relay_send_out Let_def
        ses_def sent_def client_wire_def)
qed

section \<open>The streams of an end relay and the descriptors it waits for\<close>

text \<open>The open streams, each with its socket; no two streams share one.\<close>

definition open_streams :: "int hashmap \<Rightarrow> (int \<times> u16) set" where
  "open_streams m = {(he_data (m ! i), he_stream_id (m ! i)) |i.
     i < HASHMAP_AMOUNT \<and> entry_type (m ! i) = HASHMAP_STATE_FILLED}"

definition table_ok :: "int hashmap \<Rightarrow> bool" where
  "table_ok m \<longleftrightarrow> map_ok m \<and> (\<forall>i < HASHMAP_AMOUNT. \<forall>j < HASHMAP_AMOUNT.
     entry_type (m ! i) = HASHMAP_STATE_FILLED \<longrightarrow> entry_type (m ! j) = HASHMAP_STATE_FILLED \<longrightarrow>
     he_data (m ! i) = he_data (m ! j) \<longrightarrow> i = j)"

lemma open_streamsI:
  "i < HASHMAP_AMOUNT \<Longrightarrow> entry_type (m ! i) = HASHMAP_STATE_FILLED \<Longrightarrow>
   (he_data (m ! i), he_stream_id (m ! i)) \<in> open_streams m"
  by (auto simp: open_streams_def)

lemma stream_inserted:
  assumes "table_ok m" "socket_hashmap_insert m s fd = (Some i, m')" "fd \<notin> fst ` open_streams m"
  shows "table_ok m'" "open_streams m' = insert (fd, s) (open_streams m)" "he_stream_id (m' ! i) = s"
proof -
  define e where "e = \<lparr>entry_type = HASHMAP_STATE_FILLED, he_stream_id = s, he_data = fd\<rparr>"
  have e: "entry_type e = HASHMAP_STATE_FILLED" "he_stream_id e = s" "he_data e = fd" by (simp_all add: e_def)
  have ok: "map_ok m" using assms(1) by (simp add: table_ok_def)
  obtain p: "insert_probe m s (home s) = Some i" and m': "m' = m[i := e]"
    using assms(2) by (auto simp: socket_hashmap_insert_def filled_entry e_def split: option.splits)
  note eff = insert_effect [OF ok p e(1,2)]
  have free: "entry_type (m ! i) \<noteq> HASHMAP_STATE_FILLED" by (rule insert_some [OF p])
  have at: "m' ! k = (if k = i then e else m ! k)" for k using eff(1) ok by (simp add: m' map_okD)
  show "he_stream_id (m' ! i) = s" by (simp add: at e)
  show "open_streams m' = insert (fd, s) (open_streams m)"
    using eff(1) free e unfolding open_streams_def at by auto
  have new: "he_data (m ! k) \<noteq> fd" if "k < HASHMAP_AMOUNT" "entry_type (m ! k) = HASHMAP_STATE_FILLED" for k
    using assms(3) open_streamsI [OF that] by force
  show "table_ok m'"
    using assms(1) eff(2) new new [symmetric] e unfolding table_ok_def at m' [symmetric] by (auto split: if_splits)
qed

lemma stream_removed:
  assumes "table_ok m" "socket_hashmap_find m s = Some i"
  shows "table_ok (snd (socket_hashmap_remove m s))" "i < HASHMAP_AMOUNT"
    "(he_data (m ! i), s) \<in> open_streams m" "he_stream_id (m ! i) = s"
    "open_streams (snd (socket_hashmap_remove m s)) = {(fd, t) \<in> open_streams m. fd \<noteq> he_data (m ! i)}"
proof -
  define e where "e = (m ! i)\<lparr>entry_type := HASHMAP_STATE_DELETED\<rparr>"
  have e: "entry_type e = HASHMAP_STATE_DELETED" by (simp add: e_def)
  have ok: "map_ok m" using assms(1) by (simp add: table_ok_def)
  have p: "find_probe m s (home s) = Some i" using assms(2) by (simp add: socket_hashmap_find_def)
  have m': "snd (socket_hashmap_remove m s) = m[i := e]" by (simp add: socket_hashmap_remove_def p e_def)
  note eff = remove_effect [OF ok p e] and f = find_some [OF p]
  have at: "m[i := e] ! k = (if k = i then e else m ! k)" for k using eff(1) ok by (simp add: map_okD)
  show "i < HASHMAP_AMOUNT" by (rule eff(1))
  show "he_stream_id (m ! i) = s" using f(2) by (simp add: holds_def)
  then show "(he_data (m ! i), s) \<in> open_streams m" using f by (auto simp: open_streams_def holds_def)
  have one: "he_data (m ! k) = he_data (m ! i) \<Longrightarrow> k = i"
    if "k < HASHMAP_AMOUNT" "entry_type (m ! k) = HASHMAP_STATE_FILLED" for k
    using assms(1) that f by (auto simp: table_ok_def holds_def)
  have "open_streams (m[i := e]) =
      {(he_data (m[i := e] ! k), he_stream_id (m[i := e] ! k)) |k. k < HASHMAP_AMOUNT \<and> k \<noteq> i \<and>
        entry_type (m ! k) = HASHMAP_STATE_FILLED}"
    using e unfolding open_streams_def by (auto simp: at)
  also have "\<dots> = {(he_data (m ! k), he_stream_id (m ! k)) |k. k < HASHMAP_AMOUNT \<and> k \<noteq> i \<and>
        entry_type (m ! k) = HASHMAP_STATE_FILLED}"
    by (rule Collect_cong) (rule iff_exI, auto simp: at)
  also have "\<dots> = {(he_data (m ! k), he_stream_id (m ! k)) |k. k < HASHMAP_AMOUNT \<and>
        entry_type (m ! k) = HASHMAP_STATE_FILLED \<and> he_data (m ! k) \<noteq> he_data (m ! i)}"
    by (rule Collect_cong, rule iff_exI) (use one in blast)
  also have "\<dots> = {(fd, t) \<in> open_streams m. fd \<noteq> he_data (m ! i)}" unfolding open_streams_def by auto
  finally show "open_streams (snd (socket_hashmap_remove m s)) = {(fd, t) \<in> open_streams m. fd \<noteq> he_data (m ! i)}"
    unfolding m' .
  show "table_ok (snd (socket_hashmap_remove m s))"
    using assms(1) eff(2) e unfolding m' table_ok_def at by auto
qed

text \<open>
  The invariant of a running end session: it waits for the client and for exactly the sockets of its
  open streams, each under the number of its stream.
\<close>

definition end_ok :: "end_run \<Rightarrow> bool" where
  "end_ok w \<longleftrightarrow> table_ok (er_streams w) \<and>
     set (er_watched w) = insert (last_fd (rr_session w), CLIENT_STREAM_ID)
       ((\<lambda>(fd, s). (fd, ucast s)) ` open_streams (er_streams w)) \<and>
     last_fd (rr_session w) \<notin> fst ` open_streams (er_streams w)"

text \<open>The kernel gives a new connection a descriptor that is not in use.\<close>

definition fresh_connect :: "end_run \<Rightarrow> bool" where
  "fresh_connect w \<longleftrightarrow> (\<forall>sock connected rest. net_connects (rr_net w) = (sock, connected) # rest \<longrightarrow>
     sock \<noteq> last_fd (rr_session w) \<and> sock \<notin> fst ` open_streams (er_streams w))"

lemma end_ok_cong:
  "er_streams w' = er_streams w \<Longrightarrow> er_watched w' = er_watched w \<Longrightarrow> rr_session w' = rr_session w \<Longrightarrow>
   end_ok w' \<longleftrightarrow> end_ok w"
  by (simp add: end_ok_def)

lemma end_ok_answer:
  assumes "or_error (send_to_client b w) = (ok, w')" "end_ok w"
  shows "end_ok w'"
  using or_error_frame [OF assms(1)] send_to_client_frame [of b w "fst (send_to_client b w)" "snd (send_to_client b w)"]
    assms(2) by (simp add: end_ok_cong [of w' w])

lemma end_ok_close:
  assumes "end_ok w" "socket_hashmap_find (er_streams w) s = Some i"
  shows "end_ok ((epoll_del (he_data (er_streams w ! i)) w)
    \<lparr>rr_net := n, er_streams := snd (socket_hashmap_remove (er_streams w) s)\<rparr>)"
proof -
  have t: "table_ok (er_streams w)" using assms(1) by (simp add: end_ok_def)
  show ?thesis
    using assms(1) stream_removed [OF t assms(2)]
    unfolding end_ok_def epoll_del_def by (auto simp: image_iff)
qed

lemma end_ok_open:
  assumes "end_ok w" "socket_hashmap_insert (er_streams w) s fd = (Some i, m)"
    and "fd \<notin> fst ` open_streams (er_streams w)" "fd \<noteq> last_fd (rr_session w)"
  shows "end_ok (epoll_add fd (ucast (he_stream_id (m ! i))) (w\<lparr>er_streams := m\<rparr>))"
proof -
  have t: "table_ok (er_streams w)" using assms(1) by (simp add: end_ok_def)
  show ?thesis
    using assms(1,4) stream_inserted [OF t assms(2,3)]
    unfolding end_ok_def epoll_add_def by (auto simp: image_iff)
qed

text \<open>Every handler keeps the invariant, also when it ends the session.\<close>

lemmas end_answers = tor_send_end_relay_end_def tor_send_end_relay_connected_def

lemma end_ok_frame [simp]:
  "end_ok (w\<lparr>rr_net := s\<rparr>) = end_ok w" "end_ok (w\<lparr>rr_buffer := b\<rparr>) = end_ok w"
  "end_ok (w\<lparr>rr_response := c\<rparr>) = end_ok w"
  "end_ok (snd (send_to_client b w)) = end_ok w" "end_ok (snd (or_error r)) = end_ok (snd r)"
  using send_to_client_frame [of b w "fst (send_to_client b w)" "snd (send_to_client b w)"]
  by (simp_all add: end_ok_def or_error_def split: prod.splits)

lemma connect_frame:
  assumes "connect_server_by_sockaddr a n s = (fd, s')" "fd \<noteq> -1"
  shows "\<exists>connected rest. net_connects s = (fd, connected) # rest"
  using assms by (auto simp: connect_server_by_sockaddr_def Let_def split: list.splits prod.splits if_splits)

lemma end_ok_begin:
  assumes "end_ok w" "fresh_connect w"
  shows "end_ok (snd (handle_relay_begin w))"
proof -
  obtain addr len where a: "sockaddr_to_unix (begin_addr (rr_buffer w)) = (addr, len)" by fastforce
  obtain fd s where c: "connect_server_by_sockaddr addr len (rr_net w) = (fd, s)" by fastforce
  let ?w = "w\<lparr>rr_net := s\<rparr>" and ?sid = "relay_stream_id (rr_buffer w)"
  obtain e m where m: "socket_hashmap_insert (er_streams w) ?sid fd = (e, m)" by fastforce
  show ?thesis
  proof (cases "fd = -1")
    case True
    then show ?thesis using assms(1) a c by (simp add: handle_relay_begin_def end_answers Let_def)
  next
    case fd: False
    show ?thesis
    proof (cases e)
      case None
      then show ?thesis using assms(1) a c m fd None by (simp add: handle_relay_begin_def end_answers Let_def)
    next
      case (Some i)
      obtain connected rest where "net_connects (rr_net w) = (fd, connected) # rest"
        using connect_frame [OF c fd] by auto
      then have "fd \<notin> fst ` open_streams (er_streams ?w)" "fd \<noteq> last_fd (rr_session ?w)"
        using assms(2) by (simp_all add: fresh_connect_def)
      then have "end_ok (epoll_add fd (ucast (he_stream_id (m ! i))) (?w\<lparr>er_streams := m\<rparr>))"
        using end_ok_open [of ?w ?sid fd i m] assms(1) m Some by simp
      then show ?thesis using a c m fd Some by (simp add: handle_relay_begin_def end_answers Let_def)
    qed
  qed
qed

lemma end_ok_end:
  assumes "end_ok w"
  shows "end_ok (snd (handle_relay_end w))"
proof (cases "socket_hashmap_find (er_streams w) (relay_stream_id (rr_buffer w))")
  case None
  let ?r = "send_to_client (end_cell (relay_stream_id (rr_buffer w)) TOR_REASON_END_ABSENT (rr_buffer w)) w"
  have "end_ok (snd ?r)" using assms by simp
  then show ?thesis
    using None by (cases ?r) (simp add: handle_relay_end_def end_answers close_streams_def split: bool.splits)
next
  case (Some i)
  then show ?thesis
    using end_ok_close [OF assms Some]
    by (simp add: handle_relay_end_def end_answers Let_def epoll_del_def)
qed

lemma end_ok_data:
  assumes "end_ok w" "handle_relay_data w = Some r"
  shows "end_ok (snd r)"
proof (cases "socket_hashmap_find (er_streams w) (relay_stream_id (rr_buffer w))")
  case None
  then show ?thesis using assms by (auto simp: handle_relay_data_def end_answers Let_def)
next
  case (Some i)
  then show ?thesis
    using assms by (auto simp: handle_relay_data_def end_answers Let_def split: Option.bind_splits prod.splits if_splits)
qed

lemma end_ok_client_msg:
  assumes "end_ok w" "fresh_connect w" "handle_client_msg w = Some r"
  shows "end_ok (snd r)"
  using assms(3) end_ok_begin [OF assms(1,2)] end_ok_end [OF assms(1)] end_ok_data [OF assms(1)] assms(1)
  unfolding handle_client_msg_def Let_def by (auto split: if_splits)

lemma end_ok_internet:
  assumes "end_ok w" "socket_hashmap_find (er_streams w) s = Some i" "handle_internet_event i w = Some r"
  shows "end_ok (snd r)"
proof -
  have t: "table_ok (er_streams w)" using assms(1) by (simp add: end_ok_def)
  obtain data n where d: "read_fd (he_data (er_streams w ! i)) RELAY_MSG_SIZE (rr_net w) = (data, n)" by fastforce
  note ok = end_ok_close [OF assms(1,2)] and s = stream_removed(4) [OF t assms(2)]
  show ?thesis
  proof (cases data)
    case None
    then show ?thesis
      using assms(3) d s ok by (auto simp: handle_internet_event_def end_answers Let_def epoll_del_def)
  next
    case (Some x)
    then obtain r' where r': "tor_send_end_relay_data (he_stream_id (er_streams w ! i)) x (word_of_nat (length x))
        (w\<lparr>rr_net := n\<rparr>) = Some r'" "r = or_error r'"
      using assms(3) d by (auto simp: handle_internet_event_def Let_def)
    then obtain b where "r' = send_to_client b (w\<lparr>rr_net := n\<rparr>)"
      by (cases "data_cell (he_stream_id (er_streams w ! i)) x (word_of_nat (length x)) (rr_buffer w)")
        (auto simp: tor_send_end_relay_data_def)
    then show ?thesis using assms(1) r'(2) by simp
  qed
qed

lemma recv_connects:
  assumes "relay_recv_tor_buffer fd b tls key c s = (r, b', s')"
  shows "net_connects s' = net_connects s"
  using assms by (auto simp: relay_recv_tor_buffer_def read_buffer_def read_fd_def Let_def
      split: option.splits list.splits prod.splits bool.splits if_splits)

lemma end_ok_event:
  assumes "end_ok w" "fresh_connect w" "end_handle_event event w = Some r"
  shows "end_ok (snd r)"
proof (cases "event = CLIENT_STREAM_ID")
  case True
  obtain q b s where q: "relay_recv_tor_buffer (last_fd (rr_session w)) (rr_buffer w)
      (Some (tls_last_key (rr_session w))) (Some (onion_key (rr_session w))) True (rr_net w) = (q, b, s)"
    by (metis surj_pair)
  let ?w = "w\<lparr>rr_buffer := b, rr_net := s\<rparr>"
  have "end_ok ?w" "fresh_connect ?w"
    using assms(1,2) recv_connects [OF q] by (simp_all add: fresh_connect_def)
  then show ?thesis
    using assms(3) True q end_ok_client_msg [of ?w r]
    by (auto simp: end_handle_event_def Let_def split: if_splits)
next
  case False
  then show ?thesis
    using assms end_ok_internet [OF assms(1)]
    by (auto simp: end_handle_event_def split: option.splits)
qed

text \<open>
  The states of an end session at its calls of \<open>epoll_wait\<close>. Between two calls the world outside may
  change the sockets in any way.
\<close>

inductive end_step :: "end_run \<Rightarrow> end_run \<Rightarrow> bool" where
  handled: "handle_epoll_event r w = Some (True, w') \<Longrightarrow> fresh_connect w \<Longrightarrow> end_step w w'"
| outside: "end_step w (w\<lparr>rr_net := s\<rparr>)"

inductive end_reachable :: "end_run \<Rightarrow> bool" where
  first_cell: "length (re_junk_streams E) = HASHMAP_AMOUNT \<Longrightarrow> fresh_connect (end_start E w) \<Longrightarrow>
     handle_client_msg (end_start E w) = Some (True, w') \<Longrightarrow> end_reachable w'"
| step: "end_reachable w \<Longrightarrow> end_step w w' \<Longrightarrow> end_reachable w'"

lemma end_start_ok:
  assumes "length (re_junk_streams E) = HASHMAP_AMOUNT"
  shows "end_ok (end_start E w)"
proof -
  let ?m = "socket_hashmap_init (re_junk_streams E)"
  have "open_streams ?m = {}" "table_ok ?m"
    using init_ok(1) [OF assms] init_nth(2) [OF assms] by (auto simp: open_streams_def table_ok_def)
  then show ?thesis
    by (simp add: end_ok_def end_start_def epoll_add_def relay_run.defs end_run.defs)
qed

lemma end_reachable_ok: "end_reachable w \<Longrightarrow> end_ok w"
proof (induction rule: end_reachable.induct)
  case (first_cell E w w')
  then show ?case using end_ok_client_msg [OF end_start_ok] by force
next
  case (step w w')
  from step(2) show ?case
  proof (cases rule: end_step.cases)
    case (handled r)
    then show ?thesis
      using step end_ok_event [of w _ "(True, w')"] by (cases r) (auto simp: handle_epoll_event_def)
  next
    case (outside s)
    then show ?thesis using step by simp
  qed
qed

lemma ucast_not_client: "(ucast (s :: u16) :: u32) \<noteq> CLIENT_STREAM_ID"
proof
  assume "(ucast s :: u32) = CLIENT_STREAM_ID"
  then have "bit (ucast s :: u32) 20 = bit (NOT 0 :: u32) 20" by (simp add: CLIENT_STREAM_ID_def)
  then show False by (auto simp: bit_simps dest: bit_imp_le_length)
qed

lemma ucast_ucast_stream: "ucast (ucast s :: u32) = (s :: u16)"
  by (rule bit_word_eqI) (auto simp: bit_simps)

text \<open>An event of any registered descriptor is the client's or finds a stream.\<close>

lemma watched_found:
  assumes "end_ok w" "(fd, d) \<in> set (er_watched w)"
  shows "fd = last_fd (rr_session w) \<and> d = CLIENT_STREAM_ID \<or>
    (\<exists>i. socket_hashmap_find (er_streams w) (ucast d) = Some i)"
proof -
  have ok: "map_ok (er_streams w)" using assms(1) by (simp add: end_ok_def table_ok_def)
  consider "(fd, d) = (last_fd (rr_session w), CLIENT_STREAM_ID)"
    | s where "d = ucast s" "(fd, s) \<in> open_streams (er_streams w)"
    using assms by (auto simp: end_ok_def)
  then show ?thesis
  proof cases
    case 1
    then show ?thesis by simp
  next
    case 2
    then obtain i where "i < HASHMAP_AMOUNT" "holds (er_streams w ! i) s"
      by (auto simp: open_streams_def holds_def)
    then show ?thesis
      using find_complete [OF ok, of i s] 2(1) ucast_ucast_stream [of s] by (auto simp: socket_hashmap_find_def)
  qed
qed

section \<open>What the handlers do with the stream table\<close>

lemma inserted_entry:
  assumes "map_insert m s v = Some m'" "length m = HASHMAP_AMOUNT"
  obtains i where "socket_hashmap_insert m s v = (Some i, m')" "he_stream_id (m' ! i) = s"
proof -
  obtain i where i: "insert_probe m s (home s) = Some i" "socket_hashmap_insert m s v = (Some i, m')"
    "m' = m[i := \<lparr>entry_type = HASHMAP_STATE_FILLED, he_stream_id = s, he_data = v\<rparr>]"
    using assms(1) by (auto simp: map_insert_def socket_hashmap_insert_def filled_entry split: option.splits)
  obtain n where "i = slot s n" by (rule insert_some [OF i(1)])
  then show ?thesis using that [OF i(2)] i(3) assms(2) by simp
qed

lemma connect_success:
  "net_connects s = (fd, True) # rest \<Longrightarrow> fd \<noteq> -1 \<Longrightarrow>
   connect_server_by_sockaddr a n s = (fd, s\<lparr>net_connects := rest, net_dialed := net_dialed s @ [(a, n)]\<rparr>)"
  by (simp add: connect_server_by_sockaddr_def Let_def)

lemma begin_opens:
  assumes t: "map_ok (er_streams w)" "unique (er_streams w)" and n: "map_lookup (er_streams w) sid = None"
    and r: "card (dom (map_lookup (er_streams w))) < HASHMAP_AMOUNT"
    and c: "net_connects (rr_net w) = (fd, True) # rest" "fd \<noteq> -1"
    and o: "net_ok (rr_net w) (last_fd (rr_session w))" and sid: "sid = relay_stream_id (rr_buffer w)"
  shows "\<exists>w'. handle_relay_begin w = (True, w') \<and> map_ok (er_streams w') \<and> unique (er_streams w') \<and>
    map_lookup (er_streams w') = (map_lookup (er_streams w))(sid \<mapsto> fd) \<and>
    er_watched w' = er_watched w @ [(fd, ucast sid)] \<and>
    net_dialed (rr_net w') = net_dialed (rr_net w) @ [sockaddr_to_unix (begin_addr (rr_buffer w))] \<and>
    net_out (rr_net w') = net_out (rr_net w) @
      [(last_fd (rr_session w), client_wire (rr_session w) (connected_cell sid (rr_buffer w)))]"
proof -
  obtain m where m: "map_insert (er_streams w) sid fd = Some m" "map_ok m" "unique m"
    "map_lookup m = (map_lookup (er_streams w))(sid \<mapsto> fd)"
    using streams.ins_law [of "er_streams w" sid fd] t n r by blast
  obtain i where "socket_hashmap_insert (er_streams w) sid fd = (Some i, m)" "he_stream_id (m ! i) = sid"
    by (rule inserted_entry [OF m(1) map_okD [OF t(1)]])
  moreover obtain a l where "sockaddr_to_unix (begin_addr (rr_buffer w)) = (a, l)" by fastforce
  ultimately show ?thesis
    using m(2-4) o connect_success [OF c] c(2) sid
    by (simp add: handle_relay_begin_def tor_send_end_relay_connected_def send_to_client_out or_error_def
        epoll_add_def Let_def)
qed

lemma end_closes:
  assumes t: "map_ok (er_streams w)" "unique (er_streams w)"
    and o: "net_ok (rr_net w) (last_fd (rr_session w))" and sid: "sid = relay_stream_id (rr_buffer w)"
    and f: "map_lookup (er_streams w) sid = Some fd"
  shows "\<exists>w'. handle_relay_end w = (True, w') \<and> map_ok (er_streams w') \<and> unique (er_streams w') \<and>
    map_lookup (er_streams w') = (map_lookup (er_streams w))(sid := None) \<and>
    er_watched w' = filter (\<lambda>(fd', _). fd' \<noteq> fd) (er_watched w) \<and>
    net_closed (rr_net w') = net_closed (rr_net w) @ [fd] \<and>
    net_out (rr_net w') = net_out (rr_net w) @
      [(last_fd (rr_session w), client_wire (rr_session w) (end_cell sid TOR_REASON_END_DONE (rr_buffer w)))]"
proof -
  obtain i where i: "socket_hashmap_find (er_streams w) sid = Some i" "he_data (er_streams w ! i) = fd"
    using f by (auto simp: map_lookup_def)
  have "map_ok (map_remove (er_streams w) sid)" "unique (map_remove (er_streams w) sid)"
    "map_lookup (map_remove (er_streams w) sid) = (map_lookup (er_streams w))(sid := None)"
    using streams.del_law [of "er_streams w" sid] t by auto
  then show ?thesis
    using i o sid
    by (simp add: handle_relay_end_def tor_send_end_relay_end_def send_to_client_out or_error_def epoll_del_def
        close_fd_def map_remove_def Let_def)
qed

lemma end_absent:
  assumes "net_ok (rr_net w) (last_fd (rr_session w))" and "sid = relay_stream_id (rr_buffer w)"
    and "map_lookup (er_streams w) sid = None"
  shows "handle_relay_end w = (True, snd (send_to_client (end_cell sid TOR_REASON_END_ABSENT (rr_buffer w)) w))"
  using assms by (simp add: handle_relay_end_def map_lookup_def tor_send_end_relay_end_def send_to_client_out Let_def)

lemma data_sent:
  assumes "map_lookup (er_streams w) (relay_stream_id (rr_buffer w)) = Some fd" "net_ok (rr_net w) fd"
    and "is_cell (rr_buffer w)" "n = unat (relay_length (rr_buffer w))" "0 < n" "n \<le> 498"
  shows "handle_relay_data w = Some (True, w\<lparr>rr_net := rr_net w\<lparr>net_out := net_out (rr_net w) @
    [(fd, take n (relay_payload (rr_buffer w)))]\<rparr>\<rparr>)"
proof -
  have "take n (relay_payload (rr_buffer w)) = slice 14 n (rr_buffer w)"
    using assms(6) by (simp add: relay_payload_def slice_def)
  moreover have "slice 14 n (rr_buffer w) \<noteq> []" using assms(3,5) by (simp add: slice_def)
  ultimately show ?thesis
    using assms by (auto simp: handle_relay_data_def map_lookup_def mem_read_def slice_def send_fd_def Let_def)
qed

text \<open>Where the data of a \<open>data\<close> cell of the relay ends up.\<close>

lemma data_cell_shifted:
  assumes "is_cell b" "data \<noteq> []" "length data \<le> 498" "len = word_of_nat (length data)"
  shows "(case data_cell stream_id data len b of
      None \<Rightarrow> length data = 498
    | Some c \<Rightarrow> length data < 498 \<and> is_cell c \<and> relay_length c = len \<and>
        take (length data) (relay_payload c) = b ! 14 # butlast data)"
proof -
  define h where "h = set_relay_length len (set_relay_cmd RELAY_DATA (set_relay_stream_id stream_id (set_cell_cmd TOR_RELAY b)))"
  have h: "is_cell h" using assms(1) by (simp add: h_def)
  have hl: "get16 11 h = len"
    using assms(1) by (simp add: h_def set_relay_length_def put16_def get16_splice_same)
  have h14: "h ! 14 = b ! 14"
    using assms(1) by (simp add: h_def cell_writers nth_splice)
  have n: "unat len = length data"
    using assms(3,4) by (simp add: unsigned_of_nat take_bit_eq_mod)
  have c: "data_cell stream_id data len b = mem_write 15 data h"
    using n by (simp add: data_cell_def h_def mem_read_def)
  show ?thesis
  proof (cases "length data = 498")
    case True
    then show ?thesis using h by (simp add: c mem_write_def)
  next
    case False
    then have w: "data_cell stream_id data len b = Some (splice 15 data h)"
      using assms(3) h by (simp add: c mem_write_def splice_def)
    have "take (length data) (slice 14 498 (splice 15 data h)) = b ! 14 # butlast data"
    proof (rule nth_equalityI)
      show "length (take (length data) (slice 14 498 (splice 15 data h))) = length (b ! 14 # butlast data)"
        using assms(2,3) h False by (simp add: slice_def)
      fix i assume "i < length (take (length data) (slice 14 498 (splice 15 data h)))"
      then have "i < length data" by (simp add: slice_def)
      then show "take (length data) (slice 14 498 (splice 15 data h)) ! i = (b ! 14 # butlast data) ! i"
        using assms(3) h h14 False
        by (cases i) (simp_all add: slice_def nth_splice nth_butlast)
    qed
    moreover have "get16 11 (splice 15 data h) = len"
      using get16_splice_other [of 11 h 15 data] hl h assms(3) False by simp
    ultimately show ?thesis
      using w h assms(3) False by (simp add: relay_payload_def relay_length_def)
  qed
qed

lemma data_cell_fields:
  assumes "is_cell b" "data_cell stream_id data len b = Some c"
  shows "cell_cmd c = TOR_RELAY" "relay_cmd c = RELAY_DATA" "relay_stream_id c = stream_id"
proof -
  define h where "h = set_relay_length len (set_relay_cmd RELAY_DATA (set_relay_stream_id stream_id (set_cell_cmd TOR_RELAY b)))"
  have h: "is_cell h" "h ! 2 = TOR_RELAY" "h ! 13 = RELAY_DATA" "get16 3 h = stream_id"
    using assms(1) by (simp_all add: h_def cell_writers nth_splice get16_splice_same get16_splice_other)
  obtain xs where "c = splice 15 xs h" "15 + length xs \<le> length h"
    using assms(2) by (auto simp: data_cell_def h_def [symmetric] mem_write_def splice_def Let_def
        split: Option.bind_splits if_splits)
  then show "cell_cmd c = TOR_RELAY" "relay_cmd c = RELAY_DATA" "relay_stream_id c = stream_id"
    using h by (simp_all add: cell_cmd_def relay_cmd_def relay_stream_id_def nth_splice get16_splice_other)
qed

section \<open>Properties\<close>

text \<open>C9. A middle relay is one hop of the circuit, both ways: a cell that arrives whole from the client's side
  goes out to the next relay as \<open>deliver\<close> demands, and the session goes on unless it was a \<open>destroy\<close>; a
  cell from the next relay goes out towards the client as \<open>send_back\<close> demands.\<close>

theorem middle_relay_is_a_hop:
  assumes "is_cell (re_junk_cell E)" "is_cell cell" "ses = rr_session w" "last_fd ses \<noteq> next_fd ses"
    and "net_ok (rr_net w) (next_fd ses)" "net_ok (rr_net w) (last_fd ses)"
  shows "(net_in (rr_net w) (last_fd ses) = cell # rest \<longrightarrow>
      (\<exists>w' sent. process_event E (last_fd ses) w =
         (cell_cmd (relay_open (Some (tls_last_key ses)) (Some (onion_key ses)) True cell) \<noteq> TOR_DESTROY, w') \<and>
       net_out (rr_net w') = net_out (rr_net w) @ [(next_fd ses, sent)] \<and>
       (\<forall>key hops. deliver ((tls_last_key ses, onion_key ses) # (tls_next_key ses, key) # hops) cell =
          deliver ((tls_next_key ses, key) # hops) sent))) \<and>
    (net_in (rr_net w) (next_fd ses) = cell # rest \<longrightarrow>
      (\<exists>w' sent. process_event E (next_fd ses) w = (True, w') \<and>
       net_out (rr_net w') = net_out (rr_net w) @ [(last_fd ses, sent)] \<and>
       (\<forall>key hops msg. cell = send_back ((tls_next_key ses, key) # hops) msg \<longrightarrow>
          sent = send_back ((tls_last_key ses, onion_key ses) # (tls_next_key ses, key) # hops) msg)))"
proof (intro conjI impI)
  assume "net_in (rr_net w) (last_fd ses) = cell # rest"
  then show "\<exists>w' sent. process_event E (last_fd ses) w =
         (cell_cmd (relay_open (Some (tls_last_key ses)) (Some (onion_key ses)) True cell) \<noteq> TOR_DESTROY, w') \<and>
       net_out (rr_net w') = net_out (rr_net w) @ [(next_fd ses, sent)] \<and>
       (\<forall>key hops. deliver ((tls_last_key ses, onion_key ses) # (tls_next_key ses, key) # hops) cell =
          deliver ((tls_next_key ses, key) # hops) sent)"
    using middle_forward [of E cell w rest] assms by (fastforce simp: process_event_def)
next
  assume "net_in (rr_net w) (next_fd ses) = cell # rest"
  then show "\<exists>w' sent. process_event E (next_fd ses) w = (True, w') \<and>
       net_out (rr_net w') = net_out (rr_net w) @ [(last_fd ses, sent)] \<and>
       (\<forall>key hops msg. cell = send_back ((tls_next_key ses, key) # hops) msg \<longrightarrow>
          sent = send_back ((tls_last_key ses, onion_key ses) # (tls_next_key ses, key) # hops) msg)"
    using middle_backward [of E cell w rest] assms by (fastforce simp: process_event_def client_wire_def)
qed

text \<open>A session of a relay whose two links have descriptors 4 and 5.\<close>

definition sample_relay_env :: relay_env where
  "sample_relay_env = \<lparr>re_gmp = reference_gmp, re_globals = \<lparr>dh_p = 23, dh_g = 5\<rparr>,
     re_key = \<lparr>this_private = 6, this_public = 8\<rparr>, re_junk_key = replicate 256 0, re_junk_key' = replicate 256 0,
     re_junk_hash = replicate 64 0, re_junk_cell = replicate 512 0, re_junk_streams = blank_map\<rparr>"

definition sample_relay_run :: "bytes \<Rightarrow> relay_run" where
  "sample_relay_run b = \<lparr>rr_session = \<lparr>onion_key = key_of 2, tls_last_key = key_of 1, tls_next_key = key_of 5,
       last_fd = 4, next_fd = 5\<rparr>,
     rr_net = quiet_net\<lparr>net_in := (\<lambda>_. [replicate 512 7]), net_connects := [(9, True)]\<rparr>,
     rr_buffer = b, rr_response = relay_success\<rparr>"

definition sample_end_run :: "bytes \<Rightarrow> end_run" where
  "sample_end_run b = end_start sample_relay_env (sample_relay_run b)"

lemma middle_relay_is_a_hop_witness:
  "\<exists>w' sent. process_event sample_relay_env 5 (sample_relay_run []) = (True, w') \<and>
     net_out (rr_net w') = [(4, sent)]"
proof -
  have "is_cell (re_junk_cell sample_relay_env)" "is_cell (replicate 512 (7 :: u8))" by (simp_all add: sample_relay_env_def)
  from middle_relay_is_a_hop [OF this refl, of "sample_relay_run []" "[]"] show ?thesis
    by (force simp: sample_relay_run_def quiet_net_def)
qed

text \<open>C10. At every wait of an end session, the descriptors registered with \<open>epoll\<close> are the client's link and
  exactly the sockets of the open streams, each under its stream's number; so an event the kernel
  reports never ends the session for want of its stream. This holds whatever cells, data and
  interruptions arrived, as long as the kernel gives out descriptors that are not in use.\<close>

theorem end_session_watches_streams:
  assumes "end_reachable w"
  shows "set (er_watched w) = insert (last_fd (rr_session w), CLIENT_STREAM_ID)
       ((\<lambda>(fd, s). (fd, ucast s)) ` open_streams (er_streams w)) \<and>
    (\<forall>(fd, d) \<in> set (er_watched w). d = CLIENT_STREAM_ID \<or> socket_hashmap_find (er_streams w) (ucast d) \<noteq> None)"
proof
  have ok: "end_ok w" by (rule end_reachable_ok [OF assms])
  then show "set (er_watched w) = insert (last_fd (rr_session w), CLIENT_STREAM_ID)
       ((\<lambda>(fd, s). (fd, ucast s)) ` open_streams (er_streams w))" by (simp add: end_ok_def)
  show "\<forall>(fd, d) \<in> set (er_watched w). d = CLIENT_STREAM_ID \<or> socket_hashmap_find (er_streams w) (ucast d) \<noteq> None"
    using watched_found [OF ok] by fastforce
qed

lemma sample_end_facts [simp]:
  "rr_buffer (sample_end_run b) = b" "rr_session (sample_end_run b) = rr_session (sample_relay_run b)"
  "rr_net (sample_end_run b) = quiet_net\<lparr>net_in := (\<lambda>_. [replicate 512 7]), net_connects := [(9, True)]\<rparr>"
  "er_streams (sample_end_run b) = socket_hashmap_init blank_map"
  "er_watched (sample_end_run b) = [(4, CLIENT_STREAM_ID)]" "last_fd (rr_session (sample_relay_run b)) = 4"
  by (simp_all add: sample_end_run_def end_start_def epoll_add_def relay_run.defs end_run.defs sample_relay_run_def
      sample_relay_env_def)

lemma sample_end_reachable: "end_reachable (sample_end_run (replicate 512 7))"
proof (rule end_reachable.first_cell [of sample_relay_env "sample_relay_run (replicate 512 7)"],
    unfold sample_end_run_def [symmetric])
  show "length (re_junk_streams sample_relay_env) = HASHMAP_AMOUNT"
    by (simp add: sample_relay_env_def blank_map)
  have "open_streams (er_streams (sample_end_run b)) = {}" for b
    using init_nth(2) [OF blank_map(4)] by (simp add: open_streams_def)
  then show "fresh_connect (sample_end_run (replicate 512 7))" by (simp add: fresh_connect_def)
  show "handle_client_msg (sample_end_run (replicate 512 7)) = Some (True, sample_end_run (replicate 512 7))"
    by (simp add: handle_client_msg_def cell_cmd_def TOR_DESTROY_def TOR_PADDING_def TOR_RELAY_def)
qed

lemma end_session_watches_streams_witness:
  "(4, CLIENT_STREAM_ID) \<in> set (er_watched (sample_end_run (replicate 512 7)))"
  using end_session_watches_streams [OF sample_end_reachable] by (simp only: sample_end_facts) simp

text \<open>A \<open>begin\<close> cell opens its stream: the relay dials the address in the cell, enters the connection under
  the stream's number, leaves all other streams as they are, registers the socket under that
  number and answers \<open>connected\<close>.\<close>

theorem relay_begin_opens_stream:
  assumes "cell_cmd (rr_buffer w) = TOR_RELAY" "relay_cmd (rr_buffer w) = RELAY_BEGIN"
    and "map_ok (er_streams w)" "unique (er_streams w)" "sid = relay_stream_id (rr_buffer w)"
    and "map_lookup (er_streams w) sid = None" "card (dom (map_lookup (er_streams w))) < HASHMAP_AMOUNT"
    and "net_connects (rr_net w) = (fd, True) # rest" "fd \<noteq> -1" "net_ok (rr_net w) (last_fd (rr_session w))"
  shows "\<exists>w'. handle_client_msg w = Some (True, w') \<and> map_ok (er_streams w') \<and> unique (er_streams w') \<and>
    map_lookup (er_streams w') = (map_lookup (er_streams w))(sid \<mapsto> fd) \<and>
    er_watched w' = er_watched w @ [(fd, ucast sid)] \<and>
    net_dialed (rr_net w') = net_dialed (rr_net w) @ [sockaddr_to_unix (begin_addr (rr_buffer w))] \<and>
    net_out (rr_net w') = net_out (rr_net w) @
      [(last_fd (rr_session w), client_wire (rr_session w) (connected_cell sid (rr_buffer w)))]"
  using begin_opens [OF assms(3,4,6-10,5)] assms(1,2)
  by (simp add: handle_client_msg_def TOR_RELAY_def TOR_DESTROY_def TOR_PADDING_def)

text \<open>A relay cell for stream 5.\<close>

definition sample_cell :: "u8 \<Rightarrow> bytes" where
  "sample_cell c = set_relay_cmd c (set_relay_stream_id 5 (set_cell_cmd TOR_RELAY (replicate 512 0)))"

lemma sample_cell: "cell_cmd (sample_cell c) = TOR_RELAY" "relay_cmd (sample_cell c) = c"
    "relay_stream_id (sample_cell c) = 5" "is_cell (sample_cell c)"
  by (simp_all add: sample_cell_def cell_writers cell_readers splice_def get16_def le16_bytes_def le16_def nth_append)

lemma fresh_table: "map_ok (socket_hashmap_init blank_map)" "unique (socket_hashmap_init blank_map)"
  "map_lookup (socket_hashmap_init blank_map) = (\<lambda>_. None)"
  using init_ok [OF blank_map(4)] by (auto simp: map_lookup_def socket_hashmap_find_def)

lemma relay_begin_opens_stream_witness:
  "\<exists>w'. handle_client_msg (sample_end_run (sample_cell RELAY_BEGIN)) = Some (True, w') \<and>
     map_lookup (er_streams w') = [5 \<mapsto> 9] \<and> er_watched w' = [(4, CLIENT_STREAM_ID), (9, ucast (5 :: u16))]"
proof -
  have "dom (map_lookup (er_streams (sample_end_run (sample_cell RELAY_BEGIN)))) = {}" by (simp add: fresh_table)
  then show ?thesis
    using relay_begin_opens_stream [of "sample_end_run (sample_cell RELAY_BEGIN)" 5 9 "[]"]
    by (simp add: sample_cell fresh_table quiet_net_def HASHMAP_AMOUNT_def) blast
qed

text \<open>An \<open>end\<close> cell closes exactly its stream: the socket is taken out of \<open>epoll\<close> and closed, the entry is
  removed and \<open>end\<close> is answered; for a stream that is not open only the answer goes out.\<close>

theorem relay_end_closes_stream:
  assumes "cell_cmd (rr_buffer w) = TOR_RELAY" "relay_cmd (rr_buffer w) = RELAY_END"
    and "map_ok (er_streams w)" "unique (er_streams w)" "sid = relay_stream_id (rr_buffer w)"
    and "net_ok (rr_net w) (last_fd (rr_session w))"
  shows "\<exists>w'. handle_client_msg w = Some (True, w') \<and> map_ok (er_streams w') \<and> unique (er_streams w') \<and>
    map_lookup (er_streams w') = (map_lookup (er_streams w))(sid := None) \<and>
    (case map_lookup (er_streams w) sid of
       None \<Rightarrow> er_watched w' = er_watched w \<and> net_closed (rr_net w') = net_closed (rr_net w)
     | Some fd \<Rightarrow> er_watched w' = filter (\<lambda>(fd', _). fd' \<noteq> fd) (er_watched w) \<and>
         net_closed (rr_net w') = net_closed (rr_net w) @ [fd])"
proof -
  have h: "handle_client_msg w = Some (handle_relay_end w)"
    using assms(1,2)
    by (simp add: handle_client_msg_def TOR_RELAY_def TOR_DESTROY_def TOR_PADDING_def RELAY_END_def RELAY_BEGIN_def)
  show ?thesis
  proof (cases "map_lookup (er_streams w) sid")
    case None
    have "(map_lookup (er_streams w))(sid := None) = map_lookup (er_streams w)" using None by auto
    then show ?thesis
      using end_absent [OF assms(6,5) None] None h assms(3,4,6) by (simp add: send_to_client_out)
  next
    case (Some fd)
    then show ?thesis using end_closes [OF assms(3,4,6,5) Some] h by auto
  qed
qed

lemma relay_end_closes_stream_witness:
  "\<exists>w'. handle_client_msg ((sample_end_run (sample_cell RELAY_END))\<lparr>er_streams := snd (socket_hashmap_insert blank_map 5 42)\<rparr>)
      = Some (True, w') \<and> map_lookup (er_streams w') 5 = None"
proof -
  have f: "map_lookup blank_map 5 = None" "card (dom (map_lookup blank_map)) < HASHMAP_AMOUNT"
    using blank_map find_none_iff [OF blank_map(1)]
    by (auto simp: map_lookup_def socket_hashmap_find_def holds_def dom_def HASHMAP_AMOUNT_def)
  obtain m where m: "map_insert blank_map 5 42 = Some m" "map_ok m" "unique m"
    using streams.ins_law [of blank_map 5 42] blank_map(1,2) f by blast
  then have "snd (socket_hashmap_insert blank_map 5 42) = m" by (auto simp: map_insert_def split: prod.splits option.splits)
  then show ?thesis
    using relay_end_closes_stream [of "(sample_end_run (sample_cell RELAY_END))\<lparr>er_streams := m\<rparr>"
        5] m(2,3)
    by (auto simp: sample_cell quiet_net_def)
qed

text \<open>C33. The length field of a \<open>data\<close> cell decides what happens: 1 to 498 bytes of the payload go out on the
  stream's socket and nothing else changes, but a larger length makes the relay read past the cell,
  the check is missing.\<close>

theorem relay_data_by_length:
  assumes "cell_cmd (rr_buffer w) = TOR_RELAY" "relay_cmd (rr_buffer w) = RELAY_DATA" "is_cell (rr_buffer w)"
    and "map_lookup (er_streams w) (relay_stream_id (rr_buffer w)) = Some fd" "net_ok (rr_net w) fd"
    and "n = unat (relay_length (rr_buffer w))" "0 < n"
  shows "handle_client_msg w =
    (if n \<le> 498 then Some (True, w\<lparr>rr_net := rr_net w\<lparr>net_out := net_out (rr_net w) @
       [(fd, take n (relay_payload (rr_buffer w)))]\<rparr>\<rparr>) else None)"
proof -
  have h: "handle_client_msg w = handle_relay_data w"
    using assms(1,2)
    by (simp add: handle_client_msg_def TOR_RELAY_def TOR_DESTROY_def TOR_PADDING_def RELAY_END_def RELAY_BEGIN_def
        RELAY_DATA_def)
  show ?thesis
  proof (cases "n \<le> 498")
    case True
    then show ?thesis using data_sent [OF assms(4,5,3,6,7) True] h by simp
  next
    case False
    then show ?thesis using assms(3,4,6) h by (auto simp: handle_relay_data_def map_lookup_def mem_read_def Let_def)
  qed
qed

lemma relay_data_by_length_witness:
  "handle_client_msg ((sample_end_run (set_relay_length 499 (sample_cell RELAY_DATA)))
     \<lparr>er_streams := snd (socket_hashmap_insert blank_map 5 42)\<rparr>) = None"
proof -
  have f: "map_lookup blank_map 5 = None" "card (dom (map_lookup blank_map)) < HASHMAP_AMOUNT"
    using blank_map find_none_iff [OF blank_map(1)]
    by (auto simp: map_lookup_def socket_hashmap_find_def holds_def dom_def HASHMAP_AMOUNT_def)
  obtain m where m: "map_insert blank_map 5 42 = Some m" "map_lookup m = (map_lookup blank_map)(5 \<mapsto> 42)"
    using streams.ins_law [of blank_map 5 42] blank_map(1,2) f by blast
  have "snd (socket_hashmap_insert blank_map 5 42) = m"
    using m(1) by (auto simp: map_insert_def split: prod.splits option.splits)
  moreover have "cell_cmd (set_relay_length 499 (sample_cell RELAY_DATA)) = TOR_RELAY"
    "relay_cmd (set_relay_length 499 (sample_cell RELAY_DATA)) = RELAY_DATA"
    "relay_stream_id (set_relay_length 499 (sample_cell RELAY_DATA)) = 5"
    "relay_length (set_relay_length 499 (sample_cell RELAY_DATA)) = 499"
    by (simp_all add: sample_cell_def cell_writers cell_readers splice_def get16_def le16_bytes_def le16_def nth_append)
  ultimately show ?thesis
    using relay_data_by_length [of "(sample_end_run (set_relay_length 499 (sample_cell RELAY_DATA)))\<lparr>er_streams := m\<rparr>"
        42 499] m(2)
    by (simp add: quiet_net_def sample_cell)
qed

text \<open>The two programs disagree about where the data of a \<open>data\<close> cell starts: the relay writes it one byte
  late, so a client that takes the payload at its own offset reads a stale byte first and misses
  the last one, and a full 498 bytes run over the end of the cell.\<close>

theorem relay_data_cell_shifted:
  assumes "is_cell b" "data \<noteq> []" "length data \<le> 498" "len = word_of_nat (length data)"
  shows "(case data_cell stream_id data len b of
      None \<Rightarrow> length data = 498
    | Some c \<Rightarrow> length data < 498 \<and> is_cell c \<and> relay_length c = len \<and>
        take (length data) (relay_payload c) = b ! 14 # butlast data)"
  using assms by (rule data_cell_shifted)

lemma relay_data_cell_shifted_witness:
  "case data_cell 5 [1, 2, 3] 3 (replicate 512 0) of
     None \<Rightarrow> False
   | Some c \<Rightarrow> take 3 (relay_payload c) = [0, 1, 2]"
  using relay_data_cell_shifted [of "replicate 512 0" "[1, 2, 3]" 3 5] 
  by (auto simp: numeral_3_eq_3 split: option.splits)

end
