(* ===== verification/C_Strings.thy ===== *)
theory C_Strings
  imports Prelude "HOL-Library.Char_ord"
begin

text \<open>
  What the programs use of the C library on strings and on standard input, and the functions of
  \<open>src/utils/string_utils\<close>. A C string is its characters before the terminating zero.
\<close>

definition NUL :: char where "NUL = CHR 0x00"
definition newline :: char where "newline = CHR 0x0A"

text \<open>The string at the start of a block of characters; \<open>None\<close> when no terminator is in it.\<close>

definition c_string :: "string \<Rightarrow> string option" where
  "c_string mem = (if NUL \<in> set mem then Some (takeWhile (\<lambda>c. c \<noteq> NUL) mem) else None)"

text \<open>
  \<open>fgets(buffer, n, stdin)\<close>, where \<open>n\<close> is what the size becomes as an \<open>int\<close>: the characters stored, without
  the terminator, and the input left; \<open>None\<close> is \<open>NULL\<close>, with the buffer unchanged.
\<close>

definition fgets :: "int \<Rightarrow> string \<Rightarrow> string option \<times> string" where
  "fgets n inp =
     (if n \<le> 0 then (None, inp)
      else if n = 1 then (Some [], inp)
      else if inp = [] then (None, inp)
      else
        let line = takeWhile (\<lambda>c. c \<noteq> newline) inp;
            line = (if length line < length inp then line @ [newline] else line);
            got = take (nat n - 1) line
        in (Some got, drop (length got) inp))"

text \<open>The prefix that \<open>buffer[strcspn(buffer, newline)] = 0\<close> leaves.\<close>

definition cut_line :: "string \<Rightarrow> string" where
  "cut_line s = takeWhile (\<lambda>c. c \<noteq> newline \<and> c \<noteq> NUL) s"

text \<open>
  \<open>atoi\<close>: white space, an optional sign, digits. The result is cut to the width of an \<open>int\<close>, read without
  its sign, which is how the programs store it.
\<close>

definition is_space :: "char \<Rightarrow> bool" where
  "is_space c \<longleftrightarrow> c = CHR 0x20 \<or> (9 \<le> (of_char c :: nat) \<and> (of_char c :: nat) \<le> 13)"

definition is_digit :: "char \<Rightarrow> bool" where
  "is_digit c \<longleftrightarrow> 48 \<le> (of_char c :: nat) \<and> (of_char c :: nat) \<le> 57"

definition digits_value :: "string \<Rightarrow> int" where
  "digits_value ds = fold (\<lambda>c v. 10 * v + (of_char c - 48)) ds 0"

definition atoi_value :: "string \<Rightarrow> int" where
  "atoi_value s =
     (let s = dropWhile is_space s in
      case s of
        [] \<Rightarrow> 0
      | c # cs \<Rightarrow>
          if c = CHR ''-'' then - digits_value (takeWhile is_digit cs)
          else if c = CHR ''+'' then digits_value (takeWhile is_digit cs)
          else digits_value (takeWhile is_digit s))"

definition atoi :: "string \<Rightarrow> u32" where "atoi s = word_of_int (atoi_value s)"

section \<open>Copies of strings\<close>

text \<open>
  \<open>alloc_ok n\<close> says whether an allocation of \<open>n\<close> bytes succeeds; the result is the new block, or
  \<open>None\<close> for \<open>NULL\<close>. The argument is a string, or \<open>None\<close> for \<open>NULL\<close>.
\<close>

definition clone_str :: "(nat \<Rightarrow> bool) \<Rightarrow> string option \<Rightarrow> string option" where
  "clone_str alloc_ok str =
     (case str of
        None \<Rightarrow> None
      | Some s \<Rightarrow>
          let size = length s + 1
          in if alloc_ok size then Some (take size (s @ [NUL])) else None)"

definition str_nclone :: "(nat \<Rightarrow> bool) \<Rightarrow> string option \<Rightarrow> nat \<Rightarrow> string option" where
  "str_nclone alloc_ok str n =
     (case str of
        None \<Rightarrow> None
      | Some s \<Rightarrow>
          let n = (if length s < n then length s else n)
          in if alloc_ok (n + 1) then Some (take n s @ [NUL]) else None)"

text \<open>What the copies hold as strings.\<close>

lemma c_string_terminated [simp]: "NUL \<notin> set s \<Longrightarrow> c_string (s @ NUL # rest) = Some s"
  by (auto simp: c_string_def takeWhile_append)

lemma clone_str_copy:
  "NUL \<notin> set s \<Longrightarrow> alloc_ok (length s + 1) \<Longrightarrow>
   clone_str alloc_ok (Some s) = Some (s @ [NUL]) \<and> c_string (s @ [NUL]) = Some s"
  by (simp add: clone_str_def Let_def)

lemma str_nclone_copy:
  assumes "NUL \<notin> set s" "\<forall>k. alloc_ok k"
  shows "\<exists>b. str_nclone alloc_ok (Some s) n = Some b \<and> c_string b = Some (take n s)"
proof -
  have "NUL \<notin> set (take n s)" using assms(1) by (meson in_set_takeD)
  then show ?thesis using assms by (auto simp: str_nclone_def Let_def)
qed

end
