(* ===== verification/Config.thy ===== *)
theory Config
  imports C_Strings
begin

text \<open>
  Configuration: reading a file (\<open>src/utils/file_utils\<close>), the configuration of a server
  (\<open>src/utils/server_cfg\<close>), and the command lines of client and relay (\<open>client_config.c\<close>,
  \<open>relay_config.c\<close>).

  A string the programs keep is the block of memory that holds it with its terminator; \<open>NULL\<close> is \<open>None\<close>.
  The file system is a function from paths to what \<open>fopen\<close> and \<open>fread\<close> find: the contents, and whether all of
  it is read. A result \<open>None\<close> is an access outside an object or through \<open>NULL\<close>. Files are shorter than 2
  gigabytes.
\<close>

record server_config_metadata =
  cfg_port :: "string option"
  cfg_server :: "string option"

type_synonym file_system = "string \<Rightarrow> (string \<times> bool) option"

section \<open>Reading the file\<close>

text \<open>The terminator is written before the block is tested, and a failed allocation is never noticed.\<close>

definition file_to_string :: "(nat \<Rightarrow> bool) \<Rightarrow> string \<times> bool \<Rightarrow> string option option" where
  "file_to_string alloc_ok fd =
     (let (contents, whole) = fd
      in if \<not> alloc_ok (length contents + 1) then None
         else if \<not> whole then Some None
         else Some (Some (contents @ [NUL])))"

text \<open>
  The loop over the lines, which now end in zero bytes; \<open>iter\<close> is a position in the block.
\<close>

function metadata_loop ::
  "(nat \<Rightarrow> bool) \<Rightarrow> string \<Rightarrow> nat \<Rightarrow> nat \<Rightarrow> server_config_metadata \<Rightarrow> server_config_metadata option" where
  "metadata_loop alloc_ok mutable_str mutable_end iter result =
     (if iter < mutable_end then
        case (case mem_read iter 6 mutable_str of
            None \<Rightarrow> None
          | Some key \<Rightarrow>
              if key = ''server'' \<and> cfg_server result = None then
                map_option (\<lambda>v. (iter + 7, result\<lparr>cfg_server := clone_str alloc_ok (Some v)\<rparr>))
                  (c_string (drop (iter + 7) mutable_str))
              else
                case mem_read iter 4 mutable_str of
                  None \<Rightarrow> None
                | Some key \<Rightarrow>
                    if key = ''port'' \<and> cfg_port result = None then
                      map_option (\<lambda>v. (iter + 5, result\<lparr>cfg_port := clone_str alloc_ok (Some v)\<rparr>))
                        (c_string (drop (iter + 5) mutable_str))
                    else Some (iter, result)) of
          None \<Rightarrow> None
        | Some (iter', result) \<Rightarrow>
            (case c_string (drop iter' mutable_str) of
               None \<Rightarrow> None
             | Some line \<Rightarrow> metadata_loop alloc_ok mutable_str mutable_end (iter' + length line + 1) result)
      else Some result)"
  by pat_completeness auto
termination
  by (relation "measure (\<lambda>(_, _, n, i, _). n - i)") (auto split: option.splits if_splits)

declare metadata_loop.simps [simp del]

text \<open>The parameter \<open>result\<close> is not \<open>NULL\<close>: all callers pass the address of an object.\<close>

definition str_to_metadata :: "(nat \<Rightarrow> bool) \<Rightarrow> string \<Rightarrow> server_config_metadata option" where
  "str_to_metadata alloc_ok str =
     Option.bind (clone_str alloc_ok (Some str)) (\<lambda>mutable_str.
     let mutable_str = map (\<lambda>c. if c = newline then NUL else c) mutable_str
     in metadata_loop alloc_ok mutable_str (length str) 0 \<lparr>cfg_port = None, cfg_server = None\<rparr>)"

definition fetch_server_config ::
  "(nat \<Rightarrow> bool) \<Rightarrow> file_system \<Rightarrow> string \<Rightarrow> server_config_metadata \<Rightarrow> (bool \<times> server_config_metadata) option" where
  "fetch_server_config alloc_ok files filepath metadata =
     (case files filepath of
        None \<Rightarrow> Some (False, metadata)
      | Some fd \<Rightarrow>
          (case file_to_string alloc_ok fd of
             None \<Rightarrow> None
           | Some None \<Rightarrow> Some (False, metadata)
           | Some (Some block) \<Rightarrow>
               Option.bind (c_string block) (\<lambda>str.
               map_option (\<lambda>m. (True, m)) (str_to_metadata alloc_ok str))))"

definition free_server_config :: "server_config_metadata \<Rightarrow> server_config_metadata" where
  "free_server_config metadata = metadata\<lparr>cfg_server := None, cfg_port := None\<rparr>"

section \<open>The client's command line\<close>

definition MAX_RELAYS :: nat where "MAX_RELAYS = 5"
definition DEAULT_RELAY_AMOUNT :: u8 where "DEAULT_RELAY_AMOUNT = 3"

record client_config_metadata =
  server_cfg :: server_config_metadata
  cfg_relays :: u8

text \<open>
  The loop over the arguments after the program's name. The number of relays is cut to 8 bits before it
  is tested, and stays stored when the test fails. The result's first component tells a returned
  \<open>false\<close>; the others are \<open>relays_set\<close>, \<open>server_cfg_set\<close> and the configuration.
\<close>

fun client_args ::
  "(nat \<Rightarrow> bool) \<Rightarrow> file_system \<Rightarrow> string list \<Rightarrow> bool \<Rightarrow> bool \<Rightarrow> client_config_metadata \<Rightarrow>
   (bool \<times> bool \<times> bool \<times> client_config_metadata) option" where
  "client_args alloc_ok files [] relays_set server_cfg_set cfg = Some (True, relays_set, server_cfg_set, cfg)"
| "client_args alloc_ok files (arg # args) relays_set server_cfg_set cfg =
     (if (arg = ''-r'' \<or> arg = ''--relays'') \<and> args \<noteq> [] then
        case args of
          amount # args' \<Rightarrow>
            let cfg = cfg\<lparr>cfg_relays := ucast (atoi amount)\<rparr>
            in if cfg_relays cfg \<le> 0 \<or> MAX_RELAYS < unat (cfg_relays cfg) then client_args alloc_ok files args' relays_set server_cfg_set cfg
               else client_args alloc_ok files args' True server_cfg_set cfg
      else if \<not> server_cfg_set \<and> (arg = [] \<or> hd arg \<noteq> CHR ''-'') then
        case fetch_server_config alloc_ok files arg (server_cfg cfg) of
          None \<Rightarrow> None
        | Some (ok, m) \<Rightarrow>
            if ok then client_args alloc_ok files args relays_set True (cfg\<lparr>server_cfg := m\<rparr>)
            else Some (False, relays_set, server_cfg_set, cfg\<lparr>server_cfg := m\<rparr>)
      else Some (False, relays_set, server_cfg_set, cfg))"

definition client_parse_args ::
  "(nat \<Rightarrow> bool) \<Rightarrow> file_system \<Rightarrow> string list \<Rightarrow> client_config_metadata \<Rightarrow> (bool \<times> client_config_metadata) option" where
  "client_parse_args alloc_ok files argv cfg =
     map_option (\<lambda>(ok, relays_set, server_cfg_set, cfg).
         if \<not> ok then (False, cfg)
         else (server_cfg_set, if relays_set then cfg else cfg\<lparr>cfg_relays := DEAULT_RELAY_AMOUNT\<rparr>))
       (client_args alloc_ok files (tl argv) False False cfg)"

section \<open>The relay's command line\<close>

record relay_config_metadata =
  dir_server_cfg :: server_config_metadata
  relay_server_cfg :: server_config_metadata

fun relay_args ::
  "(nat \<Rightarrow> bool) \<Rightarrow> file_system \<Rightarrow> string list \<Rightarrow> bool \<Rightarrow> bool \<Rightarrow> relay_config_metadata \<Rightarrow>
   (bool \<times> bool \<times> relay_config_metadata) option" where
  "relay_args alloc_ok files [] port_found server_cfg_found cfg = Some (port_found, server_cfg_found, cfg)"
| "relay_args alloc_ok files (arg # args) port_found server_cfg_found cfg =
     (if (arg = ''-p'' \<or> arg = ''--port'') \<and> args \<noteq> [] \<and>
         cfg_port (relay_server_cfg cfg) = None \<and> cfg_server (relay_server_cfg cfg) = None then
        case args of
          port # args' \<Rightarrow>
            relay_args alloc_ok files args' True server_cfg_found
              (cfg\<lparr>relay_server_cfg := \<lparr>cfg_port = clone_str alloc_ok (Some port),
                 cfg_server = clone_str alloc_ok (Some ''0.0.0.0'')\<rparr>\<rparr>)
      else if cfg_server (dir_server_cfg cfg) = None \<and> cfg_port (dir_server_cfg cfg) = None then
        case fetch_server_config alloc_ok files arg (dir_server_cfg cfg) of
          None \<Rightarrow> None
        | Some (_, m) \<Rightarrow>
            relay_args alloc_ok files args port_found (cfg_server m \<noteq> None \<and> cfg_port m \<noteq> None) (cfg\<lparr>dir_server_cfg := m\<rparr>)
      else relay_args alloc_ok files args port_found server_cfg_found cfg)"

text \<open>\<open>alloc_ok 32\<close> is the allocation of the configuration itself, of four pointers.\<close>

definition relay_parse_args ::
  "(nat \<Rightarrow> bool) \<Rightarrow> file_system \<Rightarrow> string list \<Rightarrow> (bool \<times> relay_config_metadata option) option" where
  "relay_parse_args alloc_ok files argv =
     (if \<not> alloc_ok 32 then Some (False, None)
      else
        let no_cfg = \<lparr>cfg_port = None, cfg_server = None\<rparr>
        in map_option (\<lambda>(port_found, server_cfg_found, cfg). (server_cfg_found \<and> port_found, Some cfg))
             (relay_args alloc_ok files (tl argv) False False \<lparr>dir_server_cfg = no_cfg, relay_server_cfg = no_cfg\<rparr>))"

definition free_relay_config :: "relay_config_metadata \<Rightarrow> relay_config_metadata" where
  "free_relay_config cfg =
     cfg\<lparr>relay_server_cfg := free_server_config (relay_server_cfg cfg),
         dir_server_cfg := free_server_config (dir_server_cfg cfg)\<rparr>"

section \<open>Parsing what was written\<close>

lemma c_string_at: "NUL \<notin> set v \<Longrightarrow> c_string (drop (length pre) (pre @ v @ NUL # rest)) = Some v"
  by simp

text \<open>One line, at the position after \<open>pre\<close>.\<close>

lemma loop_port:
  assumes "length pre < n" "NUL \<notin> set p" "cfg_port r = None" "\<forall>k. alloc_ok k"
  shows "metadata_loop alloc_ok (pre @ ''port='' @ p @ NUL # rest) n (length pre) r =
    metadata_loop alloc_ok (pre @ ''port='' @ p @ NUL # rest) n (length pre + length p + 6)
      (r\<lparr>cfg_port := Some (p @ [NUL])\<rparr>)"
proof -
  let ?b = "pre @ ''port='' @ p @ NUL # rest"
  have b: "?b = (pre @ ''port='') @ p @ NUL # rest" by simp
  have c: "c_string (drop (length pre + 5) ?b) = Some p"
    using c_string_at [OF assms(2), of "pre @ ''port=''" rest] unfolding b by (simp del: append_assoc)
  have k: "mem_read (length pre) 4 ?b = Some ''port''" "mem_read (length pre) 6 ?b = Some (take 6 (''port='' @ p @ NUL # rest))"
    by (simp_all add: mem_read_def)
  have s: "take 6 (''port='' @ p @ NUL # rest) \<noteq> ''server''" by (simp add: numeral_eq_Suc)
  have l: "clone_str alloc_ok (Some p) = Some (p @ [NUL])" using clone_str_copy [OF assms(2)] assms(4) by simp
  show ?thesis
    using assms(1,3) c k s l by (subst metadata_loop.simps) (simp add: add.commute add.left_commute)
qed

lemma loop_server:
  assumes "length pre < n" "NUL \<notin> set p" "cfg_server r = None" "\<forall>k. alloc_ok k"
  shows "metadata_loop alloc_ok (pre @ ''server='' @ p @ NUL # rest) n (length pre) r =
    metadata_loop alloc_ok (pre @ ''server='' @ p @ NUL # rest) n (length pre + length p + 8)
      (r\<lparr>cfg_server := Some (p @ [NUL])\<rparr>)"
proof -
  let ?b = "pre @ ''server='' @ p @ NUL # rest"
  have b: "?b = (pre @ ''server='') @ p @ NUL # rest" by simp
  have c: "c_string (drop (length pre + 7) ?b) = Some p"
    using c_string_at [OF assms(2), of "pre @ ''server=''" rest] unfolding b by (simp del: append_assoc)
  have k: "mem_read (length pre) 6 ?b = Some ''server''" by (simp add: mem_read_def)
  have l: "clone_str alloc_ok (Some p) = Some (p @ [NUL])" using clone_str_copy [OF assms(2)] assms(4) by simp
  show ?thesis
    using assms(1,3) c k l by (subst metadata_loop.simps) (simp add: add.commute add.left_commute)
qed

lemma loop_end: "n \<le> i \<Longrightarrow> metadata_loop alloc_ok b n i r = Some r"
  by (subst metadata_loop.simps) simp

text \<open>A string without zero bytes and line ends.\<close>

definition one_line :: "string \<Rightarrow> bool" where
  "one_line s \<longleftrightarrow> NUL \<notin> set s \<and> newline \<notin> set s"

lemma unlined [simp]: "one_line s \<Longrightarrow> map (\<lambda>c. if c = newline then NUL else c) s = s"
  by (auto simp: one_line_def intro: map_idI)

lemma one_line_keys [simp]: "one_line ''port=''" "one_line ''server=''"
  by (simp_all add: one_line_def NUL_def newline_def)

lemma letters_kept [simp]: "CHR ''p'' \<noteq> newline" "CHR ''o'' \<noteq> newline" "CHR ''r'' \<noteq> newline" "CHR ''t'' \<noteq> newline"
  "CHR ''='' \<noteq> newline" "CHR ''s'' \<noteq> newline" "CHR ''e'' \<noteq> newline" "CHR ''v'' \<noteq> newline"
  by (simp_all add: newline_def)

lemma newline_NUL [simp]: "newline \<noteq> NUL" "NUL \<noteq> newline" by (simp_all add: NUL_def newline_def)

lemma fetch_text:
  assumes "files path = Some (str, True)" "NUL \<notin> set str" "\<forall>k. alloc_ok k"
  shows "fetch_server_config alloc_ok files path cfg =
    map_option (\<lambda>m. (True, m))
      (metadata_loop alloc_ok (map (\<lambda>c. if c = newline then NUL else c) str @ [NUL]) (length str) 0
         \<lparr>cfg_port = None, cfg_server = None\<rparr>)"
  using assms clone_str_copy [OF assms(2), of alloc_ok]
  by (simp add: fetch_server_config_def file_to_string_def str_to_metadata_def Let_def)

text \<open>The text of a configuration, in either order, and what the loop makes of its two lines.\<close>

definition port_line :: "string \<Rightarrow> string" where "port_line p = ''port='' @ p @ [newline]"
definition server_line :: "string \<Rightarrow> string" where "server_line s = ''server='' @ s @ [newline]"

lemma two_lines:
  assumes "one_line p" "one_line s" "\<forall>k. alloc_ok k" "length p + length s + 14 \<le> n"
  defines "full \<equiv> \<lparr>cfg_port = Some (p @ [NUL]), cfg_server = Some (s @ [NUL])\<rparr>"
  shows "metadata_loop alloc_ok (''port='' @ p @ NUL # ''server='' @ s @ NUL # rest) n 0 \<lparr>cfg_port = None, cfg_server = None\<rparr> =
      metadata_loop alloc_ok (''port='' @ p @ NUL # ''server='' @ s @ NUL # rest) n (length p + length s + 14) full"
    and "metadata_loop alloc_ok (''server='' @ s @ NUL # ''port='' @ p @ NUL # rest) n 0 \<lparr>cfg_port = None, cfg_server = None\<rparr> =
      metadata_loop alloc_ok (''server='' @ s @ NUL # ''port='' @ p @ NUL # rest) n (length p + length s + 14) full"
proof -
  have z: "NUL \<notin> set p" "NUL \<notin> set s" using assms(1,2) by (simp_all add: one_line_def)
  let ?r = "\<lparr>cfg_port = None, cfg_server = None\<rparr>"
  let ?a = "''port='' @ p @ [NUL]" and ?b = "''server='' @ s @ [NUL]"
  have n: "length ([] :: string) < n" "length ?a < n" "length ?b < n" using assms(4) by simp_all
  have la: "length ?a + length s + 8 = length p + length s + 14" "length ?b + length p + 6 = length p + length s + 14"
    "length ?a = length p + 6" "length ?b = length s + 8"
    by simp_all
  have "metadata_loop alloc_ok ([] @ ''port='' @ p @ NUL # ''server='' @ s @ NUL # rest) n (length ([] :: string)) ?r =
      metadata_loop alloc_ok (?a @ ''server='' @ s @ NUL # rest) n (length p + 6) (?r\<lparr>cfg_port := Some (p @ [NUL])\<rparr>)"
    using loop_port [OF n(1) z(1) _ assms(3), of ?r "''server='' @ s @ NUL # rest"] by simp
  also have "\<dots> = metadata_loop alloc_ok (?a @ ''server='' @ s @ NUL # rest) n (length p + length s + 14) full"
    using loop_server [OF n(2) z(2) _ assms(3), of "?r\<lparr>cfg_port := Some (p @ [NUL])\<rparr>" rest]
    unfolding la(1,3) by (simp add: full_def ac_simps)
  finally show "metadata_loop alloc_ok (''port='' @ p @ NUL # ''server='' @ s @ NUL # rest) n 0 ?r =
      metadata_loop alloc_ok (''port='' @ p @ NUL # ''server='' @ s @ NUL # rest) n (length p + length s + 14) full" by simp
  have "metadata_loop alloc_ok ([] @ ''server='' @ s @ NUL # ''port='' @ p @ NUL # rest) n (length ([] :: string)) ?r =
      metadata_loop alloc_ok (?b @ ''port='' @ p @ NUL # rest) n (length s + 8) (?r\<lparr>cfg_server := Some (s @ [NUL])\<rparr>)"
    using loop_server [OF n(1) z(2) _ assms(3), of ?r "''port='' @ p @ NUL # rest"] by simp
  also have "\<dots> = metadata_loop alloc_ok (?b @ ''port='' @ p @ NUL # rest) n (length p + length s + 14) full"
    using loop_port [OF n(3) z(1) _ assms(3), of "?r\<lparr>cfg_server := Some (s @ [NUL])\<rparr>" rest]
    unfolding la(2,4) by (simp add: full_def ac_simps)
  finally show "metadata_loop alloc_ok (''server='' @ s @ NUL # ''port='' @ p @ NUL # rest) n 0 ?r =
      metadata_loop alloc_ok (''server='' @ s @ NUL # ''port='' @ p @ NUL # rest) n (length p + length s + 14) full" by simp
qed

lemma fetch_lines:
  assumes "one_line p" "one_line s" "\<forall>k. alloc_ok k" "NUL \<notin> set t"
    and "files path = Some (text @ t, True)" "text = port_line p @ server_line s \<or> text = server_line s @ port_line p"
  shows "\<exists>b. length b = length p + length s + 14 \<and> fetch_server_config alloc_ok files path cfg =
    map_option (\<lambda>m. (True, m)) (metadata_loop alloc_ok (b @ map (\<lambda>c. if c = newline then NUL else c) t @ [NUL])
      (length p + length s + 14 + length t) (length p + length s + 14)
      \<lparr>cfg_port = Some (p @ [NUL]), cfg_server = Some (s @ [NUL])\<rparr>)"
proof -
  let ?f = "\<lambda>c. if c = newline then NUL else c" and ?n = "length p + length s + 14"
  have z: "NUL \<notin> set (text @ t)"
    using assms(1,2,4,6) by (auto simp: one_line_def port_line_def server_line_def NUL_def newline_def)
  have l: "length (text @ t) = ?n + length t" using assms(6) by (auto simp: port_line_def server_line_def)
  have d: "map ?f (text @ t) @ [NUL] = map ?f text @ map ?f t @ [NUL]" by simp
  from assms(6) show ?thesis
  proof
    assume "text = port_line p @ server_line s"
    then have m: "map ?f text @ map ?f t @ [NUL] = ''port='' @ p @ NUL # ''server='' @ s @ NUL # map ?f t @ [NUL]"
      using assms(1,2) by (simp add: port_line_def server_line_def)
    show ?thesis
      using fetch_text [where files = files and path = path and cfg = cfg, OF assms(5) z assms(3)] two_lines(1) [OF assms(1-3), of "?n + length t" "map ?f t @ [NUL]"]
      unfolding l d m by (intro exI [of _ "''port='' @ p @ NUL # ''server='' @ s @ [NUL]"]) simp
  next
    assume "text = server_line s @ port_line p"
    then have m: "map ?f text @ map ?f t @ [NUL] = ''server='' @ s @ NUL # ''port='' @ p @ NUL # map ?f t @ [NUL]"
      using assms(1,2) by (simp add: port_line_def server_line_def)
    show ?thesis
      using fetch_text [where files = files and path = path and cfg = cfg, OF assms(5) z assms(3)] two_lines(2) [OF assms(1-3), of "?n + length t" "map ?f t @ [NUL]"]
      unfolding l d m by (intro exI [of _ "''server='' @ s @ NUL # ''port='' @ p @ [NUL]"]) simp
  qed
qed

section \<open>The number of relays\<close>

text \<open>A single argument changes nothing; so does what follows a valid \<open>-r\<close> when there is room for one.\<close>

lemma client_args_one:
  "length args \<le> 1 \<Longrightarrow> client_args alloc_ok files args rs sc cfg = Some (ok, rs', sc', cfg') \<Longrightarrow>
   rs' = rs \<and> cfg_relays cfg' = cfg_relays cfg"
  by (cases args) (auto split: if_splits option.splits prod.splits)

lemma client_args_range:
  assumes "length args \<le> 3" "client_args alloc_ok files args False sc cfg = Some (ok, rs, sc', cfg')"
  shows "rs \<longrightarrow> 1 \<le> unat (cfg_relays cfg') \<and> unat (cfg_relays cfg') \<le> MAX_RELAYS"
  using assms
proof (induction args arbitrary: sc cfg rule: length_induct)
  case (1 args)
  have pos: "r \<noteq> 0 \<Longrightarrow> 1 \<le> unat r" for r :: u8 by (metis Suc_leI One_nat_def gr0I unat_eq_zero)
  show ?case
  proof (cases args)
    case Nil
    then show ?thesis using "1.prems"(2) by simp
  next
    case (Cons arg rest)
    show ?thesis
    proof (cases "(arg = ''-r'' \<or> arg = ''--relays'') \<and> rest \<noteq> []")
      case True
      then obtain amount more where m: "rest = amount # more" by (cases rest) auto
      let ?c = "cfg\<lparr>cfg_relays := ucast (atoi amount)\<rparr>"
      show ?thesis
      proof (cases "cfg_relays ?c \<le> 0 \<or> MAX_RELAYS < unat (cfg_relays ?c)")
        case True
        then have "client_args alloc_ok files more False sc ?c = Some (ok, rs, sc', cfg')"
          using "1.prems"(2) Cons m \<open>(arg = ''-r'' \<or> arg = ''--relays'') \<and> rest \<noteq> []\<close> by (auto simp: Let_def)
        then show ?thesis using "1.IH" [rule_format, of more] "1.prems"(1) Cons m by (cases rs) auto
      next
        case False
        then have "client_args alloc_ok files more True sc ?c = Some (ok, rs, sc', cfg')"
          using "1.prems"(2) Cons m \<open>(arg = ''-r'' \<or> arg = ''--relays'') \<and> rest \<noteq> []\<close> by (auto simp: Let_def)
        then have "cfg_relays cfg' = cfg_relays ?c" using client_args_one [of more] "1.prems"(1) Cons m by auto
        then show ?thesis using False pos [of "cfg_relays ?c"] by auto
      qed
    next
      case False
      then have "rs \<longrightarrow> (\<exists>sc c. client_args alloc_ok files rest False sc c = Some (ok, rs, sc', cfg'))"
        using "1.prems"(2) Cons by (auto split: if_splits option.splits prod.splits) blast+
      then show ?thesis using "1.IH" [rule_format, of rest] "1.prems"(1) Cons by auto
    qed
  qed
qed

section \<open>Properties\<close>

text \<open>C35. A configuration file with a line for the port and one for the server, in either order, gives exactly
  the two values. A third, last line of fewer than four characters, such as an empty one, makes
  the parser compare past the end of its copy.\<close>

theorem config_read_back:
  assumes "one_line p" "one_line s" "\<forall>k. alloc_ok k"
    and "text = port_line p @ server_line s \<or> text = server_line s @ port_line p"
    and "one_line t" "length t < 4"
  shows "(files path = Some (text, True) \<longrightarrow> fetch_server_config alloc_ok files path cfg =
      Some (True, \<lparr>cfg_port = Some (p @ [NUL]), cfg_server = Some (s @ [NUL])\<rparr>)) \<and>
    (files path = Some (text @ t @ [newline], True) \<longrightarrow> fetch_server_config alloc_ok files path cfg = None)"
proof (intro conjI impI)
  assume "files path = Some (text, True)"
  then show "fetch_server_config alloc_ok files path cfg =
      Some (True, \<lparr>cfg_port = Some (p @ [NUL]), cfg_server = Some (s @ [NUL])\<rparr>)"
    using fetch_lines [where files = files and path = path and cfg = cfg, OF assms(1-3) _ _ assms(4), of "[]"] 
    by (auto simp: loop_end)
next
  let ?n = "length p + length s + 14"
  assume f: "files path = Some (text @ t @ [newline], True)"
  have "NUL \<notin> set (t @ [newline])" using assms(5) by (simp add: one_line_def)
  from fetch_lines [where files = files and path = path and cfg = cfg, OF assms(1-3) this f assms(4)]
  obtain b where b: "length b = ?n" "fetch_server_config alloc_ok files path cfg =
    map_option (\<lambda>m. (True, m)) (metadata_loop alloc_ok (b @ map (\<lambda>c. if c = newline then NUL else c) (t @ [newline]) @ [NUL])
      (?n + length (t @ [newline])) ?n \<lparr>cfg_port = Some (p @ [NUL]), cfg_server = Some (s @ [NUL])\<rparr>)" by blast
  have "mem_read ?n 6 (b @ map (\<lambda>c. if c = newline then NUL else c) (t @ [newline]) @ [NUL]) = None"
    using b(1) assms(6) by (simp add: mem_read_def)
  then show "fetch_server_config alloc_ok files path cfg = None"
    unfolding b(2) by (subst metadata_loop.simps) simp
qed

text \<open>The configuration in the repository.\<close>

lemma config_read_back_witness:
  "\<forall>cfg. fetch_server_config (\<lambda>_. True) [''server.cfg'' \<mapsto> (port_line ''8200'' @ server_line ''127.0.0.1'', True)] ''server.cfg'' cfg =
     Some (True, \<lparr>cfg_port = Some (''8200'' @ [NUL]), cfg_server = Some (''127.0.0.1'' @ [NUL])\<rparr>)"
proof -
  have l: "one_line ''8200''" "one_line ''127.0.0.1''" "one_line []" by (simp_all add: one_line_def NUL_def newline_def)
  show ?thesis using config_read_back [OF l(1,2) _ disjI1 [OF refl] l(3)] by simp
qed

lemma sample_fetch:
  "\<exists>m. fetch_server_config (\<lambda>_. True) [''server.cfg'' \<mapsto> (port_line ''8200'' @ server_line ''127.0.0.1'', True)] ''server.cfg'' cfg =
     Some (True, m)"
proof -
  have l: "one_line ''8200''" "one_line ''127.0.0.1''" by (simp_all add: one_line_def NUL_def newline_def)
  show ?thesis
    using fetch_lines [where files = "[''server.cfg'' \<mapsto> (port_line ''8200'' @ server_line ''127.0.0.1'', True)]" and
        path = "''server.cfg''" and cfg = cfg and t = "[]" and alloc_ok = "\<lambda>_. True", OF l _ _ _ disjI1 [OF refl]]
    by (auto simp: loop_end)
qed

text \<open>With the number of arguments that \<open>main\<close> admits, a command line the client accepts sets a number of
  relays from 1 to 5, the size of the circuit's arrays, whatever the user wrote and whatever the
  configuration held before.\<close>

theorem client_relays_in_range:
  assumes "length argv \<le> 4" "client_parse_args alloc_ok files argv cfg = Some (True, cfg')"
  shows "1 \<le> unat (cfg_relays cfg') \<and> unat (cfg_relays cfg') \<le> MAX_RELAYS"
proof -
  let ?ok = "\<lambda>c. 1 \<le> unat (cfg_relays c) \<and> unat (cfg_relays c) \<le> MAX_RELAYS"
  have three: "?ok (c\<lparr>cfg_relays := DEAULT_RELAY_AMOUNT\<rparr>)" for c :: client_config_metadata
    by (simp add: DEAULT_RELAY_AMOUNT_def MAX_RELAYS_def)
  obtain rs c where r: "client_args alloc_ok files (tl argv) False False cfg = Some (True, rs, True, c)"
    "cfg' = (if rs then c else c\<lparr>cfg_relays := DEAULT_RELAY_AMOUNT\<rparr>)"
    using assms(2) by (auto simp: client_parse_args_def split: if_splits)
  have "length (tl argv) \<le> 3" using assms(1) by simp
  from client_args_range [OF this r(1)] show ?thesis using three r(2) by auto
qed

lemma client_relays_in_range_witness:
  "\<exists>cfg'. client_parse_args (\<lambda>_. True) [''server.cfg'' \<mapsto> (port_line ''8200'' @ server_line ''127.0.0.1'', True)]
      [''client'', ''server.cfg'', ''-r'', ''300''] \<lparr>server_cfg = \<lparr>cfg_port = None, cfg_server = None\<rparr>, cfg_relays = 0\<rparr> = Some (True, cfg') \<and>
    unat (cfg_relays cfg') \<le> MAX_RELAYS"
proof -
  let ?a = "[''client'', ''server.cfg'', ''-r'', ''300'']"
  obtain m where m: "fetch_server_config (\<lambda>_. True) [''server.cfg'' \<mapsto> (port_line ''8200'' @ server_line ''127.0.0.1'', True)]
      ''server.cfg'' \<lparr>cfg_port = None, cfg_server = None\<rparr> = Some (True, m)" using sample_fetch by blast
  have "atoi ''300'' = 300" by (simp add: atoi_def atoi_value_def digits_value_def is_digit_def is_space_def)
  then have "\<exists>cfg'. client_parse_args (\<lambda>_. True) [''server.cfg'' \<mapsto> (port_line ''8200'' @ server_line ''127.0.0.1'', True)]
      ?a \<lparr>server_cfg = \<lparr>cfg_port = None, cfg_server = None\<rparr>, cfg_relays = 0\<rparr> = Some (True, cfg')"
    using m by (simp add: client_parse_args_def Let_def MAX_RELAYS_def)
  then show ?thesis using client_relays_in_range [of ?a] by fastforce
qed

end
