(* ===== verification/Client_Session.thy ===== *)
theory Client_Session
  imports Onion Hashmaps Config Event_Loops
begin

text \<open>
  The client's side of a circuit: \<open>src/client/router/client_session.c\<close>, the cells of
  \<open>src/client/net/send_tor_messages.c\<close>, and what the user's commands do.

  The record \<open>client_run\<close> has the session with what it points to (the stream table, the list of relays),
  the cell buffer, the variable \<open>response\<close>, the counter of stream ids, the sockets, the characters that
  standard input still has, and the data printed for the user. A result \<open>None\<close> is an abort, an access
  outside an object, or a loop that does not end.
\<close>

datatype client_code = client_success | client_error | client_tls_error | client_continue

definition MY_EVENT_STDIN :: u32 where "MY_EVENT_STDIN = 1"
definition MY_EVENT_RELAY :: u32 where "MY_EVENT_RELAY = 2"
definition INPUT_BUF_SIZE :: nat where "INPUT_BUF_SIZE = 256"
definition TOR_DATA_BUF_SIZE :: nat where "TOR_DATA_BUF_SIZE = 16"

record client_session =
  onion_keys :: "key_data list"
  tls_key :: key_data
  sock_fd :: int
  circuit_relays :: "relay_descriptor list"
  cur_relays :: nat
  config_relays :: nat

record client_run =
  cl_session :: client_session
  cl_streams :: "circular_buffer hashmap"
  cl_next_id :: u32
  cl_net :: net
  cl_buffer :: bytes
  cl_response :: client_code
  cl_input :: string
  cl_printed :: "u8 option list list"

text \<open>What \<open>getaddrinfo\<close> finds first for a host and a port.\<close>

datatype addr_info = Gai_error | Gai_in bytes u16 | Gai_in6 bytes u16 | Gai_other

text \<open>
  The environment: GMP, the Diffie-Hellman parameters, the client's key, the allocator, the name service,
  and the contents of local arrays before they are written.
\<close>

record client_env =
  ce_gmp :: gmp
  ce_globals :: dh_globals
  ce_key :: identity_key
  ce_alloc :: "nat \<Rightarrow> bool"
  ce_getaddrinfo :: "string \<Rightarrow> string \<Rightarrow> addr_info"
  ce_junk_key :: bytes
  ce_junk_key' :: bytes
  ce_junk_hash :: bytes
  ce_junk_cell :: bytes
  ce_junk_addr :: bytes
  ce_junk_input :: string
  ce_junk_streams :: "circular_buffer hashmap"

section \<open>Cells the client sends\<close>

text \<open>The cell in the buffer is sent with the first \<open>amount\<close> onion layers.\<close>

definition send_cell :: "nat \<Rightarrow> bytes \<Rightarrow> client_run \<Rightarrow> bool \<times> client_run" where
  "send_cell amount b w =
     (let ses = cl_session w;
          (ok, b, s) = client_send_tor_buffer (sock_fd ses) b (Some (tls_key ses)) (onion_keys ses) amount (cl_net w)
      in (ok, w\<lparr>cl_net := s, cl_buffer := b\<rparr>))"

definition tor_send_create_msg :: "client_env \<Rightarrow> client_run \<Rightarrow> (bool \<times> client_run) option" where
  "tor_send_create_msg E w =
     (let b = set_cell_cmd TOR_CREATE (cl_buffer w)
      in Option.bind (get_public_identity_key (ce_gmp E) (ce_key E) (create_public_key b)) (\<lambda>pk.
         Some (send_cell 0 (set_create_public_key pk b) w)))"

definition tor_send_extend_msg :: "client_env \<Rightarrow> relay_descriptor \<Rightarrow> client_run \<Rightarrow> (bool \<times> client_run) option" where
  "tor_send_extend_msg E d w =
     (let b = set_relay_cmd RELAY_EXTEND (set_cell_cmd TOR_RELAY (cl_buffer w))
      in Option.bind (get_public_identity_key (ce_gmp E) (ce_key E) (extend_public_key b)) (\<lambda>pk.
         let b = set_relay_addr (rd_sock_addr d) (set_extend_public_key pk b)
         in Some (send_cell (cur_relays (cl_session w)) b w)))"

definition begin_cell :: "u32 \<Rightarrow> sock_addr \<Rightarrow> bytes \<Rightarrow> bytes" where
  "begin_cell stream_id addr b =
     set_relay_addr addr (set_relay_stream_id (ucast stream_id) (set_relay_cmd RELAY_BEGIN (set_cell_cmd TOR_RELAY b)))"

definition tor_send_begin_msg :: "u32 \<Rightarrow> sock_addr \<Rightarrow> client_run \<Rightarrow> bool \<times> client_run" where
  "tor_send_begin_msg stream_id addr w =
     send_cell (cur_relays (cl_session w)) (begin_cell stream_id addr (cl_buffer w)) w"

text \<open>\<open>buf_data\<close> is the memory from the data pointer to the end of its block.\<close>

definition client_data_cell :: "u32 \<Rightarrow> bytes \<Rightarrow> u16 \<Rightarrow> bytes \<Rightarrow> bytes option" where
  "client_data_cell stream_id buf_data len b =
     (let b = set_relay_length len (set_relay_stream_id (ucast stream_id)
                (set_relay_cmd RELAY_DATA (set_cell_cmd TOR_RELAY b)))
      in Option.bind (mem_read 0 (unat len) buf_data) (\<lambda>data. mem_write 14 data b))"

definition tor_send_data_msg :: "u32 \<Rightarrow> bytes \<Rightarrow> u16 \<Rightarrow> client_run \<Rightarrow> (bool \<times> client_run) option" where
  "tor_send_data_msg stream_id buf_data len w =
     Option.bind (client_data_cell stream_id buf_data len (cl_buffer w)) (\<lambda>b.
     Some (send_cell (cur_relays (cl_session w)) b w))"

definition client_end_cell :: "u32 \<Rightarrow> bytes \<Rightarrow> bytes" where
  "client_end_cell stream_id b =
     set_relay_stream_id (ucast stream_id) (set_end_reason TOR_REASON_END_DONE
       (set_relay_cmd RELAY_END (set_cell_cmd TOR_RELAY b)))"

definition tor_send_end_msg :: "u32 \<Rightarrow> client_run \<Rightarrow> bool \<times> client_run" where
  "tor_send_end_msg stream_id w =
     send_cell (cur_relays (cl_session w)) (client_end_cell stream_id (cl_buffer w)) w"

definition tor_send_ping_msg :: "client_run \<Rightarrow> bool \<times> client_run" where
  "tor_send_ping_msg w = send_cell (cur_relays (cl_session w)) (set_cell_cmd TOR_PADDING (cl_buffer w)) w"

definition tor_send_destroy_msg :: "client_run \<Rightarrow> bool \<times> client_run" where
  "tor_send_destroy_msg w = send_cell (cur_relays (cl_session w)) (set_cell_cmd TOR_DESTROY (cl_buffer w)) w"

definition tor_parse_end_msg :: "bytes \<Rightarrow> u32 \<times> u8" where
  "tor_parse_end_msg b = (ucast (relay_stream_id b), end_reason b)"

section \<open>What the user types\<close>

text \<open>
  \<open>read_input\<close> stores a line in a block of \<open>size\<close> bytes and returns its length; at the end of the input it
  stores the empty string. A block of no bytes is written outside.
\<close>

definition as_int :: "nat \<Rightarrow> int" where
  "as_int n = (if n mod 2 ^ 32 < 2 ^ 31 then int (n mod 2 ^ 32) else int (n mod 2 ^ 32) - 2 ^ 32)"

definition read_input :: "nat \<Rightarrow> client_run \<Rightarrow> (string \<times> client_run) option" where
  "read_input n w =
     (case fgets (as_int n) (cl_input w) of
        (Some line, rest) \<Rightarrow> Some (cut_line line, w\<lparr>cl_input := rest\<rparr>)
      | (None, rest) \<Rightarrow> if n = 0 then None else Some ([], w\<lparr>cl_input := rest\<rparr>))"

definition input_int :: "client_run \<Rightarrow> (u32 \<times> client_run) option" where
  "input_int w = map_option (\<lambda>(s, w). (atoi s, w)) (read_input INPUT_BUF_SIZE w)"

text \<open>The result of a look-up; an IPv4 address leaves 12 bytes of the local variable as they were.\<close>

definition resolve_sockaddr :: "client_env \<Rightarrow> string \<Rightarrow> string \<Rightarrow> sock_addr option" where
  "resolve_sockaddr E host port =
     (case ce_getaddrinfo E host port of
        Gai_error \<Rightarrow> None
      | Gai_in addr p \<Rightarrow>
          Some \<lparr>sa_family = AF_INET, sa_protocol = 1, sa_addr = splice 0 (take 4 addr) (ce_junk_addr E), sa_port = p\<rparr>
      | Gai_in6 addr p \<Rightarrow>
          Some \<lparr>sa_family = AF_INET6, sa_protocol = 1, sa_addr = splice 0 (take 16 addr) (ce_junk_addr E), sa_port = p\<rparr>
      | Gai_other \<Rightarrow> None)"

partial_function (option) input_sockaddr :: "client_env \<Rightarrow> client_run \<Rightarrow> (sock_addr \<times> client_run) option" where
  "input_sockaddr E w =
     Option.bind (read_input INPUT_BUF_SIZE w) (\<lambda>(ip, w).
     Option.bind (read_input INPUT_BUF_SIZE w) (\<lambda>(port, w).
     case resolve_sockaddr E ip port of
       Some sock \<Rightarrow> Some (sock, w)
     | None \<Rightarrow> input_sockaddr E w))"

section \<open>The session\<close>

text \<open>
  The onion key of every relay of the list is derived at once, from the public key the directory gave
  for it.
\<close>

definition init_session ::
  "client_env \<Rightarrow> int \<Rightarrow> relay_descriptor list \<Rightarrow> nat \<Rightarrow> key_data list \<Rightarrow> client_session option" where
  "init_session E fd relay_list config keys =
     Option.bind
       (fold (\<lambda>i r. Option.bind r (\<lambda>keys.
            Option.bind (derive_symmetric_key_from_public (ce_gmp E) (ce_globals E) (ce_junk_key E, ce_junk_hash E)
                (init_key (ce_key E)) (rd_public_key (relay_list ! i))) (\<lambda>key.
            Some (keys[i := key]))))
          [0..<length relay_list] (Some keys))
       (\<lambda>keys. Some \<lparr>onion_keys = keys, tls_key = init_key (ce_key E), sock_fd = fd,
                    circuit_relays = relay_list, cur_relays = 0, config_relays = config\<rparr>)"

definition recv_cell :: "nat \<Rightarrow> client_run \<Rightarrow> bool \<times> client_run" where
  "recv_cell amount w =
     (let ses = cl_session w;
          (ok, b, s) = client_recv_tor_buffer (sock_fd ses) (cl_buffer w) (Some (tls_key ses)) (onion_keys ses) amount (cl_net w)
      in (ok, w\<lparr>cl_buffer := b, cl_net := s\<rparr>))"

text \<open>
  The function's type is \<open>bool\<close> but it returns a \<open>client_code\<close>; the caller's conversion back gives
  \<open>client_error\<close> for any code but 0. A failing \<open>recv_tor_buffer\<close> is not noticed.
\<close>

definition client_create_message :: "client_env \<Rightarrow> client_run \<Rightarrow> (client_code \<times> client_run) option" where
  "client_create_message E w =
     Option.bind (tor_send_create_msg E w) (\<lambda>(ok, w).
     if \<not> ok then Some (client_error, w)
     else
       let (_, w) = recv_cell 0 w
       in if cell_cmd (cl_buffer w) \<noteq> TOR_CREATED then Some (client_error, w) else Some (client_success, w))"

lemma send_cell_session: "send_cell n b w = (ok, w') \<Longrightarrow> cl_session w' = cl_session w"
  by (auto simp: send_cell_def Let_def split: prod.splits)

lemma recv_cell_session: "recv_cell n w = (ok, w') \<Longrightarrow> cl_session w' = cl_session w"
  by (auto simp: recv_cell_def Let_def split: prod.splits)

lemma extend_session: "tor_send_extend_msg E d w = Some (ok, w') \<Longrightarrow> cl_session w' = cl_session w"
  by (auto simp: tor_send_extend_msg_def Let_def dest: send_cell_session split: Option.bind_splits)

function create_relay_circuit :: "client_env \<Rightarrow> client_run \<Rightarrow> (client_code \<times> client_run) option" where
  "create_relay_circuit E w =
     (if cur_relays (cl_session w) < length (circuit_relays (cl_session w)) then
        case tor_send_extend_msg E (circuit_relays (cl_session w) ! cur_relays (cl_session w)) w of
          None \<Rightarrow> None
        | Some (ok, w1) \<Rightarrow>
            if \<not> ok then Some (client_error, w1)
            else
              let (ok, w2) = recv_cell (cur_relays (cl_session w1)) w1
              in if \<not> ok then Some (client_error, w2)
                 else if relay_cmd (cl_buffer w2) \<noteq> RELAY_EXTENDED then Some (client_error, w2)
                 else create_relay_circuit E
                   (w2\<lparr>cl_session := (cl_session w2)\<lparr>cur_relays := cur_relays (cl_session w2) + 1\<rparr>\<rparr>)
      else Some (client_success, w))"
  by pat_completeness auto

termination
  by (relation "measure (\<lambda>(E, w). length (circuit_relays (cl_session w)) - cur_relays (cl_session w))")
     (auto dest!: extend_session recv_cell_session [OF sym])

declare create_relay_circuit.simps [simp del]

section \<open>Cells from the circuit\<close>

text \<open>
  The length of a \<open>data\<close> cell is not checked. Data for a stream that is not open ends the session, with
  the response as it is.
\<close>

definition handle_relay_relay_msg :: "client_env \<Rightarrow> client_run \<Rightarrow> (bool \<times> client_run) option" where
  "handle_relay_relay_msg E w =
     (let b = cl_buffer w in
      if relay_cmd b = RELAY_CONNECTED then Some (True, w)
      else if relay_cmd b = RELAY_END then
        Some (True, w\<lparr>cl_streams := fst (snd (stream_hashmap_remove (cl_streams w) (relay_stream_id b)))\<rparr>)
      else if relay_cmd b = RELAY_DATA then
        (case socket_hashmap_find (cl_streams w) (relay_stream_id b) of
           None \<Rightarrow> Some (False, w)
         | Some entry \<Rightarrow>
             Option.bind (stream_push_data (ce_alloc E) (he_data (cl_streams w ! entry)) (drop 14 b)
                 (unat (relay_length b))) (\<lambda>buf.
             Some (True, w\<lparr>cl_streams := (cl_streams w)[entry := (cl_streams w ! entry)\<lparr>he_data := buf\<rparr>]\<rparr>)))
      else Some (True, w))"

definition handle_relay_msg :: "client_env \<Rightarrow> client_run \<Rightarrow> (bool \<times> client_run) option" where
  "handle_relay_msg E w =
     (if cell_cmd (cl_buffer w) = TOR_RELAY then handle_relay_relay_msg E w
      else if cell_cmd (cl_buffer w) = TOR_PADDING then Some (True, w)
      else Some (True, w))"

section \<open>Commands\<close>

text \<open>A command that sends: on failure the session ends with an error.\<close>

definition or_client_error :: "bool \<times> client_run \<Rightarrow> bool \<times> client_run" where
  "or_client_error r = (case r of (ok, w) \<Rightarrow> if ok then (True, w) else (False, w\<lparr>cl_response := client_error\<rparr>))"

text \<open>
  \<open>handle_input\<close> has a cell buffer of its own, so the commands here work on \<open>w\<close> with that buffer and
  the session's one is put back at the end.
\<close>

definition handle_input_ping :: "client_run \<Rightarrow> (bool \<times> client_run) option" where
  "handle_input_ping w = Some (or_client_error (tor_send_ping_msg w))"

definition handle_input_destroy :: "client_run \<Rightarrow> (bool \<times> client_run) option" where
  "handle_input_destroy w =
     (case tor_send_destroy_msg w of
        (False, w) \<Rightarrow> Some (False, w\<lparr>cl_response := client_error\<rparr>)
      | (True, w) \<Rightarrow> Some (False, w\<lparr>cl_response := client_success\<rparr>))"

text \<open>The generated id is the new value of the counter; whether the insertion succeeds is not looked at.\<close>

definition handle_input_connect :: "client_env \<Rightarrow> client_run \<Rightarrow> (bool \<times> client_run) option" where
  "handle_input_connect E w =
     Option.bind (input_sockaddr E w) (\<lambda>(sock, w).
     Option.bind (gen_stream_id (cl_streams w) (cl_next_id w)) (\<lambda>stream_id.
     Option.bind (stream_hashmap_insert (ce_alloc E) (cl_streams w) (ucast stream_id)) (\<lambda>(_, m).
     Some (or_client_error (tor_send_begin_msg stream_id sock (w\<lparr>cl_next_id := stream_id, cl_streams := m\<rparr>))))))"

definition handle_input_close :: "client_run \<Rightarrow> (bool \<times> client_run) option" where
  "handle_input_close w =
     Option.bind (input_int w) (\<lambda>(stream_id, w).
     case tor_send_end_msg stream_id w of
       (False, w) \<Rightarrow> Some (False, w\<lparr>cl_response := client_error\<rparr>)
     | (True, w) \<Rightarrow>
         Some (True, w\<lparr>cl_streams := fst (snd (stream_hashmap_remove (cl_streams w) (ucast stream_id)))\<rparr>))"

text \<open>The loop that cuts the data into cells of at most 498 bytes.\<close>

function send_chunks :: "u32 \<Rightarrow> bytes \<Rightarrow> nat \<Rightarrow> nat \<Rightarrow> client_run \<Rightarrow> (bool \<times> client_run) option" where
  "send_chunks stream_id data input_length index w =
     (if index < input_length then
        let cur_data_length = min RELAY_MSG_SIZE (input_length - index)
        in case tor_send_data_msg stream_id (drop index data) (word_of_nat cur_data_length) w of
             None \<Rightarrow> None
           | Some (False, w) \<Rightarrow> Some (False, w\<lparr>cl_response := client_error\<rparr>)
           | Some (True, w) \<Rightarrow> send_chunks stream_id data input_length (index + cur_data_length) w
      else Some (True, w))"
  by pat_completeness auto
termination
  by (relation "measure (\<lambda>(_, _, n, i, _). n - i)") (auto simp: min_def)

declare send_chunks.simps [simp del]

definition string_bytes :: "string \<Rightarrow> bytes" where "string_bytes s = map of_char s"

text \<open>\<open>malloc\<close> of the length the user gives; a failed allocation is written to.\<close>

definition handle_input_send :: "client_env \<Rightarrow> client_run \<Rightarrow> (bool \<times> client_run) option" where
  "handle_input_send E w =
     Option.bind (input_int w) (\<lambda>(stream_id, w).
     case socket_hashmap_find (cl_streams w) (ucast stream_id) of
       None \<Rightarrow> Some (True, w)
     | Some entry \<Rightarrow>
         Option.bind (input_int w) (\<lambda>(len, w).
         if \<not> ce_alloc E (unat len) then None
         else
           Option.bind (read_input (unat len) w) (\<lambda>(line, w).
           send_chunks stream_id (string_bytes line) (length line) 0 w)))"

text \<open>
  The loop prints at most 16 bytes at a time, as a string, so nothing after a zero byte of a piece. It ends
  when as much was taken as asked for, or the stream is empty.
\<close>

function recv_chunks :: "nat \<Rightarrow> circular_buffer \<Rightarrow> u8 option list list \<Rightarrow> (circular_buffer \<times> u8 option list list) option" where
  "recv_chunks len buf printed =
     (if len = 0 then Some (buf, printed)
      else
        case stream_pop_data buf (min TOR_DATA_BUF_SIZE len) of
          None \<Rightarrow> None
        | Some (out, buf) \<Rightarrow>
            if out = [] then Some (buf, printed)
            else if length out \<le> len
            then recv_chunks (len - length out) buf (printed @ [takeWhile (\<lambda>x. x \<noteq> Some 0) out])
            else None)"
  by pat_completeness auto
termination
  by (relation "measure (\<lambda>(n, _, _). n)") auto

declare recv_chunks.simps [simp del]

definition handle_input_recv :: "client_run \<Rightarrow> (bool \<times> client_run) option" where
  "handle_input_recv w =
     Option.bind (input_int w) (\<lambda>(stream_id, w).
     case socket_hashmap_find (cl_streams w) (ucast stream_id) of
       None \<Rightarrow> Some (True, w)
     | Some entry \<Rightarrow>
         Option.bind (input_int w) (\<lambda>(len, w).
         Option.bind (recv_chunks (unat len) (he_data (cl_streams w ! entry)) []) (\<lambda>(buf, out).
         Some (True, w\<lparr>cl_streams := (cl_streams w)[entry := (cl_streams w ! entry)\<lparr>he_data := buf\<rparr>],
                       cl_printed := cl_printed w @ out\<rparr>))))"

definition handle_input :: "client_env \<Rightarrow> string \<Rightarrow> client_run \<Rightarrow> (bool \<times> client_run) option" where
  "handle_input E input_buffer w =
     (if input_buffer = ''exit'' then Some (False, w\<lparr>cl_response := client_success\<rparr>)
      else
        let msg = w\<lparr>cl_buffer := ce_junk_cell E\<rparr>
        in map_option (\<lambda>(running, w'). (running, w'\<lparr>cl_buffer := cl_buffer w\<rparr>))
             (if input_buffer = ''ping'' then handle_input_ping msg
              else if input_buffer = ''destroy'' then handle_input_destroy msg
              else if input_buffer = ''connect'' then handle_input_connect E msg
              else if input_buffer = ''close'' then handle_input_close msg
              else if input_buffer = ''send'' then handle_input_send E msg
              else if input_buffer = ''recv'' then handle_input_recv msg
              else Some (True, w)))"

section \<open>Events\<close>

text \<open>
  A line is read into a local array; at the end of the input the array stays as it was, and is used all
  the same.
\<close>

definition client_handle_event :: "client_env \<Rightarrow> u32 \<Rightarrow> client_run \<Rightarrow> (bool \<times> client_run) option" where
  "client_handle_event E event w =
     (if event = MY_EVENT_RELAY then
        (case recv_cell (cur_relays (cl_session w)) w of
           (False, w) \<Rightarrow> Some (False, w\<lparr>cl_response := client_error\<rparr>)
         | (True, w) \<Rightarrow> handle_relay_msg E w)
      else if event = MY_EVENT_STDIN then
        (let (got, rest) = fgets (int INPUT_BUF_SIZE) (cl_input w);
             w = w\<lparr>cl_input := rest\<rparr>;
             input_buffer = (case got of None \<Rightarrow> ce_junk_input E | Some line \<Rightarrow> line @ [NUL])
         in if NUL \<notin> set input_buffer \<and> newline \<notin> set input_buffer then None
            else handle_input E (cut_line input_buffer) w)
      else None)"

fun event_chunk :: "client_env \<Rightarrow> u32 list \<Rightarrow> client_run \<Rightarrow> (bool \<times> client_run) option" where
  "event_chunk E [] w = Some (True, w)"
| "event_chunk E (e # es) w =
     (case client_handle_event E e w of
        None \<Rightarrow> None
      | Some (False, w) \<Rightarrow> Some (False, w)
      | Some (True, w) \<Rightarrow> event_chunk E es w)"

text \<open>The argument is what \<open>epoll_wait\<close> comes back with: \<open>None\<close> for an error, or up to 8 events.\<close>

definition handle_event_chunk :: "client_env \<Rightarrow> u32 list option \<Rightarrow> client_run \<Rightarrow> (bool \<times> client_run) option" where
  "handle_event_chunk E events w =
     (case events of
        None \<Rightarrow> Some (False, w\<lparr>cl_response := client_error\<rparr>)
      | Some es \<Rightarrow> event_chunk E es w)"

text \<open>The loop; the first component is the code the session returns, if it ends within the list.\<close>

fun client_events :: "client_env \<Rightarrow> u32 list option list \<Rightarrow> client_run \<Rightarrow> (client_code option \<times> client_run) option" where
  "client_events E [] w = Some (None, w)"
| "client_events E (c # cs) w =
     (case handle_event_chunk E c w of
        None \<Rightarrow> None
      | Some (False, w) \<Rightarrow> Some (Some (cl_response w), w)
      | Some (True, w) \<Rightarrow> client_events E cs w)"

definition process_events :: "client_env \<Rightarrow> u32 list option list \<Rightarrow> client_run \<Rightarrow> (client_code option \<times> client_run) option" where
  "process_events E cs w = client_events E cs (w\<lparr>cl_response := client_success\<rparr>)"

text \<open>Both are event loops: the one over the events of a chunk, and the one over the chunks.\<close>

interpretation chunk_loop: event_loop "client_handle_event E" "\<lambda>w. w" "\<lambda>es w. map_option (apfst Not) (event_chunk E es w)" for E
  by unfold_locales (auto split: option.splits Option.bind_splits)

interpretation client_loop: event_loop "handle_event_chunk E" "\<lambda>w. w"
    "\<lambda>cs w. map_option (apfst (\<lambda>code. code \<noteq> None)) (client_events E cs w)" for E
  by unfold_locales (auto split: option.splits Option.bind_splits)

lemma event_chunk_keeps:
  assumes "\<And>e w r. e \<in> set es \<Longrightarrow> P w \<Longrightarrow> client_handle_event E e w = Some r \<Longrightarrow> P (snd r)"
    and "P w" "event_chunk E es w = Some r"
  shows "P (snd r)"
  using chunk_loop.run_keeps [where es = es and P = P and E = E and w = w and ended = "\<not> fst r" and w' = "snd r"] assms
  by (cases r) force

lemma client_events_keep:
  assumes "\<And>e w r. P w \<Longrightarrow> client_handle_event E e w = Some r \<Longrightarrow> P (snd r)"
    and "\<And>w. P w \<Longrightarrow> P (w\<lparr>cl_response := client_error\<rparr>)" "P w" "client_events E cs w = Some r"
  shows "P (snd r)"
proof -
  have chunk: "P w'" if "P w" "handle_event_chunk E c w = Some (ok, w')" for c w ok w'
  proof (cases c)
    case None
    then show ?thesis using that assms(2) by (auto simp: handle_event_chunk_def)
  next
    case (Some es)
    then have "event_chunk E es w = Some (ok, w')" using that(2) by (simp add: handle_event_chunk_def)
    then show ?thesis using event_chunk_keeps [where P = P and es = es, OF assms(1) that(1)] by fastforce
  qed
  have "map_option (apfst (\<lambda>code. code \<noteq> None)) (client_events E cs w) = Some (fst r \<noteq> None, snd r)"
    using assms(4) by (cases r) simp
  from client_loop.run_keeps [where P = P, OF _ chunk this assms(3)] show ?thesis by simp
qed

text \<open>A socket of 0 is not closed; the onion keys freed are as many as the configuration says.\<close>

definition free_session :: "client_run \<Rightarrow> client_run" where
  "free_session w =
     (let ses = cl_session w;
          (ses, s) = (if 0 < sock_fd ses then (ses\<lparr>sock_fd := -1\<rparr>, close_fd (sock_fd ses) (cl_net w)) else (ses, cl_net w));
          ses = ses\<lparr>tls_key := free_key (tls_key ses)\<rparr>;
          ses = ses\<lparr>onion_keys := fold (\<lambda>i keys. keys[i := free_key (keys ! i)]) [0..<config_relays ses] (onion_keys ses)\<rparr>
      in w\<lparr>cl_session := ses, cl_net := s\<rparr>)"

definition process_client_session ::
  "client_env \<Rightarrow> u32 list option list \<Rightarrow> client_run \<Rightarrow> (client_code option \<times> client_run) option" where
  "process_client_session E cs w =
     Option.bind (client_create_message E (w\<lparr>cl_buffer := replicate TOR_MSG_SIZE 0\<rparr>)) (\<lambda>(return_value, w).
     if return_value \<noteq> client_success then Some (Some return_value, free_session w)
     else
       let w = w\<lparr>cl_session := (cl_session w)\<lparr>cur_relays := 1\<rparr>\<rparr>
       in Option.bind (create_relay_circuit E w) (\<lambda>(return_value, w).
          if return_value \<noteq> client_success then Some (Some return_value, free_session w)
          else process_events E cs (w\<lparr>cl_streams := socket_hashmap_init (ce_junk_streams E)\<rparr>)))"

section \<open>Facts about the session\<close>

lemma send_cell_out:
  fixes n :: nat and b :: bytes
  assumes "net_ok (cl_net w) (sock_fd (cl_session w))"
  defines "wire \<equiv> client_seal (Some (tls_key (cl_session w))) (onion_keys (cl_session w)) n b"
  shows "send_cell n b w = (True, w\<lparr>cl_net := cl_net w\<lparr>net_out := net_out (cl_net w) @ [(sock_fd (cl_session w), wire)]\<rparr>,
    cl_buffer := wire\<rparr>)"
  using assms(1) by (simp add: send_cell_def client_send_tor_buffer_def send_fd_def wire_def Let_def)

text \<open>What sending, receiving and reading input leave alone.\<close>

lemma send_cell_frame: "send_cell n b w = (ok, w') \<Longrightarrow> cl_streams w' = cl_streams w \<and> cl_session w' = cl_session w"
  by (auto simp: send_cell_def Let_def split: prod.splits)

lemma recv_cell_frame: "recv_cell n w = (ok, w') \<Longrightarrow> cl_streams w' = cl_streams w \<and> cl_session w' = cl_session w"
  by (auto simp: recv_cell_def Let_def split: prod.splits)

lemma read_input_frame: "read_input n w = Some (s, w') \<Longrightarrow> cl_streams w' = cl_streams w \<and> cl_session w' = cl_session w"
  by (auto simp: read_input_def split: prod.splits option.splits if_splits)

lemma input_int_frame: "input_int w = Some (x, w') \<Longrightarrow> cl_streams w' = cl_streams w \<and> cl_session w' = cl_session w"
  by (auto simp: input_int_def dest: read_input_frame)

lemma input_sockaddr_frame:
  assumes "input_sockaddr E w = Some r"
  shows "cl_streams (snd r) = cl_streams w \<and> cl_session (snd r) = cl_session w"
  using assms
proof (rule input_sockaddr.raw_induct [rotated])
  fix rec E w r
  assume ih: "\<And>E w r. rec E w = Some r \<Longrightarrow> cl_streams (snd r) = cl_streams w \<and> cl_session (snd r) = cl_session w"
    and "Option.bind (read_input INPUT_BUF_SIZE w) (\<lambda>(ip, w). Option.bind (read_input INPUT_BUF_SIZE w) (\<lambda>(port, w).
      case resolve_sockaddr E ip port of Some sock \<Rightarrow> Some (sock, w) | None \<Rightarrow> rec E w)) = Some r"
  then show "cl_streams (snd r) = cl_streams w \<and> cl_session (snd r) = cl_session w"
    by (auto split: Option.bind_splits option.splits dest!: read_input_frame ih)
qed

section \<open>Streams stay at their home slots\<close>

lemma at_home_data: "at_home m \<Longrightarrow> at_home (m[i := (m ! i)\<lparr>he_data := d\<rparr>])"
proof (cases "i < HASHMAP_AMOUNT")
  case True
  assume "at_home m"
  then show ?thesis using True by (intro at_home_update) (simp_all add: at_home_def)
next
  case False
  assume "at_home m"
  then show ?thesis using False by (simp add: at_home_def list_update_beyond)
qed

lemma home_send [simp]: "cl_streams (snd (send_cell n b w)) = cl_streams w"
  "cl_streams (snd (or_client_error q)) = cl_streams (snd q)"
  using send_cell_frame [of n b w "fst (send_cell n b w)" "snd (send_cell n b w)"]
  by (simp_all add: or_client_error_def split: prod.splits)

lemmas client_sends = tor_send_begin_msg_def tor_send_end_msg_def tor_send_ping_msg_def tor_send_destroy_msg_def

lemma home_cells:
  assumes "at_home (cl_streams w)" "handle_relay_msg E w = Some r"
  shows "at_home (cl_streams (snd r))"
  using assms at_home_remove [OF assms(1)] at_home_data [OF assms(1)]
  by (auto simp: handle_relay_msg_def handle_relay_relay_msg_def Let_def
      split: if_splits option.splits Option.bind_splits)

lemma home_connect:
  assumes "at_home (cl_streams w)" "handle_input_connect E w = Some r"
  shows "at_home (cl_streams (snd r))"
proof -
  obtain sock w1 where s: "input_sockaddr E w = Some (sock, w1)"
    using assms(2) by (auto simp: handle_input_connect_def split: Option.bind_splits)
  then have h: "at_home (cl_streams w1)" using assms(1) input_sockaddr_frame [OF s] by simp
  obtain i e m where "gen_stream_id (cl_streams w1) (cl_next_id w1) = Some i"
      "stream_hashmap_insert (ce_alloc E) (cl_streams w1) (ucast i) = Some (e, m)"
      "r = or_client_error (tor_send_begin_msg i sock (w1\<lparr>cl_next_id := i, cl_streams := m\<rparr>))"
    using assms(2) s by (auto simp: handle_input_connect_def split: Option.bind_splits)
  then show ?thesis using at_home_insert [OF h] by (simp add: client_sends)
qed

lemma home_close:
  assumes "at_home (cl_streams w)" "handle_input_close w = Some r"
  shows "at_home (cl_streams (snd r))"
proof -
  obtain i w1 where s: "input_int w = Some (i, w1)"
    using assms(2) by (auto simp: handle_input_close_def split: Option.bind_splits)
  then have h: "cl_streams w1 = cl_streams w" using input_int_frame by blast
  obtain ok w2 where e: "tor_send_end_msg i w1 = (ok, w2)" by fastforce
  then have "cl_streams w2 = cl_streams w" using h send_cell_frame by (auto simp: tor_send_end_msg_def)
  then show ?thesis
    using assms s e at_home_remove [OF assms(1)] by (cases ok) (auto simp: handle_input_close_def)
qed

lemma home_chunks: "send_chunks i data n k w = Some r \<Longrightarrow> cl_streams (snd r) = cl_streams w"
proof (induction i data n k w arbitrary: r rule: send_chunks.induct)
  case (1 i data n k w)
  show ?case
  proof (cases "k < n")
    case True
    then obtain ok w1 where s: "tor_send_data_msg i (drop k data) (word_of_nat (min 498 (n - k))) w = Some (ok, w1)"
      using "1.prems" by (subst (asm) send_chunks.simps) (auto simp: Let_def split: option.splits)
    then have w1: "cl_streams w1 = cl_streams w"
      by (auto simp: tor_send_data_msg_def dest: send_cell_frame split: Option.bind_splits)
    show ?thesis
    proof (cases ok)
      case True
      then show ?thesis
        using "1.prems" "1.IH" [OF \<open>k < n\<close> refl _ refl] s w1 \<open>k < n\<close>
        by (subst (asm) send_chunks.simps) (auto simp: Let_def)
    next
      case False
      then show ?thesis using "1.prems" s w1 \<open>k < n\<close> by (subst (asm) send_chunks.simps) (auto simp: Let_def)
    qed
  next
    case False
    then show ?thesis using "1.prems" by (subst (asm) send_chunks.simps) auto
  qed
qed

lemma home_input_send:
  assumes "handle_input_send E w = Some r"
  shows "cl_streams (snd r) = cl_streams w"
proof -
  obtain i w1 where a: "input_int w = Some (i, w1)"
    using assms by (auto simp: handle_input_send_def split: Option.bind_splits)
  show ?thesis
  proof (cases "socket_hashmap_find (cl_streams w1) (ucast i)")
    case None
    then show ?thesis using assms a input_int_frame [OF a] by (auto simp: handle_input_send_def)
  next
    case (Some entry)
    then obtain n w2 line w3 where "input_int w1 = Some (n, w2)" "read_input (unat n) w2 = Some (line, w3)"
      "send_chunks i (string_bytes line) (length line) 0 w3 = Some r"
      using assms a by (auto simp: handle_input_send_def split: Option.bind_splits if_splits)
    then show ?thesis using a by (auto dest!: input_int_frame read_input_frame home_chunks)
  qed
qed

lemma home_recv:
  assumes "at_home (cl_streams w)" "handle_input_recv w = Some r"
  shows "at_home (cl_streams (snd r))"
proof -
  obtain i w1 where a: "input_int w = Some (i, w1)"
    using assms(2) by (auto simp: handle_input_recv_def split: Option.bind_splits)
  then have h: "at_home (cl_streams w1)" using assms(1) input_int_frame by metis
  show ?thesis
  proof (cases "socket_hashmap_find (cl_streams w1) (ucast i)")
    case None
    then show ?thesis using assms(2) a h by (auto simp: handle_input_recv_def)
  next
    case (Some entry)
    then obtain n w2 buf out where "input_int w1 = Some (n, w2)"
      "recv_chunks (unat n) (he_data (cl_streams w2 ! entry)) [] = Some (buf, out)"
      "cl_streams (snd r) = (cl_streams w2)[entry := (cl_streams w2 ! entry)\<lparr>he_data := buf\<rparr>]"
      using assms(2) a by (auto simp: handle_input_recv_def split: Option.bind_splits)
    then show ?thesis using h at_home_data input_int_frame by metis
  qed
qed

lemma home_input:
  assumes "at_home (cl_streams w)" "handle_input E cmd w = Some r"
  shows "at_home (cl_streams (snd r))"
proof -
  let ?m = "w\<lparr>cl_buffer := ce_junk_cell E\<rparr>"
  have m: "at_home (cl_streams ?m)" using assms(1) by simp
  have d: "at_home (cl_streams (snd q))" if "handle_input_destroy ?m = Some q" for q
    using that assms(1) send_cell_frame
    by (auto simp: handle_input_destroy_def tor_send_destroy_msg_def split: prod.splits bool.splits)
  have g: "at_home (cl_streams (snd q))" if "handle_input_ping ?m = Some q" for q
    using that assms(1) by (auto simp: handle_input_ping_def client_sends)
  have u: "at_home (cl_streams (snd q))" if "handle_input_send E ?m = Some q" for q
    using home_input_send [OF that] assms(1) by simp
  note each = g d u home_connect [OF m] home_close [OF m] home_recv [OF m]
  show ?thesis
  proof (cases "cmd = ''exit''")
    case True
    then show ?thesis using assms by (auto simp: handle_input_def)
  next
    case False
    define c where "c = (if cmd = ''ping'' then handle_input_ping ?m
              else if cmd = ''destroy'' then handle_input_destroy ?m
              else if cmd = ''connect'' then handle_input_connect E ?m
              else if cmd = ''close'' then handle_input_close ?m
              else if cmd = ''send'' then handle_input_send E ?m
              else if cmd = ''recv'' then handle_input_recv ?m
              else Some (True, w))"
    have "map_option (\<lambda>(running, w'). (running, w'\<lparr>cl_buffer := cl_buffer w\<rparr>)) c = Some r"
      using assms(2) False unfolding handle_input_def c_def Let_def by (simp only: if_False)
    then obtain q where q: "c = Some q" "cl_streams (snd r) = cl_streams (snd q)" by (auto split: prod.splits)
    have "at_home (cl_streams (snd q))"
      using q(1) assms(1) each unfolding c_def by (simp split: if_splits) auto
    then show ?thesis using q(2) by simp
  qed
qed

lemma home_event:
  assumes "at_home (cl_streams w)" "client_handle_event E event w = Some r"
  shows "at_home (cl_streams (snd r))"
proof -
  consider "event = MY_EVENT_RELAY" | "event = MY_EVENT_STDIN" "event \<noteq> MY_EVENT_RELAY"
    using assms(2) by (auto simp: client_handle_event_def split: if_splits)
  then show ?thesis
  proof cases
    case 1
    obtain ok w1 where w1: "recv_cell (cur_relays (cl_session w)) w = (ok, w1)" by fastforce
    then have "at_home (cl_streams w1)" using assms(1) recv_cell_frame by metis
    then show ?thesis using assms(2) 1 w1 home_cells [of w1] by (cases ok) (auto simp: client_handle_event_def)
  next
    case 2
    then obtain rest cmd where "handle_input E cmd (w\<lparr>cl_input := rest\<rparr>) = Some r"
      using assms(2) by (auto simp: client_handle_event_def Let_def split: prod.splits if_splits)
    then show ?thesis using home_input [of "w\<lparr>cl_input := rest\<rparr>"] assms(1) by simp
  qed
qed

lemma home_events:
  assumes "at_home (cl_streams w)" "client_events E cs w = Some r"
  shows "at_home (cl_streams (snd r))"
  by (rule client_events_keep [where P = "\<lambda>w. at_home (cl_streams w)", OF home_event _ assms]) simp_all

section \<open>Sending and taking data\<close>

lemma unat_length_498: "m \<le> 498 \<Longrightarrow> unat (word_of_nat m :: u16) = m"
  by (simp add: unsigned_of_nat take_bit_eq_mod)

text \<open>A data cell carries what it should.\<close>

lemma client_data_cell_ok:
  assumes "is_cell b" "m \<le> 498" "m \<le> length data"
  obtains c where "client_data_cell i data (word_of_nat m) b = Some c" "is_cell c" "cell_cmd c = TOR_RELAY"
    "relay_cmd c = RELAY_DATA" "relay_stream_id c = ucast i" "relay_length c = word_of_nat m"
    "take m (relay_payload c) = take m data"
proof -
  define h where "h = set_relay_length (word_of_nat m) (set_relay_stream_id (ucast i)
      (set_relay_cmd RELAY_DATA (set_cell_cmd TOR_RELAY b)))"
  define c where "c = splice 14 (take m data) h"
  have h: "is_cell h" using assms(1) by (simp add: h_def)
  have f: "h ! 2 = TOR_RELAY" "h ! 13 = RELAY_DATA" "get16 3 h = ucast i" "get16 11 h = word_of_nat m"
    using assms(1)
    by (simp_all add: h_def cell_writers nth_splice get16_splice_same get16_splice_other)
  have l: "length (take m data) = m" using assms(3) by simp
  have p: "take m (slice 14 498 c) = take m data"
    using slice_splice_same [of 14 "take m data" h] l h assms(2) by (simp add: c_def slice_def min_def)
  show ?thesis
  proof
    show "client_data_cell i data (word_of_nat m) b = Some c"
      using assms h l unat_length_498 [OF assms(2)]
      by (simp add: client_data_cell_def h_def [symmetric] c_def mem_read_def mem_write_def splice_def)
    show "is_cell c" using h l assms(2) by (simp add: c_def)
    show "cell_cmd c = TOR_RELAY" "relay_cmd c = RELAY_DATA" "relay_stream_id c = ucast i"
      "relay_length c = word_of_nat m" "take m (relay_payload c) = take m data"
      using f h l assms(2) p
      by (simp_all add: c_def cell_cmd_def relay_cmd_def relay_stream_id_def relay_length_def relay_payload_def
          nth_splice get16_splice_other)
  qed
qed

lemma length_seal: "is_cell b \<Longrightarrow> is_cell (client_seal tls keys n b)"
proof -
  assume "is_cell b"
  then have "is_cell (fold (\<lambda>i. onion_encrypt (keys ! i)) is b)" for "is" by (induction "is" arbitrary: b) simp_all
  then show ?thesis by (simp add: client_seal_def)
qed

text \<open>The cells of a transmission, in order.\<close>

definition carries :: "u32 \<Rightarrow> bytes list \<Rightarrow> bytes \<Rightarrow> bool" where
  "carries i cells data \<longleftrightarrow>
     (\<forall>c \<in> set cells. is_cell c \<and> cell_cmd c = TOR_RELAY \<and> relay_cmd c = RELAY_DATA \<and> relay_stream_id c = ucast i \<and>
        0 < unat (relay_length c) \<and> unat (relay_length c) \<le> 498) \<and>
     concat (map (\<lambda>c. take (unat (relay_length c)) (relay_payload c)) cells) = data"

lemma chunks_carry:
  assumes "is_cell (cl_buffer w)" "net_ok (cl_net w) (sock_fd (cl_session w))" "k \<le> length data" "n = length data"
  shows "\<exists>cells w'. send_chunks i data n k w = Some (True, w') \<and> carries i cells (drop k data) \<and>
    net_out (cl_net w') = net_out (cl_net w) @ map (\<lambda>c. (sock_fd (cl_session w),
      client_seal (Some (tls_key (cl_session w))) (onion_keys (cl_session w)) (cur_relays (cl_session w)) c)) cells"
  using assms
proof (induction "n - k" arbitrary: k w rule: less_induct)
  case (less k w)
  let ?fd = "sock_fd (cl_session w)"
    and ?seal = "client_seal (Some (tls_key (cl_session w))) (onion_keys (cl_session w)) (cur_relays (cl_session w))"
  show ?case
  proof (cases "k < n")
    case True
    define m where "m = min 498 (n - k)"
    have m: "m \<le> 498" "m \<le> length (drop k data)" "0 < m" using True less.prems(4) by (simp_all add: m_def)
    obtain c where c: "client_data_cell i (drop k data) (word_of_nat m) (cl_buffer w) = Some c" "is_cell c"
      "cell_cmd c = TOR_RELAY" "relay_cmd c = RELAY_DATA" "relay_stream_id c = ucast i" "relay_length c = word_of_nat m"
      "take m (relay_payload c) = take m (drop k data)"
      by (rule client_data_cell_ok [OF less.prems(1) m(1,2)])
    define w1 where "w1 = w\<lparr>cl_net := cl_net w\<lparr>net_out := net_out (cl_net w) @ [(?fd, ?seal c)]\<rparr>, cl_buffer := ?seal c\<rparr>"
    have t: "tor_send_data_msg i (drop k data) (word_of_nat m) w = Some (True, w1)"
      using c(1) less.prems(2) by (simp add: tor_send_data_msg_def send_cell_out w1_def)
    have IH: "\<exists>cells w'. send_chunks i data n (k + m) w1 = Some (True, w') \<and> carries i cells (drop (k + m) data) \<and>
        net_out (cl_net w') = net_out (cl_net w1) @ map (\<lambda>c. (?fd, ?seal c)) cells"
    proof -
      have d: "n - (k + m) < n - k" using True m(3) by simp
      have "is_cell (cl_buffer w1)" using length_seal [OF c(2)] by (simp add: w1_def)
      moreover have "net_ok (cl_net w1) (sock_fd (cl_session w1))" using less.prems(2) by (simp add: w1_def)
      moreover have "k + m \<le> length data" using m less.prems(3) by simp
      ultimately show ?thesis using less.hyps [OF d, of w1] less.prems(4) by (simp add: w1_def)
    qed
    then obtain cells w' where r: "send_chunks i data n (k + m) w1 = Some (True, w')"
      "carries i cells (drop (k + m) data)"
      "net_out (cl_net w') = net_out (cl_net w1) @ map (\<lambda>c. (?fd, ?seal c)) cells" by blast
    have "send_chunks i data n k w = Some (True, w')"
      using True t r(1) by (subst send_chunks.simps) (simp add: Let_def m_def)
    moreover have "carries i (c # cells) (drop k data)"
      using r(2) c m unat_length_498 [OF m(1)] append_take_drop_id [of m "drop k data"]
      by (simp add: carries_def add.commute)
    ultimately show ?thesis
      using r(3) by (intro exI [of _ "c # cells"] exI [of _ w']) (simp add: w1_def)
  next
    case False
    then have "send_chunks i data n k w = Some (True, w)" by (subst send_chunks.simps) simp
    then show ?thesis
      using less.prems False by (intro exI [of _ "[]"] exI [of _ w]) (simp add: carries_def)
  qed
qed

text \<open>Taking data from a stream.\<close>

lemma chunks_taken:
  assumes "ring_ok b" "0 \<notin> set (ring_bytes b)"
  shows "\<exists>b' out. recv_chunks n b printed = Some (b', printed @ out) \<and> ring_ok b' \<and>
    concat out = map Some (take n (ring_bytes b)) \<and> ring_bytes b' = drop n (ring_bytes b)"
  using assms
proof (induction n arbitrary: b printed rule: less_induct)
  case (less n b printed)
  let ?k = "min 16 n"
  obtain b1 where b1: "stream_pop_data b ?k = Some (take ?k (ring_contents b), b1)" "ring_ok b1"
    "ring_contents b1 = drop ?k (ring_contents b)"
    using pop_contents [OF less.prems(1)] by blast
  have rc: "ring_contents b = map Some (ring_bytes b)" by (rule ring_contents_bytes [OF less.prems(1)])
  have rb1: "ring_bytes b1 = drop ?k (ring_bytes b)" using b1(3) by (simp add: ring_bytes_def drop_map)
  define out where "out = take ?k (ring_bytes b)"
  have pop: "stream_pop_data b (min TOR_DATA_BUF_SIZE n) = Some (map Some out, b1)"
    using b1(1) rc by (simp add: out_def take_map TOR_DATA_BUF_SIZE_def)
  have nz: "Some 0 \<notin> set (map Some out)" using less.prems(2) by (auto simp: out_def dest: in_set_takeD)
  then have tw: "takeWhile (\<lambda>x. x \<noteq> Some 0) (map Some out) = map Some out"
    unfolding takeWhile_eq_all_conv by blast
  show ?case
  proof (cases "n = 0 \<or> out = []")
    case True
    then have "recv_chunks n b printed = Some (if n = 0 then b else b1, printed)"
      using pop by (subst recv_chunks.simps) auto
    moreover have "n = 0 \<or> ring_bytes b = []" using True by (auto simp: out_def)
    ultimately show ?thesis
      using less.prems(1) b1(2) rb1 by (intro exI [of _ "if n = 0 then b else b1"] exI [of _ "[]"]) auto
  next
    case False
    have len: "length out \<le> n" by (simp add: out_def)
    have "0 \<notin> set (ring_bytes b1)" using less.prems(2) rb1 by (auto dest: in_set_dropD)
    then obtain b' o' where r: "recv_chunks (n - length out) b1 (printed @ [map Some out]) =
        Some (b', (printed @ [map Some out]) @ o')" "ring_ok b'" "concat o' = map Some (take (n - length out) (ring_bytes b1))"
      "ring_bytes b' = drop (n - length out) (ring_bytes b1)"
      using less.IH [of "n - length out" b1 "printed @ [map Some out]"] False b1(2) by auto
    have all: "ring_bytes b = out @ ring_bytes b1" using rb1 by (simp add: out_def)
    have "recv_chunks n b printed = Some (b', printed @ ([map Some out] @ o'))"
      using False pop len r(1) by (subst recv_chunks.simps) (simp add: tw)
    moreover have "concat ([map Some out] @ o') = map Some (take n (ring_bytes b))"
      using r(3) len by (simp add: all)
    moreover have "ring_bytes b' = drop n (ring_bytes b)" using r(4) len by (simp add: all)
    ultimately show ?thesis using r(2) by blast
  qed
qed

text \<open>Reading input also leaves the sockets and the cell alone.\<close>

lemma read_input_net: "read_input n w = Some (s, w') \<Longrightarrow> cl_net w' = cl_net w \<and> cl_buffer w' = cl_buffer w \<and>
   cl_printed w' = cl_printed w"
  by (auto simp: read_input_def split: prod.splits option.splits if_splits)

lemma input_int_net: "input_int w = Some (x, w') \<Longrightarrow> cl_net w' = cl_net w \<and> cl_buffer w' = cl_buffer w \<and>
   cl_printed w' = cl_printed w"
  by (auto simp: input_int_def dest: read_input_net)

lemma at_home_init:
  assumes "length m = HASHMAP_AMOUNT"
  shows "at_home (socket_hashmap_init m)"
  using init_nth [OF assms] by (simp add: at_home_def)

lemma at_home_find:
  assumes "at_home m" "i < HASHMAP_AMOUNT" "entry_type (m ! i) = HASHMAP_STATE_FILLED"
  shows "socket_hashmap_find m (he_stream_id (m ! i)) = Some i"
proof -
  have "holds (m ! i) (he_stream_id (m ! i))" using assms(3) by (simp add: holds_def)
  then obtain j where j: "find_probe m (he_stream_id (m ! i)) (home (he_stream_id (m ! i))) = Some j"
    using find_complete [OF at_home_ok(1) [OF assms(1)] assms(2)] by blast
  then have "j = i"
    using find_some [OF j] at_home_ok(2) [OF assms(1)] assms(2) \<open>holds (m ! i) (he_stream_id (m ! i))\<close>
    unfolding unique_def by blast
  then show ?thesis using j by (simp add: socket_hashmap_find_def)
qed

section \<open>Properties\<close>

text \<open>C11. The client's stream table stays usable for a whole session: whatever commands the user types and
  whatever cells arrive, in any order, every open stream is found by its own number at the first
  slot that is probed, so no two streams share a number and no stream is lost.\<close>

theorem client_session_streams:
  assumes "length (ce_junk_streams E) = HASHMAP_AMOUNT"
    and "process_events E events (w\<lparr>cl_streams := socket_hashmap_init (ce_junk_streams E)\<rparr>) = Some (code, w')"
    and "i < HASHMAP_AMOUNT" "entry_type (cl_streams w' ! i) = HASHMAP_STATE_FILLED"
  shows "home (he_stream_id (cl_streams w' ! i)) = i \<and>
    socket_hashmap_find (cl_streams w') (he_stream_id (cl_streams w' ! i)) = Some i"
proof -
  have h: "at_home (cl_streams w')"
    using home_events [OF _ assms(2) [unfolded process_events_def]] at_home_init [OF assms(1)] by simp
  then show ?thesis using at_home_find [OF h assms(3,4)] assms(3,4) by (simp add: at_home_def)
qed

text \<open>A session over a circuit of two relays, with stream 5 open.\<close>

definition sample_streams :: "circular_buffer hashmap" where
  "sample_streams = (replicate HASHMAP_AMOUNT \<lparr>entry_type = HASHMAP_STATE_EMPTY, he_stream_id = 0,
       he_data = \<lparr>cb_buffer = [], cb_head = 0, cb_tail = 0, cb_size = 0, cb_capacity = 0\<rparr>\<rparr>)
     [5 := \<lparr>entry_type = HASHMAP_STATE_FILLED, he_stream_id = 5,
       he_data = \<lparr>cb_buffer = [Some 1, Some 2] @ replicate 6 None, cb_head = 2, cb_tail = 0, cb_size = 2, cb_capacity = 8\<rparr>\<rparr>]"

definition sample_client_env :: client_env where
  "sample_client_env = \<lparr>ce_gmp = reference_gmp, ce_globals = \<lparr>dh_p = 23, dh_g = 5\<rparr>,
     ce_key = \<lparr>this_private = 6, this_public = 8\<rparr>, ce_alloc = (\<lambda>_. True), ce_getaddrinfo = (\<lambda>_ _. Gai_in [127, 0, 0, 1] 80),
     ce_junk_key = replicate 256 0, ce_junk_key' = replicate 256 0, ce_junk_hash = replicate 64 0,
     ce_junk_cell = replicate 512 0, ce_junk_addr = replicate 16 0, ce_junk_input = [], ce_junk_streams = sample_streams\<rparr>"

definition sample_client_run :: "string \<Rightarrow> client_run" where
  "sample_client_run input = \<lparr>cl_session = \<lparr>onion_keys = [key_of 2, key_of 3], tls_key = key_of 1, sock_fd = 4,
       circuit_relays = [], cur_relays = 2, config_relays = 2\<rparr>, cl_streams = sample_streams, cl_next_id = 5,
     cl_net = quiet_net, cl_buffer = replicate 512 7, cl_response = client_success, cl_input = input, cl_printed = []\<rparr>"

lemma sample_streams: "length sample_streams = HASHMAP_AMOUNT" "socket_hashmap_find sample_streams 5 = Some 5"
  "he_data (sample_streams ! 5) = \<lparr>cb_buffer = [Some 1, Some 2] @ replicate 6 None, cb_head = 2, cb_tail = 0, cb_size = 2, cb_capacity = 8\<rparr>"
  by (simp_all add: sample_streams_def socket_hashmap_find_def find_probe.simps [of _ 5] home_example HASHMAP_AMOUNT_def
      holds_def)

text \<open>The lines of the sample inputs.\<close>

lemmas line_read = read_input_def fgets_def cut_line_def as_int_def INPUT_BUF_SIZE_def newline_def NUL_def
lemmas number_read = input_int_def line_read atoi_def atoi_value_def digits_value_def is_digit_def is_space_def

definition connect_line :: string where
  "connect_line = ''connect'' @ [newline] @ ''localhost'' @ [newline] @ ''80'' @ [newline]"

lemma fresh_streams: "length (socket_hashmap_init sample_streams) = HASHMAP_AMOUNT"
  "i < HASHMAP_AMOUNT \<Longrightarrow> entry_type (socket_hashmap_init sample_streams ! i) = HASHMAP_STATE_EMPTY"
  using init_nth [OF sample_streams(1)] by simp_all

lemma sample_connect:
  "\<exists>w'. process_events sample_client_env [Some [MY_EVENT_STDIN]]
      ((sample_client_run connect_line)\<lparr>cl_streams := socket_hashmap_init sample_streams\<rparr>) = Some (None, w') \<and>
    entry_type (cl_streams w' ! 5) = HASHMAP_STATE_FILLED \<and> he_stream_id (cl_streams w' ! 5) = 5"
proof -
  let ?m = "socket_hashmap_init sample_streams"
  obtain buf where buf: "init_stream_buffer (\<lambda>_. True) = Some buf" by (rule init_ring [of "\<lambda>_. True"]) simp
  have e: "entry_type (?m ! 5) = HASHMAP_STATE_EMPTY" using fresh_streams(2) [of 5] by (simp add: HASHMAP_AMOUNT_def)
  have g: "gen_stream_id ?m 5 = Some 5" by (subst gen_stream_id.simps) (simp add: e HASHMAP_AMOUNT_def)
  have p: "insert_probe ?m 5 (home 5) = Some 5"
    by (simp add: home_example insert_probe.simps [of ?m 5] e HASHMAP_AMOUNT_def)
  have i: "5 < length ?m" by (simp add: fresh_streams HASHMAP_AMOUNT_def)
  show ?thesis
    using buf i
    by (simp add: process_events_def handle_event_chunk_def client_handle_event_def MY_EVENT_STDIN_def MY_EVENT_RELAY_def
        line_read connect_line_def handle_input_def handle_input_connect_def input_sockaddr.simps resolve_sockaddr_def
        sample_client_run_def sample_client_env_def g stream_hashmap_insert_def p or_client_error_def
        tor_send_begin_msg_def send_cell_out quiet_net_def)
qed

lemma client_session_streams_witness:
  "\<exists>w'. process_events sample_client_env [Some [MY_EVENT_STDIN]]
      ((sample_client_run connect_line)\<lparr>cl_streams := socket_hashmap_init sample_streams\<rparr>) = Some (None, w') \<and>
    socket_hashmap_find (cl_streams w') 5 = Some 5"
proof -
  have j: "ce_junk_streams sample_client_env = sample_streams" by (simp add: sample_client_env_def)
  obtain w' where w': "process_events sample_client_env [Some [MY_EVENT_STDIN]]
      ((sample_client_run connect_line)\<lparr>cl_streams := socket_hashmap_init (ce_junk_streams sample_client_env)\<rparr>) = Some (None, w')"
    "entry_type (cl_streams w' ! 5) = HASHMAP_STATE_FILLED" "he_stream_id (cl_streams w' ! 5) = 5"
    using sample_connect unfolding j by blast
  have "length (ce_junk_streams sample_client_env) = HASHMAP_AMOUNT" "5 < HASHMAP_AMOUNT"
    unfolding j by (simp_all add: sample_streams HASHMAP_AMOUNT_def)
  from client_session_streams [OF this(1) w'(1) this(2) w'(2)] show ?thesis using w'(1,3) unfolding j by auto
qed

text \<open>C34. The \<open>send\<close> command: the line the user gives for an open stream goes out as \<open>data\<close> cells for that
  stream, each sealed for the whole circuit and with 1 to 498 bytes, which together and in order
  are the line, whatever its length.\<close>

theorem client_send_carries_data:
  assumes "input_int w = Some (stream_id, w1)" "socket_hashmap_find (cl_streams w) (ucast stream_id) = Some entry"
    and "input_int w1 = Some (len, w2)" "ce_alloc E (unat len)" "read_input (unat len) w2 = Some (line, w3)"
    and "is_cell (cl_buffer w)" "net_ok (cl_net w) (sock_fd (cl_session w))"
  shows "\<exists>cells w'. handle_input_send E w = Some (True, w') \<and> carries stream_id cells (string_bytes line) \<and>
    net_out (cl_net w') = net_out (cl_net w) @ map (\<lambda>c. (sock_fd (cl_session w),
      client_seal (Some (tls_key (cl_session w))) (onion_keys (cl_session w)) (cur_relays (cl_session w)) c)) cells"
proof -
  note f = input_int_frame [OF assms(1)] input_int_net [OF assms(1)] input_int_frame [OF assms(3)]
    input_int_net [OF assms(3)] read_input_frame [OF assms(5)] read_input_net [OF assms(5)]
  have "length line = length (string_bytes line)" by (simp add: string_bytes_def)
  from chunks_carry [of w3 0 "string_bytes line" "length line" stream_id, OF _ _ _ this] f assms(6,7)
  obtain cells w' where "send_chunks stream_id (string_bytes line) (length line) 0 w3 = Some (True, w')"
    "carries stream_id cells (string_bytes line)"
    "net_out (cl_net w') = net_out (cl_net w) @ map (\<lambda>c. (sock_fd (cl_session w),
      client_seal (Some (tls_key (cl_session w))) (onion_keys (cl_session w)) (cur_relays (cl_session w)) c)) cells"
    by auto
  then show ?thesis using assms(1-5) f by (auto simp: handle_input_send_def)
qed

definition send_line :: string where
  "send_line = ''5'' @ [newline] @ ''8'' @ [newline] @ ''hello'' @ [newline]"

lemma client_send_carries_data_witness:
  "\<exists>cells w'. handle_input_send sample_client_env (sample_client_run send_line) = Some (True, w') \<and>
     carries 5 cells (string_bytes ''hello'')"
proof -
  let ?w = "sample_client_run send_line"
  let ?w1 = "sample_client_run (''8'' @ [newline] @ ''hello'' @ [newline])"
  let ?w2 = "sample_client_run (''hello'' @ [newline])"
  have a: "input_int ?w = Some (5, ?w1)" "input_int ?w1 = Some (8, ?w2)"
      "read_input (unat (8 :: u32)) ?w2 = Some (''hello'', sample_client_run [])"
    by (simp_all add: number_read send_line_def sample_client_run_def)
  have "socket_hashmap_find (cl_streams ?w) (ucast (5 :: u32)) = Some 5"
    by (simp add: sample_client_run_def sample_streams)
  moreover have "ce_alloc sample_client_env (unat (8 :: u32))" "is_cell (cl_buffer ?w)" "net_ok (cl_net ?w) (sock_fd (cl_session ?w))"
    by (simp_all add: sample_client_env_def sample_client_run_def quiet_net_def)
  ultimately show ?thesis using client_send_carries_data [OF a(1) _ a(2) _ a(3)] by blast
qed

text \<open>The \<open>recv\<close> command prints the oldest bytes of its stream, at most as many as asked for, in order,
  and exactly these leave the stream, in pieces of up to 16 that print in full when the data has
  no zero bytes.\<close>

theorem client_recv_takes_in_order:
  assumes "input_int w = Some (stream_id, w1)" "socket_hashmap_find (cl_streams w) (ucast stream_id) = Some entry"
    and "input_int w1 = Some (len, w2)" "entry < length (cl_streams w)"
    and "ring_ok (he_data (cl_streams w ! entry))" "0 \<notin> set (ring_bytes (he_data (cl_streams w ! entry)))"
  shows "\<exists>w' out. handle_input_recv w = Some (True, w') \<and> cl_printed w' = cl_printed w @ out \<and>
    concat out = map Some (take (unat len) (ring_bytes (he_data (cl_streams w ! entry)))) \<and>
    ring_bytes (he_data (cl_streams w' ! entry)) = drop (unat len) (ring_bytes (he_data (cl_streams w ! entry)))"
proof -
  note f = input_int_frame [OF assms(1)] input_int_net [OF assms(1)] input_int_frame [OF assms(3)] input_int_net [OF assms(3)]
  obtain b out where "recv_chunks (unat len) (he_data (cl_streams w ! entry)) [] = Some (b, out)"
    "concat out = map Some (take (unat len) (ring_bytes (he_data (cl_streams w ! entry))))"
    "ring_bytes b = drop (unat len) (ring_bytes (he_data (cl_streams w ! entry)))"
    using chunks_taken [OF assms(5,6), of "unat len" "[]"] by auto
  then show ?thesis using assms(1-4) f by (auto simp: handle_input_recv_def)
qed

lemma client_recv_takes_in_order_witness:
  "\<exists>w' out. handle_input_recv (sample_client_run (''5'' @ [newline] @ ''1'' @ [newline])) = Some (True, w') \<and>
     cl_printed w' = out \<and> concat out = [Some 1] \<and> ring_bytes (he_data (cl_streams w' ! 5)) = [2]"
proof -
  let ?w = "sample_client_run (''5'' @ [newline] @ ''1'' @ [newline])"
  have a: "input_int ?w = Some (5, sample_client_run (''1'' @ [newline]))"
      "input_int (sample_client_run (''1'' @ [newline])) = Some (1, sample_client_run [])"
    by (simp_all add: number_read sample_client_run_def)
  have st: "cl_streams (sample_client_run x) = sample_streams" "cl_printed (sample_client_run x) = []" for x by (simp_all add: sample_client_run_def)
  have c: "ring_contents (he_data (sample_streams ! 5)) = [Some 1, Some 2]"
    by (simp add: sample_streams ring_contents_def upt_rec)
  have "\<exists>k < 31. 8 = (2 :: nat) ^ k" by (intro exI [of _ 3]) simp
  then have r: "ring_ok (he_data (sample_streams ! 5))" using c by (simp add: ring_ok_def ring_shape_def sample_streams(3))
  have b: "ring_bytes (he_data (sample_streams ! 5)) = [1, 2]" by (simp add: ring_bytes_def c)
  have "socket_hashmap_find (cl_streams ?w) (ucast (5 :: u32)) = Some 5" "5 < length (cl_streams ?w)"
    by (simp_all add: st sample_streams HASHMAP_AMOUNT_def)
  from client_recv_takes_in_order [OF a(1) this(1) a(2) this(2)] r show ?thesis by (simp add: st b)
qed

end
