(* ===== verification/Circuit.thy ===== *)
theory Circuit
  imports Client_Session Relay_Session
begin

text \<open>
  Both ends of a circuit together: what a cell built by the client's functions does in the relays'
  functions, and back. The theorems here are about whole exchanges: the key of a hop, the opening of a
  stream, data to the internet and data from it.
\<close>

section \<open>Cells that agree where the layers reach\<close>

lemma intact_nth:
  assumes "intact a = intact b" "i < 499"
  shows "a ! i = b ! i"
proof -
  have "take 499 a ! i = take 499 b ! i" using assms(1) by (simp add: intact_def)
  then show ?thesis using assms(2) by simp
qed

lemma intact_slice:
  assumes "intact a = intact b" "off + n \<le> 499"
  shows "slice off n a = slice off n b"
proof -
  have "slice off n (take 499 a) = slice off n (take 499 b)" using assms(1) by (simp add: intact_def)
  moreover have "slice off n (take 499 c) = slice off n c" for c :: bytes
    using assms(2) by (simp add: slice_def drop_take min_def)
  ultimately show ?thesis by simp
qed

lemma intact_addr:
  assumes "intact a = intact b" "off + 20 \<le> 499" "is_cell a" "is_cell b"
  shows "sock_addr_of (drop off a) = sock_addr_of (drop off b)"
proof -
  have "slice (off + 2) 16 a = slice (off + 2) 16 b" using assms by (intro intact_slice) simp_all
  then have "slice 2 16 (drop off a) = slice 2 16 (drop off b)" by (simp add: slice_def add.commute)
  moreover have "drop off a ! k = drop off b ! k" if "k < 20" for k
    using that assms intact_nth [OF assms(1), of "off + k"] by simp
  ultimately show ?thesis by (simp add: sock_addr_of_def get16_def)
qed

lemma intact_fields:
  assumes "intact a = intact b" "is_cell a" "is_cell b"
  shows "cell_cmd a = cell_cmd b" "relay_cmd a = relay_cmd b" "relay_stream_id a = relay_stream_id b"
    "relay_length a = relay_length b" "begin_addr a = begin_addr b" "extend_addr a = extend_addr b"
    "extend_public_key a = extend_public_key b" "create_public_key a = create_public_key b"
    "n \<le> 485 \<Longrightarrow> take n (relay_payload a) = take n (relay_payload b)"
proof -
  note n = intact_nth [OF assms(1)]
  show "cell_cmd a = cell_cmd b" "relay_cmd a = relay_cmd b" "relay_stream_id a = relay_stream_id b"
    "relay_length a = relay_length b"
    by (simp_all add: cell_cmd_def relay_cmd_def relay_stream_id_def relay_length_def get16_def n)
  have "sock_addr_of (drop 14 a) = sock_addr_of (drop 14 b)" by (rule intact_addr [OF assms(1) _ assms(2,3)]) simp
  then show "begin_addr a = begin_addr b" "extend_addr a = extend_addr b" unfolding begin_addr_def extend_addr_def by simp_all
  show "extend_public_key a = extend_public_key b" "create_public_key a = create_public_key b"
    unfolding extend_public_key_def create_public_key_def by (rule intact_slice [OF assms(1)], simp)+
  assume "n \<le> 485"
  then show "take n (relay_payload a) = take n (relay_payload b)"
    using intact_slice [OF assms(1), of 14 n] by (simp add: relay_payload_def slice_def min_def)
qed

lemma is_cell_relay [simp]:
  "is_cell c \<Longrightarrow> is_cell (relay_open tls key f c)" "is_cell c \<Longrightarrow> is_cell (relay_seal tls key f c)"
  by (auto simp: relay_open_def relay_seal_def Let_def split: option.splits)

lemma is_cell_deliver [simp]: "is_cell c \<Longrightarrow> is_cell (deliver hops c)"
  by (induction hops c rule: deliver.induct) simp_all

lemma is_cell_send_back [simp]: "is_cell c \<Longrightarrow> is_cell (send_back hops c)"
  by (induction hops c rule: send_back.induct) simp_all

lemma is_cell_client_open [simp]: "is_cell c \<Longrightarrow> is_cell (client_open tls keys n c)"
proof -
  assume "is_cell c"
  then have "is_cell (link_decrypt tls c)" by simp
  then have "is_cell (fold (\<lambda>i. onion_decrypt (keys ! i)) is (link_decrypt tls c))" for "is"
    by (induction "is" arbitrary: c rule: rev_induct) simp_all
  then show ?thesis by (simp add: client_open_def)
qed

text \<open>A cell of the client at the end of its circuit, with all its fields.\<close>

lemma arrives:
  assumes "shares_keys tls keys hops" "is_cell c"
  defines "got \<equiv> deliver hops (client_seal (Some tls) keys (length hops) c)"
  shows "is_cell got" "intact got = intact c"
  using circuit_forward [OF assms(1,2)] length_seal [OF assms(2)] by (simp_all add: got_def)

lemma arrives_back:
  assumes "shares_keys tls keys hops" "is_cell c"
  defines "got \<equiv> client_open (Some tls) keys (length hops) (send_back hops c)"
  shows "is_cell got" "intact got = intact c"
  using circuit_backward [OF assms(1,2)] assms(2) by (simp_all add: got_def)

section \<open>Keys\<close>

text \<open>The client derives the key of every relay when the session starts.\<close>

lemma init_session_keys:
  assumes "init_session E fd relays config keys = Some ses" "length relays \<le> length keys"
  shows "i < length relays \<Longrightarrow>
      derive_symmetric_key_from_public (ce_gmp E) (ce_globals E) (ce_junk_key E, ce_junk_hash E)
        (init_key (ce_key E)) (rd_public_key (relays ! i)) = Some (onion_keys ses ! i)"
    and "length (onion_keys ses) = length keys" "tls_key ses = init_key (ce_key E)" "sock_fd ses = fd"
    "circuit_relays ses = relays" "cur_relays ses = 0"
proof -
  define d where "d i = derive_symmetric_key_from_public (ce_gmp E) (ce_globals E) (ce_junk_key E, ce_junk_hash E)
      (init_key (ce_key E)) (rd_public_key (relays ! i))" for i
  define step where "step = (\<lambda>i r. Option.bind r (\<lambda>keys. Option.bind (d i) (\<lambda>key. Some (keys[i := key]))))"
  have each: "length ks = length keys \<and> (\<forall>i < n. d i = Some (ks ! i))"
    if "fold step [0..<n] (Some keys) = Some ks" "n \<le> length keys" for n ks
    using that
  proof (induction n arbitrary: ks)
    case (Suc n)
    define r where "r = fold step [0..<n] (Some keys)"
    have "step n r = Some ks" using Suc.prems(1) by (simp add: r_def)
    then obtain ks' key where k: "r = Some ks'" "d n = Some key" "ks = ks'[n := key]"
      unfolding step_def by (cases r; cases "d n") simp_all
    have "length ks' = length keys \<and> (\<forall>i < n. d i = Some (ks' ! i))"
      using Suc.IH [of ks'] k(1) Suc.prems(2) by (simp add: r_def)
    then show ?case using k(2,3) Suc.prems(2) by (simp add: less_Suc_eq nth_list_update)
  qed simp
  have "fold step [0..<length relays] (Some keys) = Some (onion_keys ses)" and
    ses: "tls_key ses = init_key (ce_key E)" "sock_fd ses = fd" "circuit_relays ses = relays" "cur_relays ses = 0"
    using assms(1) by (auto simp: init_session_def step_def d_def split: Option.bind_splits)
  from each [OF this(1) assms(2)] show "length (onion_keys ses) = length keys"
    "i < length relays \<Longrightarrow>
      derive_symmetric_key_from_public (ce_gmp E) (ce_globals E) (ce_junk_key E, ce_junk_hash E)
        (init_key (ce_key E)) (rd_public_key (relays ! i)) = Some (onion_keys ses ! i)"
    by (simp_all add: d_def)
  show "tls_key ses = init_key (ce_key E)" "sock_fd ses = fd" "circuit_relays ses = relays" "cur_relays ses = 0"
    by (fact ses)+
qed

lemma export_public:
  assumes "gmp_documented G" "dh_usable g" "key_pair g a" "length out = 256"
  obtains pub where "get_public_identity_key G a out = Some pub" "length pub = 256"
proof -
  have "this_public a < 256 ^ 256" using public_less [OF assms(2,3)] by (simp add: DH_KEY_BYTES_def)
  then show ?thesis
    using export_fixed [OF assms(1) _ assms(4), of "this_public a"] that
    unfolding get_public_identity_key_def get_dh_public_identity_key_def DH_KEY_BYTES_def by blast
qed

text \<open>
  What client and relays share: the library as documented, usable parameters, key pairs, and local
  arrays of the declared sizes.
\<close>

definition client_env_ok :: "client_env \<Rightarrow> bool" where
  "client_env_ok E \<longleftrightarrow> gmp_documented (ce_gmp E) \<and> dh_usable (ce_globals E) \<and> key_pair (ce_globals E) (ce_key E) \<and>
     length (ce_junk_key E) = 256 \<and> length (ce_junk_hash E) = 64"

definition relay_env_ok :: "relay_env \<Rightarrow> bool" where
  "relay_env_ok E \<longleftrightarrow> key_pair (re_globals E) (re_key E) \<and> length (re_junk_key E) = 256 \<and>
     length (re_junk_key' E) = 256 \<and> length (re_junk_hash E) = 64 \<and> is_cell (re_junk_cell E)"

definition same_group :: "client_env \<Rightarrow> relay_env \<Rightarrow> bool" where
  "same_group C R \<longleftrightarrow> re_gmp R = ce_gmp C \<and> re_globals R = ce_globals C"

text \<open>A \<open>create\<close> cell with the client's public key, over any link whose key the relay shares.\<close>

lemma create_received:
  assumes env: "client_env_ok C" "relay_env_ok R" "same_group C R"
    and pa: "get_public_identity_key (ce_gmp C) (ce_key C) out_a = Some pub_a" "length out_a = 256"
    and pb: "get_public_identity_key (ce_gmp C) (re_key R) out_b = Some pub_b" "length out_b = 256"
    and kc: "derive_symmetric_key_from_public (ce_gmp C) (ce_globals C) (ce_junk_key C, ce_junk_hash C)
        (init_key (ce_key C)) pub_b = Some kc"
    and t: "symmetric_key t = symmetric_key (tls_last_key (rr_session r))"
    and o: "onion_key (rr_session r) = init_key (re_key R)"
    and c: "is_cell c" "cell_cmd c = TOR_CREATE" "create_public_key c = pub_a"
    and net: "net_in (rr_net r) (last_fd (rr_session r)) = link_encrypt (Some t) c # rest"
      "net_ok (rr_net r) (last_fd (rr_session r))" and b: "is_cell (rr_buffer r)"
  shows "\<exists>r' key reply. handle_create_message R r = Some (relay_success, r') \<and>
    rr_session r' = (rr_session r)\<lparr>onion_key := key\<rparr> \<and> symmetric_key key = symmetric_key kc \<and>
    net_out (rr_net r') = net_out (rr_net r) @
      [(last_fd (rr_session r), link_encrypt (Some (tls_last_key (rr_session r))) reply)] \<and>
    is_cell reply \<and> cell_cmd reply = TOR_CREATED \<and> is_cell (rr_buffer r')"
proof -
  note e = env [unfolded client_env_ok_def relay_env_ok_def same_group_def]
  obtain ka kb where k: "derive_symmetric_key_from_public (ce_gmp C) (ce_globals C) (ce_junk_key C, ce_junk_hash C)
        (init_key (ce_key C)) pub_b = Some ka"
      "derive_symmetric_key_from_public (ce_gmp C) (ce_globals C) (re_junk_key' R, re_junk_hash R)
        (init_key (re_key R)) pub_a = Some kb" "symmetric_key ka = symmetric_key kb"
    using session_key_agreement [of "ce_gmp C" "ce_globals C" "ce_key C" "re_key R" out_a out_b pub_a pub_b
        "(ce_junk_key C, ce_junk_hash C)" "(re_junk_key' R, re_junk_hash R)"] e pa pb
    by (auto simp: ASYMMETRIC_KEY_BYTES_def SHA_PADDING_def)
  obtain pub where pub: "get_public_identity_key (ce_gmp C) (re_key R) (re_junk_key R) = Some pub"
    using export_public [of "ce_gmp C" "ce_globals C" "re_key R" "re_junk_key R"] e by metis
  have open_c: "relay_open (Some (tls_last_key (rr_session r))) None True (link_encrypt (Some t) c) = c"
    using link_inverse [OF c(1), of "Some (tls_last_key (rr_session r))" "Some t"] t by (simp add: relay_open_def)
  let ?w = "link_encrypt (Some t) c"
  have w: "is_cell ?w" "?w \<noteq> []" using length_link(1) [OF c(1), of "Some t"] by auto
  define reply where "reply = splice 3 (replicate ASYMMETRIC_KEY_BYTES 0) (set_cell_cmd TOR_CREATED c)"
  have reply: "is_cell reply" "cell_cmd reply = TOR_CREATED"
    using c(1) by (simp_all add: reply_def cell_cmd_def cell_writers nth_splice ASYMMETRIC_KEY_BYTES_def)
  have seal: "relay_seal (Some (tls_last_key (rr_session r))) None True reply =
      link_encrypt (Some (tls_last_key (rr_session r))) reply" by (simp add: relay_seal_def)
  have id: "kd_identity (onion_key (rr_session r)) = re_key R" using o by (simp add: init_key_def)
  have "handle_create_message R r = Some (relay_success, r
      \<lparr>rr_session := (rr_session r)\<lparr>onion_key := kb\<rparr>, rr_buffer := link_encrypt (Some (tls_last_key (rr_session r))) reply,
       rr_net := (rr_net r)\<lparr>net_in := (net_in (rr_net r))(last_fd (rr_session r) := rest),
         net_out := net_out (rr_net r) @
           [(last_fd (rr_session r), link_encrypt (Some (tls_last_key (rr_session r))) reply)]\<rparr>\<rparr>)"
    using relay_recv_whole [OF net(1), of "rr_buffer r" "Some (tls_last_key (rr_session r))" None True] w b net(2) c e pub k(2)
      id o
    by (simp add: handle_create_message_def open_c relay_send_out seal reply_def [symmetric] Let_def)
  then show ?thesis using reply k kc length_link(1) [OF reply(1)] by auto
qed

text \<open>What the client's session knows of its relays.\<close>

definition session_keys_ok :: "client_env \<Rightarrow> client_session \<Rightarrow> bool" where
  "session_keys_ok E ses \<longleftrightarrow> length (circuit_relays ses) \<le> length (onion_keys ses) \<and>
     (\<forall>i < length (circuit_relays ses).
        derive_symmetric_key_from_public (ce_gmp E) (ce_globals E) (ce_junk_key E, ce_junk_hash E)
          (init_key (ce_key E)) (rd_public_key (circuit_relays ses ! i)) = Some (onion_keys ses ! i))"

lemma init_session_keys_ok:
  "init_session E fd relays config keys = Some ses \<Longrightarrow> length relays \<le> length keys \<Longrightarrow> session_keys_ok E ses"
  using init_session_keys [of E fd relays config keys ses] by (simp add: session_keys_ok_def)

lemma session_keys_ok_frame [simp]: "session_keys_ok E (ses\<lparr>tls_key := t\<rparr>) = session_keys_ok E ses"
  "session_keys_ok E (ses\<lparr>cur_relays := n\<rparr>) = session_keys_ok E ses"
  by (simp_all add: session_keys_ok_def)

lemma length_create_public_key [simp]: "is_cell b \<Longrightarrow> length (create_public_key b) = 256"
  by (simp add: create_public_key_def)

lemma client_seal_0 [simp]: "client_seal tls keys 0 b = link_encrypt tls b"
  by (simp add: client_seal_def)

lemma client_open_0 [simp]: "client_open tls keys 0 b = link_decrypt tls b"
  by (simp add: client_open_def)

lemma create_sent:
  assumes "client_env_ok C" "is_cell (cl_buffer w)" "net_ok (cl_net w) (sock_fd (cl_session w))"
  obtains c out pub w1 where "tor_send_create_msg C w = Some (True, w1)" "is_cell c" "cell_cmd c = TOR_CREATE"
    "create_public_key c = pub" "get_public_identity_key (ce_gmp C) (ce_key C) out = Some pub" "length out = 256"
    "cl_session w1 = cl_session w" "is_cell (cl_buffer w1)" "cl_streams w1 = cl_streams w"
    "cl_net w1 = (cl_net w)\<lparr>net_out := net_out (cl_net w) @
       [(sock_fd (cl_session w), link_encrypt (Some (tls_key (cl_session w))) c)]\<rparr>"
proof -
  define b where "b = set_cell_cmd TOR_CREATE (cl_buffer w)"
  have b: "is_cell b" using assms(2) by (simp add: b_def)
  have e: "gmp_documented (ce_gmp C)" "dh_usable (ce_globals C)" "key_pair (ce_globals C) (ce_key C)"
    using assms(1) by (simp_all add: client_env_ok_def)
  obtain pub where pub: "get_public_identity_key (ce_gmp C) (ce_key C) (create_public_key b) = Some pub" "length pub = 256"
    by (rule export_public [OF e length_create_public_key [OF b]])
  define c where "c = set_create_public_key pub b"
  have c: "is_cell c" using b pub(2) by (simp add: c_def)
  have "cell_cmd c = TOR_CREATE"
    using b pub(2) assms(2) by (simp add: c_def b_def cell_cmd_def cell_writers nth_splice)
  moreover have "create_public_key c = pub"
    using slice_splice_same [of 3 pub b] b pub(2) by (simp add: c_def create_public_key_def set_create_public_key_def)
  moreover have "tor_send_create_msg C w = Some (True,
      w\<lparr>cl_net := (cl_net w)\<lparr>net_out := net_out (cl_net w) @
         [(sock_fd (cl_session w), link_encrypt (Some (tls_key (cl_session w))) c)]\<rparr>,
        cl_buffer := link_encrypt (Some (tls_key (cl_session w))) c\<rparr>)"
    using pub(1) assms(3) by (simp add: tor_send_create_msg_def b_def [symmetric] c_def [symmetric] send_cell_out Let_def)
  ultimately show ?thesis using that c pub(1) b length_link(1) [OF c] by simp
qed

lemma client_recv_whole:
  assumes "net_in (cl_net w) (sock_fd (cl_session w)) = cell # rest" "is_cell cell" "is_cell (cl_buffer w)"
  shows "recv_cell n w = (True, w
    \<lparr>cl_buffer := client_open (Some (tls_key (cl_session w))) (onion_keys (cl_session w)) n cell,
     cl_net := (cl_net w)\<lparr>net_in := (net_in (cl_net w))(sock_fd (cl_session w) := rest)\<rparr>\<rparr>)"
proof -
  have "cell \<noteq> []" using assms(2) by auto
  then show ?thesis
    using read_buffer_whole [OF assms(1), of "cl_buffer w"] assms(2,3)
    by (simp add: recv_cell_def client_recv_tor_buffer_def Let_def)
qed

text \<open>The first hop.\<close>

lemma create_exchange:
  assumes env: "client_env_ok C" "relay_env_ok R" "same_group C R"
    and k: "session_keys_ok C (cl_session w)" "circuit_relays (cl_session w) \<noteq> []"
    and d: "get_public_identity_key (ce_gmp C) (re_key R) out = Some (rd_public_key (circuit_relays (cl_session w) ! 0))"
      "length out = 256"
    and cl: "is_cell (cl_buffer w)" "net_ok (cl_net w) (sock_fd (cl_session w))"
    and t: "symmetric_key (tls_key (cl_session w)) = symmetric_key (tls_last_key (rr_session r))"
    and re: "onion_key (rr_session r) = init_key (re_key R)" "is_cell (rr_buffer r)"
      "net_ok (rr_net r) (last_fd (rr_session r))"
    and sent: "tor_send_create_msg C w = Some (True, w0)"
      "net_out (cl_net w0) = net_out (cl_net w) @ [(sock_fd (cl_session w), cell)]"
      "net_in (rr_net r) (last_fd (rr_session r)) = cell # rest"
  shows "\<exists>r' reply. handle_create_message R r = Some (relay_success, r') \<and>
       shares_keys (tls_key (cl_session w)) (onion_keys (cl_session w))
         [(tls_last_key (rr_session r'), onion_key (rr_session r'))] \<and>
       net_out (rr_net r') = net_out (rr_net r) @ [(last_fd (rr_session r), reply)] \<and>
       (net_in (cl_net w) (sock_fd (cl_session w)) = reply # others \<longrightarrow>
          (\<exists>w'. client_create_message C w = Some (client_success, w') \<and>
             net_out (cl_net w') = net_out (cl_net w) @ [(sock_fd (cl_session w), cell)]))"
proof -
  let ?ses = "cl_session w" and ?t = "tls_key (cl_session w)"
  have kc: "derive_symmetric_key_from_public (ce_gmp C) (ce_globals C) (ce_junk_key C, ce_junk_hash C)
      (init_key (ce_key C)) (rd_public_key (circuit_relays ?ses ! 0)) = Some (onion_keys ?ses ! 0)"
    using k by (simp add: session_keys_ok_def)
  obtain c out' pub w1 where c: "tor_send_create_msg C w = Some (True, w1)" "is_cell c" "cell_cmd c = TOR_CREATE"
    "create_public_key c = pub" "get_public_identity_key (ce_gmp C) (ce_key C) out' = Some pub" "length out' = 256"
    "cl_session w1 = ?ses" "is_cell (cl_buffer w1)"
    "cl_net w1 = (cl_net w)\<lparr>net_out := net_out (cl_net w) @ [(sock_fd ?ses, link_encrypt (Some ?t) c)]\<rparr>"
    by (rule create_sent [OF env(1) cl])
  have cell: "cell = link_encrypt (Some ?t) c" using sent(1,2) c(1,9) by simp
  from create_received [OF env c(5,6) d kc t re(1) c(2-4) sent(3) [unfolded cell] re(3,2)]
  obtain r' key reply where r: "handle_create_message R r = Some (relay_success, r')"
    "rr_session r' = (rr_session r)\<lparr>onion_key := key\<rparr>" "symmetric_key key = symmetric_key (onion_keys ?ses ! 0)"
    "net_out (rr_net r') = net_out (rr_net r) @
      [(last_fd (rr_session r), link_encrypt (Some (tls_last_key (rr_session r))) reply)]"
    "is_cell reply" "cell_cmd reply = TOR_CREATED" by blast
  let ?reply = "link_encrypt (Some (tls_last_key (rr_session r))) reply"
  have o: "link_decrypt (Some ?t) ?reply = reply" using t by (intro link_inverse [OF r(5)]) simp
  have "\<exists>w'. client_create_message C w = Some (client_success, w') \<and>
      net_out (cl_net w') = net_out (cl_net w) @ [(sock_fd ?ses, cell)]"
    if n: "net_in (cl_net w) (sock_fd ?ses) = ?reply # others"
    using c n client_recv_whole [of w1 ?reply others 0] length_link(1) [OF r(5), of "Some (tls_last_key (rr_session r))"] r(6) o
    by (simp add: client_create_message_def cell)
  moreover have "shares_keys ?t (onion_keys ?ses) [(tls_last_key (rr_session r'), onion_key (rr_session r'))]"
    using t r(2,3) k by (cases "onion_keys ?ses") (auto simp: shares_keys_def session_keys_ok_def)
  ultimately show ?thesis using r(1,4) by (intro exI [of _ r'] exI [of _ ?reply]) simp
qed

text \<open>Extending: the client's cell, and what the last relay makes of it.\<close>

lemma extend_sent:
  assumes "client_env_ok C" "is_cell (cl_buffer w)" "descriptor_ok d"
    and "tor_send_extend_msg C d w = Some (ok, w1)" "net_out (cl_net w1) = net_out (cl_net w) @ [(fd, cell)]"
  obtains c out pub where "cell = client_seal (Some (tls_key (cl_session w))) (onion_keys (cl_session w)) (cur_relays (cl_session w)) c"
    "is_cell c" "cell_cmd c = TOR_RELAY" "relay_cmd c = RELAY_EXTEND" "extend_addr c = rd_sock_addr d"
    "extend_public_key c = pub" "get_public_identity_key (ce_gmp C) (ce_key C) out = Some pub" "length out = 256"
proof -
  define b where "b = set_relay_cmd RELAY_EXTEND (set_cell_cmd TOR_RELAY (cl_buffer w))"
  have b: "is_cell b" "b ! 2 = TOR_RELAY" "b ! 13 = RELAY_EXTEND"
    using assms(2) by (simp_all add: b_def cell_writers nth_splice)
  have e: "gmp_documented (ce_gmp C)" "dh_usable (ce_globals C)" "key_pair (ce_globals C) (ce_key C)"
    using assms(1) by (simp_all add: client_env_ok_def)
  have l: "length (extend_public_key b) = 256" using b by (simp add: extend_public_key_def)
  obtain pub where pub: "get_public_identity_key (ce_gmp C) (ce_key C) (extend_public_key b) = Some pub" "length pub = 256"
    using export_public [OF e l] by blast
  have a: "sock_addr_ok (rd_sock_addr d)" using assms(3) by (simp add: descriptor_ok_def)
  define c where "c = set_relay_addr (rd_sock_addr d) (set_extend_public_key pub b)"
  have c: "is_cell c" "c ! 2 = TOR_RELAY" "c ! 13 = RELAY_EXTEND"
    using b pub(2) a by (simp_all add: c_def cell_writers nth_splice)
  have "extend_addr c = rd_sock_addr d"
    using sock_addr_of_splice [OF a, of 14 "splice 34 pub b"] b pub(2)
    by (simp add: c_def extend_addr_def set_relay_addr_def set_extend_public_key_def)
  moreover have "extend_public_key c = pub"
    using slice_splice_disjoint [of 14 "sock_addr_bytes (rd_sock_addr d)" "splice 34 pub b" 34 256]
      slice_splice_same [of 34 pub b] b pub(2) a
    by (simp add: c_def extend_public_key_def set_relay_addr_def set_extend_public_key_def)
  moreover have "net_ok (cl_net w) (sock_fd (cl_session w))"
    using assms(4,5) pub(1) b_def
    by (auto simp: tor_send_extend_msg_def send_cell_def client_send_tor_buffer_def send_fd_def Let_def split: if_splits)
  then have "cell = client_seal (Some (tls_key (cl_session w))) (onion_keys (cl_session w)) (cur_relays (cl_session w)) c"
    using assms(4,5) pub(1) by (auto simp: tor_send_extend_msg_def b_def [symmetric] c_def [symmetric] send_cell_out Let_def)
  ultimately show ?thesis using that c pub(1) l by (simp add: cell_cmd_def relay_cmd_def)
qed

lemma relay_seal_link [simp]: "relay_seal tls None to_client b = link_encrypt tls b"
  by (simp add: relay_seal_def)

lemma relay_open_none [simp]: "relay_open tls None from_client b = link_decrypt tls b"
  by (simp add: relay_open_def)

lemma extend_runs:
  assumes c: "net_connects (rr_net m) = (fd, True) # dials" "fd \<noteq> -1"
    and tls: "handle_tls_sender (re_gmp R) (re_globals R) (re_junk_key R) (re_junk_key' R) (re_junk_key R, re_junk_hash R) fd
        (tls_next_key (rr_session m))
        ((rr_net m)\<lparr>net_connects := dials, net_dialed := net_dialed (rr_net m) @ [sockaddr_to_unix (extend_addr (rr_buffer m))]\<rparr>)
      = Some (True, link, s)"
    and s: "net_ok s fd" "net_ok s (last_fd (rr_session m))" "net_in s fd = reply # others"
    and b: "is_cell (rr_buffer m)" "is_cell reply" "cell_cmd (link_decrypt (Some link) reply) = TOR_CREATED"
  defines "create \<equiv> set_create_public_key (extend_public_key (rr_buffer m)) (set_cell_cmd TOR_CREATE (rr_buffer m))"
  shows "\<exists>m' c. extend_relay R m = Some (relay_success, m') \<and>
    net_out (rr_net m') = net_out s @ [(fd, link_encrypt (Some link) create), (last_fd (rr_session m), client_wire (rr_session m) c)] \<and>
    is_cell c \<and> relay_cmd c = RELAY_EXTENDED \<and>
    rr_session m' = (rr_session m)\<lparr>next_fd := fd, tls_next_key := link\<rparr>"
proof -
  let ?b = "rr_buffer m"
  obtain a l where a: "sockaddr_to_unix (extend_addr ?b) = (a, l)" by fastforce
  have cr: "is_cell create" using b(1) by (simp add: create_def extend_public_key_def)
  have ne: "reply \<noteq> []" using b(2) by auto
  define x where "x = set_relay_cmd RELAY_EXTENDED (set_cell_cmd TOR_RELAY (link_decrypt (Some link) reply))"
  have x: "is_cell x" "relay_cmd x = RELAY_EXTENDED"
    using b(2) by (simp_all add: x_def relay_cmd_def cell_writers nth_splice)
  note con = connect_success [OF c, of a l]
  note rcv = relay_recv_whole [where cell = reply and rest = others and fd = fd]
  show ?thesis
    using tls s b x cr ne
    by (intro exI [of _ "m\<lparr>rr_session := (rr_session m)\<lparr>next_fd := fd, tls_next_key := link\<rparr>,
          rr_net := s\<lparr>net_in := (net_in s)(fd := others), net_out := net_out s @
            [(fd, link_encrypt (Some link) create), (last_fd (rr_session m), client_wire (rr_session m) x)]\<rparr>,
          rr_buffer := client_wire (rr_session m) x\<rparr>"] exI [of _ x])
       (simp add: extend_relay_def a con tor_send_middle_relay_create_def relay_send_out rcv create_def [symmetric]
          tor_send_middle_relay_extended_def send_to_client_out x_def [symmetric] client_wire_def Let_def)
qed

lemma extend_exchange:
  assumes env: "client_env_ok C" "relay_env_ok N" "same_group C N"
    and k: "session_keys_ok C ses" "ses = cl_session w" "cur_relays ses = length hops"
      "length hops < length (circuit_relays ses)"
    and d: "d = circuit_relays ses ! length hops" "descriptor_ok d"
      "get_public_identity_key (ce_gmp C) (re_key N) out = Some (rd_public_key d)" "length out = 256"
    and circ: "shares_keys (tls_key ses) (onion_keys ses) hops"
    and sent: "is_cell (cl_buffer w)" "tor_send_extend_msg C d w = Some (True, w1)"
      "net_out (cl_net w1) = net_out (cl_net w) @ [(sock_fd ses, cell)]" "rr_buffer m = deliver hops cell"
    and con: "net_connects (rr_net m) = (fd, True) # dials" "fd \<noteq> -1"
    and tls: "handle_tls_sender (re_gmp R) (re_globals R) (re_junk_key R) (re_junk_key' R) (re_junk_key R, re_junk_hash R) fd
        (tls_next_key (rr_session m))
        ((rr_net m)\<lparr>net_connects := dials, net_dialed := net_dialed (rr_net m) @ [sockaddr_to_unix (rd_sock_addr d)]\<rparr>)
      = Some (True, link, s)"
    and s: "net_ok s fd" "net_ok s (last_fd (rr_session m))"
    and re: "symmetric_key link = symmetric_key (tls_last_key (rr_session r))" "onion_key (rr_session r) = init_key (re_key N)"
      "is_cell (rr_buffer r)" "net_ok (rr_net r) (last_fd (rr_session r))"
    and on: "tor_send_middle_relay_create (extend_public_key (rr_buffer m))
        (m\<lparr>rr_session := (rr_session m)\<lparr>next_fd := fd, tls_next_key := link\<rparr>, rr_net := s\<rparr>) = (True, m0)"
      "net_out (rr_net m0) = net_out s @ [(fd, create)]" "net_in (rr_net r) (last_fd (rr_session r)) = create # rest"
  shows "\<exists>r' reply. handle_create_message N r = Some (relay_success, r') \<and>
       shares_keys (tls_key ses) (onion_keys ses)
         (hops @ [(tls_last_key (rr_session r'), onion_key (rr_session r'))]) \<and>
       net_out (rr_net r') = net_out (rr_net r) @ [(last_fd (rr_session r), reply)] \<and>
       (net_in s fd = reply # others \<longrightarrow>
          (\<exists>m' c. extend_relay R m = Some (relay_success, m') \<and>
             net_out (rr_net m') = net_out s @ [(fd, create), (last_fd (rr_session m), client_wire (rr_session m) c)] \<and>
             is_cell c \<and> relay_cmd c = RELAY_EXTENDED \<and>
             rr_session m' = (rr_session m)\<lparr>next_fd := fd, tls_next_key := link\<rparr>))"
proof -
  obtain c out' pub where c: "cell = client_seal (Some (tls_key ses)) (onion_keys ses) (length hops) c"
    "is_cell c" "cell_cmd c = TOR_RELAY" "relay_cmd c = RELAY_EXTEND" "extend_addr c = rd_sock_addr d"
    "extend_public_key c = pub" "get_public_identity_key (ce_gmp C) (ce_key C) out' = Some pub" "length out' = 256"
    using extend_sent [OF env(1) sent(1) d(2) sent(2,3)] k(2,3) by metis
  have got: "is_cell (rr_buffer m)" "extend_addr (rr_buffer m) = rd_sock_addr d" "extend_public_key (rr_buffer m) = pub"
    using arrives [OF circ c(2)] intact_fields [OF arrives(2) [OF circ c(2)] arrives(1) [OF circ c(2)] c(2)] c sent(4)
    by simp_all
  define cr where "cr = set_create_public_key pub (set_cell_cmd TOR_CREATE (rr_buffer m))"
  have lp: "length pub = 256" using got(1,3) by (auto simp: extend_public_key_def)
  have cr: "is_cell cr" "cell_cmd cr = TOR_CREATE" "create_public_key cr = pub"
    using got(1) lp slice_splice_same [of 3 pub "set_cell_cmd TOR_CREATE (rr_buffer m)"]
    by (simp_all add: cr_def cell_cmd_def create_public_key_def cell_writers nth_splice)
  have kc: "derive_symmetric_key_from_public (ce_gmp C) (ce_globals C) (ce_junk_key C, ce_junk_hash C)
      (init_key (ce_key C)) (rd_public_key d) = Some (onion_keys ses ! length hops)"
    using k d(1) by (simp add: session_keys_ok_def)
  have create: "create = link_encrypt (Some link) cr"
    using on(1,2) s(1) got(3) by (auto simp: tor_send_middle_relay_create_def relay_send_out cr_def Let_def)
  from create_received [OF env c(7,8) d(3,4) kc re(1,2) cr on(3) [unfolded create] re(4,3)]
  obtain r' key reply where r: "handle_create_message N r = Some (relay_success, r')"
    "rr_session r' = (rr_session r)\<lparr>onion_key := key\<rparr>" "symmetric_key key = symmetric_key (onion_keys ses ! length hops)"
    "net_out (rr_net r') = net_out (rr_net r) @
      [(last_fd (rr_session r), link_encrypt (Some (tls_last_key (rr_session r))) reply)]"
    "is_cell reply" "cell_cmd reply = TOR_CREATED" by blast
  let ?reply = "link_encrypt (Some (tls_last_key (rr_session r))) reply"
  have o: "link_decrypt (Some link) ?reply = reply" using re(1) by (intro link_inverse [OF r(5)]) simp
  have "\<exists>m' c. extend_relay R m = Some (relay_success, m') \<and>
      net_out (rr_net m') = net_out s @ [(fd, create), (last_fd (rr_session m), client_wire (rr_session m) c)] \<and>
      is_cell c \<and> relay_cmd c = RELAY_EXTENDED \<and>
      rr_session m' = (rr_session m)\<lparr>next_fd := fd, tls_next_key := link\<rparr>" if "net_in s fd = ?reply # others"
    using extend_runs [OF con tls [folded got(2)] s that got(1) length_link(1) [OF r(5)], unfolded o] r(6) got(3)
    by (simp add: create cr_def)
  moreover have "shares_keys (tls_key ses) (onion_keys ses) (hops @ [(tls_last_key (rr_session r'), onion_key (rr_session r'))])"
    using circ r(2,3) k by (auto simp: shares_keys_def session_keys_ok_def take_Suc_conv_app_nth)
  ultimately show ?thesis using r(1,4) by (intro exI [of _ r'] exI [of _ ?reply]) simp
qed

section \<open>Streams over a circuit\<close>

lemma begin_cell_fields:
  assumes "is_cell b" "sock_addr_ok addr"
  shows "is_cell (begin_cell i addr b)" "cell_cmd (begin_cell i addr b) = TOR_RELAY"
    "relay_cmd (begin_cell i addr b) = RELAY_BEGIN" "relay_stream_id (begin_cell i addr b) = ucast i"
    "begin_addr (begin_cell i addr b) = addr"
proof -
  define h where "h = set_relay_stream_id (ucast i) (set_relay_cmd RELAY_BEGIN (set_cell_cmd TOR_RELAY b))"
  have h: "is_cell h" "h ! 2 = TOR_RELAY" "h ! 13 = RELAY_BEGIN" "get16 3 h = ucast i"
    using assms(1) by (simp_all add: h_def cell_writers nth_splice get16_splice_same)
  have c: "begin_cell i addr b = splice 14 (sock_addr_bytes addr) h"
    by (simp add: begin_cell_def h_def set_relay_addr_def)
  show "is_cell (begin_cell i addr b)" "cell_cmd (begin_cell i addr b) = TOR_RELAY"
    "relay_cmd (begin_cell i addr b) = RELAY_BEGIN" "relay_stream_id (begin_cell i addr b) = ucast i"
    using h assms(2) by (simp_all add: c cell_cmd_def relay_cmd_def relay_stream_id_def nth_splice get16_splice_other)
  show "begin_addr (begin_cell i addr b) = addr"
    using sock_addr_of_splice [OF assms(2), of 14 h] h(1) by (simp add: c begin_addr_def)
qed

lemma client_msg_kinds:
  assumes "cell_cmd (rr_buffer w) = TOR_RELAY"
  shows "relay_cmd (rr_buffer w) = RELAY_BEGIN \<Longrightarrow> handle_client_msg w = Some (handle_relay_begin w)"
    "relay_cmd (rr_buffer w) = RELAY_END \<Longrightarrow> handle_client_msg w = Some (handle_relay_end w)"
    "relay_cmd (rr_buffer w) = RELAY_DATA \<Longrightarrow> handle_client_msg w = handle_relay_data w"
  using assms
  by (simp_all add: handle_client_msg_def TOR_RELAY_def TOR_DESTROY_def TOR_PADDING_def RELAY_END_def RELAY_BEGIN_def
      RELAY_DATA_def)

text \<open>A line of at most 498 bytes is one cell.\<close>

lemma chunk_once:
  assumes "is_cell (cl_buffer w)" "net_ok (cl_net w) (sock_fd (cl_session w))" "0 < length data" "length data \<le> 498"
  obtains c w' where "send_chunks i data (length data) 0 w = Some (True, w')" "is_cell c" "cell_cmd c = TOR_RELAY"
    "relay_cmd c = RELAY_DATA" "relay_stream_id c = ucast i" "unat (relay_length c) = length data"
    "take (length data) (relay_payload c) = data"
    "net_out (cl_net w') = net_out (cl_net w) @ [(sock_fd (cl_session w),
      client_seal (Some (tls_key (cl_session w))) (onion_keys (cl_session w)) (cur_relays (cl_session w)) c)]"
proof -
  obtain c where c: "client_data_cell i data (word_of_nat (length data)) (cl_buffer w) = Some c" "is_cell c"
    "cell_cmd c = TOR_RELAY" "relay_cmd c = RELAY_DATA" "relay_stream_id c = ucast i"
    "relay_length c = word_of_nat (length data)" "take (length data) (relay_payload c) = take (length data) data"
    by (rule client_data_cell_ok [OF assms(1,4) order_refl])
  have t: "tor_send_data_msg i data (word_of_nat (length data)) w = Some (send_cell (cur_relays (cl_session w)) c w)"
    using c(1) by (simp add: tor_send_data_msg_def)
  have stop: "send_chunks i data n n w' = Some (True, w')" for n w' by (subst send_chunks.simps) simp
  have "send_chunks i data (length data) 0 w = Some (True, snd (send_cell (cur_relays (cl_session w)) c w))"
    using t assms stop by (subst send_chunks.simps) (simp add: send_cell_out Let_def min_def)
  then show ?thesis
    using that [of "snd (send_cell (cur_relays (cl_session w)) c w)" c] c assms
    by (simp add: send_cell_out unat_length_498)
qed

section \<open>Properties\<close>

text \<open>C3. The first hop: the relay that receives the client's \<open>create\<close> cell over their link derives the very key
  the client holds for it, so the two share the keys of a circuit of one relay; and when the
  relay's answer reaches the client, its side succeeds as well.\<close>

theorem create_cell_agreement:
  assumes "client_env_ok C" "relay_env_ok R" "same_group C R"
    and "session_keys_ok C (cl_session w)" "circuit_relays (cl_session w) \<noteq> []"
    and "get_public_identity_key (ce_gmp C) (re_key R) out = Some (rd_public_key (circuit_relays (cl_session w) ! 0))"
      "length out = 256"
    and "is_cell (cl_buffer w)" "net_ok (cl_net w) (sock_fd (cl_session w))"
    and "symmetric_key (tls_key (cl_session w)) = symmetric_key (tls_last_key (rr_session r))"
    and "onion_key (rr_session r) = init_key (re_key R)" "is_cell (rr_buffer r)" "net_ok (rr_net r) (last_fd (rr_session r))"
    and "tor_send_create_msg C w = Some (True, w0)"
      "net_out (cl_net w0) = net_out (cl_net w) @ [(sock_fd (cl_session w), cell)]"
      "net_in (rr_net r) (last_fd (rr_session r)) = cell # rest"
  shows "\<exists>r' reply. handle_create_message R r = Some (relay_success, r') \<and>
     shares_keys (tls_key (cl_session w)) (onion_keys (cl_session w)) [(tls_last_key (rr_session r'), onion_key (rr_session r'))] \<and>
     net_out (rr_net r') = net_out (rr_net r) @ [(last_fd (rr_session r), reply)] \<and>
     (net_in (cl_net w) (sock_fd (cl_session w)) = reply # others \<longrightarrow>
        (\<exists>w'. client_create_message C w = Some (client_success, w') \<and>
           net_out (cl_net w') = net_out (cl_net w) @ [(sock_fd (cl_session w), cell)]))"
  using assms by (rule create_exchange)

text \<open>A client and two relays with the same small parameters.\<close>

definition sample_descriptor :: relay_descriptor where
  "sample_descriptor = zero_descriptor\<lparr>rd_public_key := 8 # replicate 255 0\<rparr>"

definition sample_session :: "key_data \<Rightarrow> nat \<Rightarrow> client_session" where
  "sample_session k n = \<lparr>onion_keys = [k, k], tls_key = key_of 1, sock_fd = 4,
     circuit_relays = [sample_descriptor, sample_descriptor], cur_relays = n, config_relays = 2\<rparr>"

lemma sample_envs: "client_env_ok sample_client_env" "relay_env_ok sample_relay_env"
  "same_group sample_client_env sample_relay_env"
  by (simp_all add: client_env_ok_def relay_env_ok_def same_group_def sample_client_env_def sample_relay_env_def
      reference_gmp_documented dh_usable_def key_pair_def DH_KEY_BYTES_def)

lemma sample_public: "get_public_identity_key (ce_gmp sample_client_env) (re_key sample_relay_env) (replicate 256 0) =
    Some (8 # replicate 255 0)"
  using reference_public_key(1) [of 6] by (simp add: sample_client_env_def sample_relay_env_def)

lemma sample_keys: obtains k where "session_keys_ok sample_client_env (sample_session k n)"
proof -
  have e: "client_env_ok sample_client_env" by (rule sample_envs)
  obtain ka kb where "derive_symmetric_key_from_public (ce_gmp sample_client_env) (ce_globals sample_client_env)
      (ce_junk_key sample_client_env, ce_junk_hash sample_client_env) (init_key (ce_key sample_client_env))
      (8 # replicate 255 0) = Some ka"
    using session_key_agreement [of "ce_gmp sample_client_env" "ce_globals sample_client_env" "ce_key sample_client_env"
        "re_key sample_relay_env" "replicate 256 0" "replicate 256 0" "8 # replicate 255 0" "8 # replicate 255 0"
        "(ce_junk_key sample_client_env, ce_junk_hash sample_client_env)" "(replicate 256 0, replicate 64 0)"]
      e sample_public sample_envs
    by (auto simp: client_env_ok_def relay_env_ok_def same_group_def ASYMMETRIC_KEY_BYTES_def SHA_PADDING_def
        sample_client_env_def sample_relay_env_def)
  then have "session_keys_ok sample_client_env (sample_session ka n)"
    by (auto simp: session_keys_ok_def sample_session_def sample_descriptor_def less_Suc_eq nth_Cons')
  then show ?thesis by (rule that)
qed

lemma create_cell_agreement_witness:
  "\<exists>(w :: client_run) (r :: relay_run) r'. handle_create_message sample_relay_env r = Some (relay_success, r') \<and>
     shares_keys (tls_key (cl_session w)) (onion_keys (cl_session w)) [(tls_last_key (rr_session r'), onion_key (rr_session r'))]"
proof -
  obtain k where k: "session_keys_ok sample_client_env (sample_session k 0)" by (rule sample_keys)
  define w where "w = (sample_client_run [])\<lparr>cl_session := sample_session k 0\<rparr>"
  have w: "cl_session w = sample_session k 0" "is_cell (cl_buffer w)" "net_ok (cl_net w) (sock_fd (cl_session w))"
    by (simp_all add: w_def sample_client_run_def quiet_net_def)
  obtain c w0 where c: "tor_send_create_msg sample_client_env w = Some (True, w0)"
    "net_out (cl_net w0) = net_out (cl_net w) @ [(sock_fd (cl_session w), c)]"
    by (rule create_sent [OF sample_envs(1) w(2,3)]) auto
  define r where "r = (sample_relay_run (replicate 512 0))\<lparr>
    rr_session := init_relay_session (re_key sample_relay_env) 4\<lparr>tls_last_key := key_of 1\<rparr>,
    rr_net := quiet_net\<lparr>net_in := (\<lambda>_. [c])\<rparr>\<rparr>"
  have r: "symmetric_key (tls_key (cl_session w)) = symmetric_key (tls_last_key (rr_session r))"
    "onion_key (rr_session r) = init_key (re_key sample_relay_env)" "is_cell (rr_buffer r)"
    "net_ok (rr_net r) (last_fd (rr_session r))" "net_in (rr_net r) (last_fd (rr_session r)) = c # []"
    by (simp_all add: w sample_session_def r_def init_relay_session_def quiet_net_def sample_relay_run_def)
  have "get_public_identity_key (ce_gmp sample_client_env) (re_key sample_relay_env) (replicate 256 0) =
      Some (rd_public_key (circuit_relays (cl_session w) ! 0))" "circuit_relays (cl_session w) \<noteq> []"
    using sample_public by (simp_all add: w sample_session_def sample_descriptor_def)
  from create_cell_agreement [OF sample_envs k [folded w(1)] this(2,1) length_replicate w(2,3) r(1-4) c r(5), of "[]"]
  show ?thesis by blast
qed

text \<open>C4. Every further hop: from the client's \<open>extend\<close> cell, carried by the circuit there is, the last relay
  dials the address of the descriptor, and the \<open>create\<close> cell it sends over the new link gives the
  next relay the very key the client holds for it. So the keys shared over the circuit grow by one
  hop, and when the new relay's answer arrives, the extending relay succeeds and reports \<open>extended\<close>.\<close>

theorem extend_cell_agreement:
  assumes "client_env_ok C" "relay_env_ok N" "same_group C N"
    and "session_keys_ok C ses" "ses = cl_session w" "cur_relays ses = length hops" "length hops < length (circuit_relays ses)"
    and "d = circuit_relays ses ! length hops" "descriptor_ok d"
      "get_public_identity_key (ce_gmp C) (re_key N) out = Some (rd_public_key d)" "length out = 256"
    and "shares_keys (tls_key ses) (onion_keys ses) hops"
    and "is_cell (cl_buffer w)" "tor_send_extend_msg C d w = Some (True, w1)"
      "net_out (cl_net w1) = net_out (cl_net w) @ [(sock_fd ses, cell)]" "rr_buffer m = deliver hops cell"
    and "net_connects (rr_net m) = (fd, True) # dials" "fd \<noteq> -1"
    and "handle_tls_sender (re_gmp R) (re_globals R) (re_junk_key R) (re_junk_key' R) (re_junk_key R, re_junk_hash R) fd
        (tls_next_key (rr_session m))
        ((rr_net m)\<lparr>net_connects := dials, net_dialed := net_dialed (rr_net m) @ [sockaddr_to_unix (rd_sock_addr d)]\<rparr>)
      = Some (True, link, s)"
    and "net_ok s fd" "net_ok s (last_fd (rr_session m))"
    and "symmetric_key link = symmetric_key (tls_last_key (rr_session r))" "onion_key (rr_session r) = init_key (re_key N)"
      "is_cell (rr_buffer r)" "net_ok (rr_net r) (last_fd (rr_session r))"
    and "tor_send_middle_relay_create (extend_public_key (rr_buffer m))
        (m\<lparr>rr_session := (rr_session m)\<lparr>next_fd := fd, tls_next_key := link\<rparr>, rr_net := s\<rparr>) = (True, m0)"
      "net_out (rr_net m0) = net_out s @ [(fd, create)]" "net_in (rr_net r) (last_fd (rr_session r)) = create # rest"
  shows "\<exists>r' reply. handle_create_message N r = Some (relay_success, r') \<and>
     shares_keys (tls_key ses) (onion_keys ses) (hops @ [(tls_last_key (rr_session r'), onion_key (rr_session r'))]) \<and>
     net_out (rr_net r') = net_out (rr_net r) @ [(last_fd (rr_session r), reply)] \<and>
     (net_in s fd = reply # others \<longrightarrow>
        (\<exists>m' c. extend_relay R m = Some (relay_success, m') \<and>
           net_out (rr_net m') = net_out s @ [(fd, create), (last_fd (rr_session m), client_wire (rr_session m) c)] \<and>
           is_cell c \<and> relay_cmd c = RELAY_EXTENDED \<and>
           rr_session m' = (rr_session m)\<lparr>next_fd := fd, tls_next_key := link\<rparr>))"
  using assms by (rule extend_exchange)

lemma tls_sender_runs:
  assumes "gmp_documented G" "dh_usable g" "key_pair g a" "length j = 256" "length j' = 256"
    and "length (fst l) = 256" "length (snd l) = 64" "net_in s fd = pub # rest" "length pub = 256" "net_ok s fd"
  shows "\<exists>k mine. handle_tls_sender G g j j' l fd (init_key a) s =
    Some (True, k, s\<lparr>net_in := (net_in s)(fd := rest), net_out := net_out s @ [(fd, mine)]\<rparr>)"
proof -
  obtain k where k: "derive_symmetric_key_from_public G g l (init_key a) pub = Some k"
    using derive_symmetric_key [OF assms(1,2), of l pub "init_key a"] assms(6,7)
    by (auto simp: ASYMMETRIC_KEY_BYTES_def SHA_PADDING_def)
  have "kd_identity k = a"
    using k by (auto simp: derive_symmetric_key_from_public_def init_key_def Let_def split: Option.bind_splits if_splits)
  moreover obtain mine where "get_public_identity_key G a j' = Some mine"
    using export_public [OF assms(1-3,5)] by blast
  moreover have "pub \<noteq> []" using assms(9) by auto
  ultimately show ?thesis
    using k assms(4,8-10)
    by (intro exI [of _ k] exI [of _ mine]) (simp add: handle_tls_sender_def recv_tls_msg_def send_tls_msg_def read_buffer_whole send_fd_def)
qed

lemma extend_cell_agreement_witness:
  "\<exists>(w :: client_run) hops (r :: relay_run) r'. handle_create_message sample_relay_env r = Some (relay_success, r') \<and> length hops = 1 \<and>
     shares_keys (tls_key (cl_session w)) (onion_keys (cl_session w)) (hops @ [(tls_last_key (rr_session r'), onion_key (rr_session r'))])"
proof -
  obtain k where k: "session_keys_ok sample_client_env (sample_session k 1)" by (rule sample_keys)
  define w where "w = (sample_client_run [])\<lparr>cl_session := sample_session k 1\<rparr>"
  let ?ses = "sample_session k 1" and ?d = sample_descriptor and ?hops = "[(key_of 1, k)]"
  have w: "?ses = cl_session w" "is_cell (cl_buffer w)" "net_ok (cl_net w) (sock_fd ?ses)" "cur_relays ?ses = length ?hops"
    "length ?hops < length (circuit_relays ?ses)" "?d = circuit_relays ?ses ! length ?hops"
    "shares_keys (tls_key ?ses) (onion_keys ?ses) ?hops"
    by (simp_all add: w_def sample_client_run_def quiet_net_def sample_session_def shares_keys_def)
  have d: "descriptor_ok ?d" "get_public_identity_key (ce_gmp sample_client_env) (re_key sample_relay_env) (replicate 256 0) =
      Some (rd_public_key ?d)"
    using sample_public by (simp_all add: sample_descriptor_def zero_descriptor_def descriptor_ok_def sock_addr_ok_def)
  have e: "gmp_documented (ce_gmp sample_client_env)" "dh_usable (ce_globals sample_client_env)"
      "key_pair (ce_globals sample_client_env) (ce_key sample_client_env)"
    using sample_envs(1) by (simp_all add: client_env_ok_def)
  define b where "b = set_relay_cmd RELAY_EXTEND (set_cell_cmd TOR_RELAY (cl_buffer w))"
  have "length (extend_public_key b) = 256" using w(2) by (simp add: b_def extend_public_key_def)
  then obtain pub where pub: "get_public_identity_key (ce_gmp sample_client_env) (ce_key sample_client_env) (extend_public_key b) = Some pub"
    using export_public [OF e] by blast
  have x: "\<exists>cell w1. tor_send_extend_msg sample_client_env ?d w = Some (True, w1) \<and>
      net_out (cl_net w1) = net_out (cl_net w) @ [(sock_fd ?ses, cell)]"
    using pub w(1,3) by (simp add: tor_send_extend_msg_def b_def send_cell_out Let_def)
  then obtain cell w1 where cell: "tor_send_extend_msg sample_client_env ?d w = Some (True, w1)"
    "net_out (cl_net w1) = net_out (cl_net w) @ [(sock_fd ?ses, cell)]" by blast
  define m where "m = (sample_relay_run (deliver ?hops cell))\<lparr>rr_session := init_relay_session (re_key sample_relay_env) 4,
    rr_net := quiet_net\<lparr>net_connects := [(9, True)], net_in := (\<lambda>_. [replicate 256 3])\<rparr>\<rparr>"
  have m: "rr_buffer m = deliver ?hops cell" "net_connects (rr_net m) = (9, True) # []" "(9 :: int) \<noteq> -1"
    "tls_next_key (rr_session m) = init_key (re_key sample_relay_env)" "last_fd (rr_session m) = 4"
    by (simp_all add: m_def sample_relay_run_def init_relay_session_def)
  let ?s = "(rr_net m)\<lparr>net_connects := [], net_dialed := net_dialed (rr_net m) @ [sockaddr_to_unix (rd_sock_addr ?d)]\<rparr>"
  obtain link mine where link: "handle_tls_sender (re_gmp sample_relay_env) (re_globals sample_relay_env)
      (re_junk_key sample_relay_env) (re_junk_key' sample_relay_env) (re_junk_key sample_relay_env, re_junk_hash sample_relay_env) 9
      (tls_next_key (rr_session m)) ?s =
      Some (True, link, ?s\<lparr>net_in := (net_in ?s)(9 := []), net_out := net_out ?s @ [(9, mine)]\<rparr>)"
    using tls_sender_runs [of "ce_gmp sample_client_env" "ce_globals sample_client_env" "re_key sample_relay_env"
        "re_junk_key sample_relay_env" "re_junk_key' sample_relay_env" "(re_junk_key sample_relay_env, re_junk_hash sample_relay_env)"
        ?s 9 "replicate 256 3" "[]"] e sample_envs m(4)
    by (auto simp: relay_env_ok_def same_group_def m_def quiet_net_def)
  let ?s' = "?s\<lparr>net_in := (net_in ?s)(9 := []), net_out := net_out ?s @ [(9, mine)]\<rparr>"
  have s: "net_ok ?s' 9" "net_ok ?s' (last_fd (rr_session m))" by (simp_all add: m_def quiet_net_def)
  obtain create m0 where cr: "tor_send_middle_relay_create (extend_public_key (rr_buffer m))
        (m\<lparr>rr_session := (rr_session m)\<lparr>next_fd := 9, tls_next_key := link\<rparr>, rr_net := ?s'\<rparr>) = (True, m0)"
      "net_out (rr_net m0) = net_out ?s' @ [(9, create)]"
    using s(1) by (simp add: tor_send_middle_relay_create_def relay_send_out Let_def)
  define r where "r = (sample_relay_run (replicate 512 0))\<lparr>
    rr_session := init_relay_session (re_key sample_relay_env) 4\<lparr>tls_last_key := link\<rparr>,
    rr_net := quiet_net\<lparr>net_in := (\<lambda>_. [create])\<rparr>\<rparr>"
  have r: "symmetric_key link = symmetric_key (tls_last_key (rr_session r))"
    "onion_key (rr_session r) = init_key (re_key sample_relay_env)" "is_cell (rr_buffer r)"
    "net_ok (rr_net r) (last_fd (rr_session r))" "net_in (rr_net r) (last_fd (rr_session r)) = create # []"
    by (simp_all add: r_def init_relay_session_def quiet_net_def sample_relay_run_def)
  from extend_cell_agreement [OF sample_envs k w(1,4,5,6) d length_replicate w(7,2) cell m(1-3) link s r(1-4) cr r(5), of "[]"]
  have "\<exists>r'. handle_create_message sample_relay_env r = Some (relay_success, r') \<and>
     shares_keys (tls_key (cl_session w)) (onion_keys (cl_session w)) (?hops @ [(tls_last_key (rr_session r'), onion_key (rr_session r'))])"
    unfolding w(1) by blast
  moreover have "length ?hops = 1" by simp
  ultimately show ?thesis by blast
qed


text \<open>A circuit of the two relays of the sample client.\<close>

definition sample_hops :: "hop list" where
  "sample_hops = [(key_of 1, key_of 2), (key_of 5, key_of 3)]"

lemma sample_hops: "shares_keys (key_of 1) [key_of 2, key_of 3] sample_hops" "length sample_hops = 2"
  by (simp_all add: sample_hops_def shares_keys_def)




text \<open>C40. From the internet to the client's stream: data the last relay packs into a cell comes back through the
  circuit and is appended to the client's stream, but one byte late. The client's stream gets a
  byte left over in the relay's buffer first, and never the last byte of the data.\<close>

theorem data_from_internet_shifted:
  assumes "shares_keys tls keys hops" "is_cell b" "data \<noteq> []" "length data \<le> 485"
    and "data_cell stream_id data (word_of_nat (length data)) b = Some c"
    and "cl_buffer w = client_open (Some tls) keys (length hops) (send_back hops c)"
    and "socket_hashmap_find (cl_streams w) stream_id = Some entry" "entry < length (cl_streams w)"
    and "ring_ok (he_data (cl_streams w ! entry))" "push_ready (he_data (cl_streams w ! entry)) (length data)"
    and "\<forall>m \<le> 2 ^ 30. ce_alloc E m"
  shows "\<exists>w'. handle_relay_msg E w = Some (True, w') \<and> ring_ok (he_data (cl_streams w' ! entry)) \<and>
    ring_bytes (he_data (cl_streams w' ! entry)) = ring_bytes (he_data (cl_streams w ! entry)) @ b ! 14 # butlast data"
proof -
  let ?buf = "he_data (cl_streams w ! entry)"
  have n: "unat (word_of_nat (length data) :: u16) = length data" using assms(4) by (intro unat_length_498) simp
  have c: "is_cell c" "relay_length c = word_of_nat (length data)"
    "take (length data) (relay_payload c) = b ! 14 # butlast data"
    using data_cell_shifted [OF assms(2,3) _ refl, of stream_id] assms(4,5) by simp_all
  note k = data_cell_fields [OF assms(2,5)]
  note a = arrives_back [OF assms(1) c(1), folded assms(6)]
  note f = intact_fields [OF a(2,1) c(1)]
  have l: "is_cell (cl_buffer w)" by (rule a(1))
  have p: "take (length data) (drop 14 (cl_buffer w)) = b ! 14 # butlast data"
    using f(9) [OF assms(4)] c(3) assms(4) by (simp add: relay_payload_def slice_def min_def)
  obtain buf' where "stream_push_data (ce_alloc E) ?buf (drop 14 (cl_buffer w)) (length data) = Some buf'" "ring_ok buf'"
    "ring_contents buf' = ring_contents ?buf @ map Some (b ! 14 # butlast data)"
    using push_contents [OF assms(9,10) _ assms(11), of "drop 14 (cl_buffer w)"] l assms(4) p by auto
  moreover have "cell_cmd (cl_buffer w) = TOR_RELAY" "relay_cmd (cl_buffer w) = RELAY_DATA"
    "relay_stream_id (cl_buffer w) = stream_id" "unat (relay_length (cl_buffer w)) = length data"
    using f(1-4) k c(2) n by simp_all
  ultimately show ?thesis
    using assms(7,8)
    by (simp add: handle_relay_msg_def handle_relay_relay_msg_def RELAY_DATA_def RELAY_CONNECTED_def RELAY_END_def
        ring_bytes_def)
qed

lemma data_from_internet_shifted_witness:
  "\<exists>c w'. data_cell 5 [10, 20, 30] 3 (replicate 512 0) = Some c \<and>
     handle_relay_msg sample_client_env
       ((sample_client_run [])\<lparr>cl_buffer := client_open (Some (key_of 1)) [key_of 2, key_of 3] 2 (send_back sample_hops c)\<rparr>) =
       Some (True, w') \<and>
     ring_bytes (he_data (cl_streams w' ! 5)) = [1, 2, 0, 10, 20]"
proof -
  have "\<exists>c. data_cell 5 [10, 20, 30] (word_of_nat (length [10 :: u8, 20, 30])) (replicate 512 0) = Some c"
    by (simp add: data_cell_def mem_read_def mem_write_def Let_def)
  then obtain c where c: "data_cell 5 [10, 20, 30] (word_of_nat (length [10 :: u8, 20, 30])) (replicate 512 0) = Some c" by blast
  define w where "w = (sample_client_run [])\<lparr>cl_buffer := client_open (Some (key_of 1)) [key_of 2, key_of 3] (length sample_hops)
      (send_back sample_hops c)\<rparr>"
  have w: "cl_buffer w = client_open (Some (key_of 1)) [key_of 2, key_of 3] (length sample_hops) (send_back sample_hops c)"
    "cl_streams w = sample_streams" by (simp_all add: w_def sample_client_run_def)
  have rc: "ring_contents (he_data (sample_streams ! 5)) = [Some 1, Some 2]"
    by (simp add: sample_streams ring_contents_def upt_rec)
  have "\<exists>k < 31. 8 = (2 :: nat) ^ k" by (intro exI [of _ 3]) simp
  then have r: "ring_ok (he_data (sample_streams ! 5))" using rc by (simp add: ring_ok_def ring_shape_def sample_streams(3))
  have p: "push_ready (he_data (sample_streams ! 5)) (length [10 :: u8, 20, 30])"
    by (simp add: push_ready_def grow_safe_def sample_streams(3))
  have s: "socket_hashmap_find (cl_streams w) 5 = Some 5" "5 < length (cl_streams w)" "\<forall>m \<le> 2 ^ 30. ce_alloc sample_client_env m"
    by (simp_all add: w(2) sample_streams HASHMAP_AMOUNT_def sample_client_env_def)
  have b: "ring_bytes (he_data (sample_streams ! 5)) = [1, 2]" by (simp add: ring_bytes_def rc)
  obtain w' where "handle_relay_msg sample_client_env w = Some (True, w')"
    "ring_bytes (he_data (cl_streams w' ! 5)) = [1, 2, 0, 10, 20]"
    using data_from_internet_shifted [OF sample_hops(1) length_replicate _ _ c w(1) s(1,2) _ _ s(3)] r p w(2) b by auto
  then show ?thesis using c by (auto simp: w_def sample_hops(2))
qed

end
