(* ===== verification/Directory.thy ===== *)
theory Directory
  imports Server Circuit
begin

text \<open>
  The directory sessions of a client (\<open>src/client/router/server_query.c\<close>) and of a relay
  (\<open>src/relay/router/server_register.c\<close>), a relay's own address (\<open>src/relay/services/ip_fetch.c\<close>), and outgoing
  connections to a configured server (\<open>src/utils/sock_utils/connect_server.c\<close>).

  \<open>dir_run\<close> has what both kinds of session change: the Diffie-Hellman parameters, the random draws left, the
  program's identity key, the sockets and the message buffer. A key that was never initialised is \<open>None\<close>. A
  result \<open>None\<close> is an abort, a use of such a key, or an access outside an object.
\<close>

record dir_run =
  dr_globals :: dh_globals
  dr_draws :: "bytes list"
  dr_id :: identity_key
  dr_net :: net
  dr_buffer :: bytes

record dir_env =
  de_gmp :: gmp
  de_getaddrinfo :: "string option \<Rightarrow> string option \<Rightarrow> (bytes \<times> nat) list option"
  de_junk_key :: bytes
  de_junk_hash :: bytes
  de_junk_pub :: bytes

definition INVALID_RELAY_ID :: u32 where "INVALID_RELAY_ID = NOT 0"

section \<open>Connecting to a configured server\<close>

text \<open>The addresses found are tried in order; each attempt is as in \<open>connect_server_by_sockaddr\<close>.\<close>

fun connect_addresses :: "(bytes \<times> nat) list \<Rightarrow> net \<Rightarrow> int \<times> net" where
  "connect_addresses [] s = (-1, s)"
| "connect_addresses ((addr, addr_len) # res) s =
     (let (fd, s) = connect_server_by_sockaddr addr addr_len s
      in if fd = -1 then connect_addresses res s else (fd, s))"

text \<open>A missing server or port is handed to \<open>getaddrinfo\<close> as \<open>NULL\<close>.\<close>

definition connect_server :: "dir_env \<Rightarrow> server_config_metadata \<Rightarrow> net \<Rightarrow> int \<times> net" where
  "connect_server E config s =
     (case de_getaddrinfo E (Option.bind (cfg_server config) c_string) (Option.bind (cfg_port config) c_string) of
        None \<Rightarrow> (-1, s)
      | Some res \<Rightarrow> connect_addresses res s)"

section \<open>The client's session\<close>

text \<open>Running a network operation on the sockets and the buffer.\<close>

definition on_dir :: "(net \<Rightarrow> 'a \<times> bytes \<times> net) \<Rightarrow> 'd dir_run_scheme \<Rightarrow> 'a \<times> 'd dir_run_scheme" where
  "on_dir f w = (let (r, b, s) = f (dr_net w) in (r, w\<lparr>dr_buffer := b, dr_net := s\<rparr>))"

text \<open>The result's second component is the server key, once it is initialised.\<close>

definition query_handshake ::
  "dir_env \<Rightarrow> int \<Rightarrow> dir_run \<Rightarrow> (client_code \<times> key_data option \<times> dir_run) option" where
  "query_handshake E fd w =
     (let (ok, w) = on_dir (client_send_server_handshake_req fd) w
      in if \<not> ok then Some (client_error, None, w) else
      let (response, w) = on_dir (recv_server_handshake_res fd (dr_buffer w)) w
      in case response of
           None \<Rightarrow> Some (client_error, None, w)
         | Some handshake_response \<Rightarrow>
             let g = set_globals (de_gmp E) (hs_g handshake_response) (hs_p handshake_response) (dr_globals w)
             in Option.bind (init_id_key (de_gmp E) g (dr_draws w)) (\<lambda>(id_key, draws).
                let w = w\<lparr>dr_globals := g, dr_draws := draws, dr_id := id_key\<rparr>
                in Option.bind (derive_symmetric_key_from_public (de_gmp E) g (de_junk_key E, de_junk_hash E)
                     (init_key id_key) (hs_server_pubkey handshake_response)) (\<lambda>server_key.
                   Option.bind (get_public_identity_key (de_gmp E) id_key (de_junk_pub E)) (\<lambda>public_key.
                   let (ok, w) = on_dir (send_server_handshake_key fd public_key) w
                   in if \<not> ok then Some (client_error, Some server_key, w) else
                   let (confirmation, w) = on_dir (recv_server_handshake_confirmation fd (dr_buffer w) server_key) w
                   in case confirmation of
                        None \<Rightarrow> Some (client_error, Some server_key, w)
                      | Some confirmation \<Rightarrow>
                          Some (if hc_magic confirmation = SERVER_HANDSHAKE_V1_MAGIC then client_success else client_error,
                                Some server_key, w)))))"

definition fetch_relay_map ::
  "int \<Rightarrow> key_data \<Rightarrow> dir_run \<Rightarrow> client_code \<times> (u16 \<times> relay_descriptor list) option \<times> dir_run" where
  "fetch_relay_map fd server_key w =
     (let (ok, w) = on_dir (send_server_relay_map_req fd server_key) w
      in if \<not> ok then (client_error, None, w) else
      let (list, w) = on_dir (recv_server_relay_map_res fd (dr_buffer w) server_key) w
      in (if list = None then client_error else client_success, list, w))"

definition query_exit :: "int \<Rightarrow> key_data \<Rightarrow> dir_run \<Rightarrow> client_code \<times> dir_run" where
  "query_exit fd server_key w =
     (let (ok, w) = on_dir (client_send_server_exit_req fd server_key) w
      in if \<not> ok then (client_error, w) else
      let (ok, w) = on_dir (recv_server_exit_res fd (dr_buffer w) server_key) w
      in (if ok then client_success else client_error, w))"

definition close_dir :: "int \<Rightarrow> 'd dir_run_scheme \<Rightarrow> 'd dir_run_scheme" where
  "close_dir fd w = w\<lparr>dr_net := close_fd fd (dr_net w)\<rparr>"

text \<open>
  On every failure the server key is freed, also when the handshake failed before it was initialised. The
  circuit's list has room for 5 descriptors.
\<close>

definition gather_relay_map ::
  "dir_env \<Rightarrow> server_config_metadata \<Rightarrow> u8 \<Rightarrow> dir_run \<Rightarrow> (client_code \<times> relay_descriptor list \<times> dir_run) option" where
  "gather_relay_map E config relay_amount w =
     (let (fd, s) = connect_server E config (dr_net w);
          w = w\<lparr>dr_net := s\<rparr>
      in if fd = -1 then Some (client_error, [], w) else
     Option.bind (query_handshake E fd w) (\<lambda>(response, server_key, w).
     if response \<noteq> client_success then
       Option.bind server_key (\<lambda>_. Some (response, [], close_dir fd w))
     else
       Option.bind server_key (\<lambda>server_key.
       let (response, list, w) = fetch_relay_map fd server_key w
       in case list of
            None \<Rightarrow> Some (response, [], close_dir fd w)
          | Some (amount, relays) \<Rightarrow>
              if unat amount < unat relay_amount then Some (client_error, [], close_dir fd w)
              else if MAX_RELAYS < unat relay_amount then None
              else
                let relay_list = take (unat relay_amount) relays;
                    (response, w) = query_exit fd server_key w
                in Some (response, relay_list, close_dir fd w))))"

section \<open>The relay's session\<close>

record relay_vars = dir_run +
  rv_server_key :: "key_data option"
  rv_register_id :: u32
  rv_is_key_init :: bool

text \<open>
  The keys are made once, at the first handshake; later ones reuse them. Failures close the socket where
  they happen. A response's code is not looked at. A use of the server key before it is initialised
  does not occur, since the handshake comes first.
\<close>

definition register_keys :: "dir_env \<Rightarrow> server_handshake_response \<Rightarrow> relay_vars \<Rightarrow> relay_vars option" where
  "register_keys E handshake_response w =
     (if rv_is_key_init w then Some w
      else
        let g = set_globals (de_gmp E) (hs_g handshake_response) (hs_p handshake_response) (dr_globals w)
        in Option.bind (init_id_key (de_gmp E) g (dr_draws w)) (\<lambda>(key, draws).
           Option.bind (derive_symmetric_key_from_public (de_gmp E) g (de_junk_key E, de_junk_hash E)
             (init_key key) (hs_server_pubkey handshake_response)) (\<lambda>server_key.
           Some (w\<lparr>dr_globals := g, dr_draws := draws, dr_id := key, rv_server_key := Some server_key,
                   rv_is_key_init := True\<rparr>))))"

definition register_handshake :: "dir_env \<Rightarrow> int \<Rightarrow> relay_vars \<Rightarrow> (relay_code \<times> relay_vars) option" where
  "register_handshake E fd w =
     (let (ok, w) = on_dir (relay_send_server_handshake_req fd) w
      in if \<not> ok then Some (relay_error, close_dir fd w) else
      let (response, w) = on_dir (recv_server_handshake_res fd (dr_buffer w)) w
      in case response of
           None \<Rightarrow> Some (relay_error, close_dir fd w)
         | Some handshake_response \<Rightarrow>
             Option.bind
               (register_keys E handshake_response w)
               (\<lambda>w.
             Option.bind (get_public_identity_key (de_gmp E) (dr_id w) (de_junk_pub E)) (\<lambda>public_key.
             Option.bind (rv_server_key w) (\<lambda>server_key.
             let (ok, w) = on_dir (send_server_handshake_key fd public_key) w
             in if \<not> ok then Some (relay_error, close_dir fd w) else
             let (confirmation, w) = on_dir (recv_server_handshake_confirmation fd (dr_buffer w) server_key) w
             in case confirmation of
                  None \<Rightarrow> Some (relay_error, close_dir fd w)
                | Some confirmation \<Rightarrow>
                    if hc_magic confirmation = SERVER_HANDSHAKE_V1_MAGIC then Some (relay_success, w)
                    else Some (relay_error, close_dir fd w)))))"

definition register_exit :: "int \<Rightarrow> key_data \<Rightarrow> relay_vars \<Rightarrow> relay_code \<times> relay_vars" where
  "register_exit fd server_key w =
     (let (ok, w) = on_dir (relay_send_server_exit_req fd server_key) w
      in if \<not> ok then (relay_error, close_dir fd w) else
      let (ok, w) = on_dir (recv_server_exit_res fd (dr_buffer w) server_key) w
      in if ok then (relay_success, w) else (relay_error, close_dir fd w))"

definition register_signup :: "int \<Rightarrow> key_data \<Rightarrow> sock_addr \<Rightarrow> relay_vars \<Rightarrow> relay_code \<times> relay_vars" where
  "register_signup fd server_key addr w =
     (let (ok, w) = on_dir (send_server_signup_req fd server_key addr) w
      in if \<not> ok then (relay_error, close_dir fd w) else
      let (res, w) = on_dir (recv_server_signup_res fd (dr_buffer w) server_key) w
      in case res of
           None \<Rightarrow> (relay_error, close_dir fd w)
         | Some relay_id \<Rightarrow> (relay_success, w\<lparr>rv_register_id := relay_id\<rparr>))"

definition register_signout :: "int \<Rightarrow> key_data \<Rightarrow> u32 \<Rightarrow> relay_vars \<Rightarrow> relay_code \<times> relay_vars" where
  "register_signout fd server_key relay_id w =
     (let (ok, w) = on_dir (send_server_signout_req fd server_key relay_id) w
      in if \<not> ok then (relay_error, close_dir fd w) else
      let (ok, w) = on_dir (recv_server_signout_res fd (dr_buffer w) server_key) w
      in if ok then (relay_success, w) else (relay_error, close_dir fd w))"

section \<open>A relay's own address\<close>

text \<open>An interface: its name, and its address when it has one, with the family in the first two bytes.\<close>

fun first_interface :: "(string \<times> bytes option) list \<Rightarrow> bytes \<Rightarrow> bool \<times> bytes" where
  "first_interface [] storage = (False, storage)"
| "first_interface ((name, addr) # ifs) storage =
     (case addr of
        None \<Rightarrow> first_interface ifs storage
      | Some a \<Rightarrow>
          if name = ''lo'' then first_interface ifs storage
          else
            let family = get16 0 a
            in if family = ucast AF_INET \<or> family = ucast AF_INET6 then
                 (True, splice 0 (take (if family = ucast AF_INET then 16 else 28) a) storage)
               else first_interface ifs storage)"

definition get_interface_sockstorage :: "(string \<times> bytes option) list option \<Rightarrow> bytes \<Rightarrow> bool \<times> bytes" where
  "get_interface_sockstorage ifaddrs storage =
     (case ifaddrs of None \<Rightarrow> (False, storage) | Some ifs \<Rightarrow> first_interface ifs storage)"

definition IPPROTO_TCP :: u8 where "IPPROTO_TCP = 6"

definition convert_sock_addr :: "sock_addr \<Rightarrow> bytes \<Rightarrow> sock_addr" where
  "convert_sock_addr result storage =
     (if get16 0 storage = ucast AF_INET then
        \<lparr>sa_family = AF_INET, sa_protocol = IPPROTO_TCP, sa_addr = splice 0 (slice 4 4 storage) (sa_addr result),
         sa_port = get16 2 storage\<rparr>
      else if get16 0 storage = ucast AF_INET6 then
        \<lparr>sa_family = AF_INET6, sa_protocol = IPPROTO_TCP, sa_addr = splice 0 (slice 8 16 storage) (sa_addr result),
         sa_port = get16 2 storage\<rparr>
      else \<lparr>sa_family = 0, sa_protocol = 0, sa_addr = replicate 16 0, sa_port = 0\<rparr>)"

definition fetch_ip_sockaddr ::
  "(string \<times> bytes option) list option \<Rightarrow> bytes \<Rightarrow> sock_addr \<Rightarrow> bool \<times> sock_addr" where
  "fetch_ip_sockaddr ifaddrs junk result =
     (case get_interface_sockstorage ifaddrs junk of
        (False, _) \<Rightarrow> (False, result)
      | (True, storage) \<Rightarrow> (True, convert_sock_addr result storage))"

section \<open>Signing up and signing out\<close>

definition htons :: "u16 \<Rightarrow> u16" where "htons x = push_bit 8 x OR drop_bit 8 x"

text \<open>
  The arguments are the configuration of the directory server, the relay's own port (a missing one is read
  through \<open>NULL\<close>), the interfaces of the host, and what the local variables for its address hold before.
  Whether an address was found is not looked at, nor how the exit went.
\<close>

definition signup_server ::
  "dir_env \<Rightarrow> relay_config_metadata \<Rightarrow> (string \<times> bytes option) list option \<Rightarrow> bytes \<times> sock_addr \<Rightarrow>
   relay_vars \<Rightarrow> (relay_code \<times> relay_vars) option" where
  "signup_server E config ifaddrs junk w =
     (if rv_register_id w \<noteq> INVALID_RELAY_ID then Some (relay_error, w)
      else
        let (fd, s) = connect_server E (dir_server_cfg config) (dr_net w);
            w = w\<lparr>dr_net := s\<rparr>
        in if fd = -1 then Some (relay_error, w) else
        Option.bind (register_handshake E fd w) (\<lambda>(response, w).
        if response \<noteq> relay_success then Some (response, w)
        else
          let (_, addr) = fetch_ip_sockaddr ifaddrs (fst junk) (snd junk)
          in Option.bind (Option.bind (cfg_port (relay_server_cfg config)) c_string) (\<lambda>port.
             let addr = addr\<lparr>sa_port := htons (ucast (atoi port))\<rparr>
             in Option.bind (rv_server_key w) (\<lambda>server_key.
                let (response, w) = register_signup fd server_key addr w
                in if response \<noteq> relay_success then Some (response, w)
                   else
                     let (_, w) = register_exit fd server_key w
                     in Some (relay_success, close_dir fd w)))))"

definition signout_server :: "dir_env \<Rightarrow> relay_config_metadata \<Rightarrow> relay_vars \<Rightarrow> (relay_code \<times> relay_vars) option" where
  "signout_server E config w =
     (if rv_register_id w = INVALID_RELAY_ID then Some (relay_error, w)
      else
        let (fd, s) = connect_server E (dir_server_cfg config) (dr_net w);
            w = w\<lparr>dr_net := s\<rparr>
        in if fd = -1 then Some (relay_error, w) else
        Option.bind (register_handshake E fd w) (\<lambda>(response, w).
        if response \<noteq> relay_success then Some (response, w)
        else
          Option.bind (rv_server_key w) (\<lambda>server_key.
          let (response, w) = register_signout fd server_key (rv_register_id w) w
          in if response \<noteq> relay_success then Some (response, w)
             else
               let w = w\<lparr>rv_register_id := INVALID_RELAY_ID\<rparr>;
                   (_, w) = register_exit fd server_key w
               in Some (relay_success, close_dir fd w))))"

section \<open>The handshake against the server\<close>

text \<open>
  What both programs rely on: the library as documented, usable parameters, a server whose environment holds
  its parameters, key pair and their exports, and local arrays of the declared sizes. \<open>spk\<close> is the
  server's public key as exported.
\<close>

definition served_by :: "dir_env \<Rightarrow> server_env \<Rightarrow> bytes \<Rightarrow> bool" where
  "served_by E S spk \<longleftrightarrow> gmp_documented (de_gmp E) \<and> se_gmp S = de_gmp E \<and> dh_usable (se_globals S) \<and>
     dh_g (se_globals S) < 2 ^ 64 \<and>
     (\<exists>j. length j = 256 \<and> get_globals (se_gmp S) (se_globals S) j = Some (se_g S, se_p S)) \<and>
     key_pair (se_globals S) (se_identity S) \<and> length (se_junk_key S) = 256 \<and> length (se_junk_hash S) = 64 \<and>
     get_public_identity_key (se_gmp S) (se_identity S) (se_junk_key S) = Some spk \<and>
     length (de_junk_key E) = 256 \<and> length (de_junk_hash E) = 64 \<and> length (de_junk_pub E) = 256"

text \<open>What the server sends in a handshake.\<close>

definition handshake_reply :: "server_env \<Rightarrow> bytes \<Rightarrow> bytes" where
  "handshake_reply S spk = padded_msg (handshake_response_bytes \<lparr>hs_g = se_g S, hs_p = se_p S, hs_server_pubkey = spk\<rparr>)"

definition confirmation_wire :: "key_data \<Rightarrow> u32 \<Rightarrow> u64 \<Rightarrow> bytes" where
  "confirmation_wire ks i t = symmetric_encrypt ks (padded_msg (confirmation_bytes
     \<lparr>hc_magic = SERVER_HANDSHAKE_V1_MAGIC, hc_assigned_id = i, hc_timestamp = t\<rparr>)) 4096"

lemma server_sends:
  assumes "net_ok s fd" "length (se_p S) = 256" "length spk = 256"
  shows "\<exists>b. send_handshake_response (se_g S) (se_p S) spk fd s =
      (True, b, s\<lparr>net_out := net_out s @ [(fd, handshake_reply S spk)]\<rparr>)"
    and "\<exists>b. send_handshake_confirmation fd ks i s =
      (True, b, s\<lparr>net_out := net_out s @ [(fd, confirmation_wire ks i (net_time s))]\<rparr>)"
  using assms
  by (simp_all add: send_handshake_response_def send_handshake_confirmation_def send_server_msg_out
      send_enc_server_msg_out handshake_reply_def confirmation_wire_def handshake_response_bytes_def confirmation_bytes_def
      SERVER_HANDSHAKE_V1_MAGIC_def)

lemma served_globals:
  assumes "served_by E S spk"
  shows "set_globals (de_gmp E) (se_g S) (se_p S) g = se_globals S" "length (se_p S) = 256" "length spk = 256"
proof -
  note a = assms [unfolded served_by_def]
  obtain j where j: "length j = 256" "get_globals (se_gmp S) (se_globals S) j = Some (se_g S, se_p S)" using a by blast
  have p: "export_mpz_fixed (de_gmp E) j (dh_p (se_globals S)) 256 = Some (se_p S)" "se_g S = word_of_nat (dh_g (se_globals S))"
    using j(2) a by (auto simp: get_globals_def get_prime_dh_def get_generator_dh_def DH_KEY_BYTES_def split: Option.bind_splits)
  have pp: "dh_p (se_globals S) \<le> 256 ^ 256" using a by (simp add: dh_usable_def DH_KEY_BYTES_def)
  have lt: "dh_p (se_globals S) < 256 ^ 256"
  proof (rule ccontr)
    assume "\<not> dh_p (se_globals S) < 256 ^ 256"
    then have e: "dh_p (se_globals S) = 256 ^ 256" using pp by simp
    let ?e = "mpz_export (de_gmp E) (-1) (dh_p (se_globals S))"
    have "le_value ?e = 256 ^ 256" using a e by (simp add: gmp_documented_def)
    moreover have "length ?e \<le> 256"
      using p(1) j(1) by (auto simp: export_mpz_fixed_def ENDIAN_MPZ_def mem_write_def Let_def split: Option.bind_splits if_splits)
    then have "le_value ?e < 256 ^ 256"
      using le_value_less [of ?e] by (meson order.strict_trans2 power_increasing one_le_numeral)
    ultimately show False by simp
  qed
  have i: "mpz_import (de_gmp E) ENDIAN_MPZ (se_p S) = dh_p (se_globals S)" "length (se_p S) = 256"
    using import_export [OF _ lt j(1) p(1)] a by auto
  have g: "unat (se_g S) = dh_g (se_globals S)"
    using a p(2) by (simp add: unsigned_of_nat take_bit_nat_eq_self_iff)
  show "set_globals (de_gmp E) (se_g S) (se_p S) g = se_globals S"
    by (simp add: set_globals_def set_prime_dh_def set_generator_dh_def i g)
  show "length (se_p S) = 256" by (rule i(2))
  have "this_public (se_identity S) < 256 ^ 256" using public_less [of "se_globals S" "se_identity S"] a by (simp add: DH_KEY_BYTES_def)
  then show "length spk = 256"
    using import_export(2) [of "de_gmp E" "this_public (se_identity S)" 256 "se_junk_key S" spk] a
    by (auto simp: get_public_identity_key_def get_dh_public_identity_key_def DH_KEY_BYTES_def)
qed

lemma handshake_read:
  assumes "net_in s fd = handshake_reply S spk # rest" "length b = 4096" "length (se_p S) = 256" "length spk = 256"
  shows "recv_server_handshake_res fd b s = (Some \<lparr>hs_g = se_g S, hs_p = se_p S, hs_server_pubkey = spk\<rparr>,
    handshake_reply S spk, s\<lparr>net_in := (net_in s)(fd := rest)\<rparr>)"
proof -
  let ?r = "\<lparr>hs_g = se_g S, hs_p = se_p S, hs_server_pubkey = spk\<rparr>"
  have l: "length (handshake_reply S spk) = 4096"
    using assms(3,4) by (simp add: handshake_reply_def handshake_response_bytes_def)
  then have "handshake_reply S spk \<noteq> []" by auto
  moreover have "handshake_response_of (handshake_reply S spk) = ?r"
    using assms(3,4) unfolding handshake_reply_def padded_msg_def by simp
  ultimately show ?thesis
    using read_buffer_whole [OF assms(1)] l assms(2) by (simp add: recv_server_handshake_res_def recv_server_msg_def)
qed

lemma confirmation_read:
  assumes "net_in s fd = confirmation_wire ks i t # rest" "length b = 4096" "symmetric_key k = symmetric_key ks"
  shows "\<exists>b'. recv_server_handshake_confirmation fd b k s =
    (Some \<lparr>hc_magic = SERVER_HANDSHAKE_V1_MAGIC, hc_assigned_id = i, hc_timestamp = t\<rparr>, b', s\<lparr>net_in := (net_in s)(fd := rest)\<rparr>) \<and>
    length b' = 4096"
proof -
  let ?c = "\<lparr>hc_magic = SERVER_HANDSHAKE_V1_MAGIC, hc_assigned_id = i, hc_timestamp = t\<rparr>"
  have l: "length (confirmation_bytes ?c) \<le> 4096" by (simp add: confirmation_bytes_def SERVER_HANDSHAKE_V1_MAGIC_def)
  have "confirmation_of (padded_msg (confirmation_bytes ?c)) = ?c"
    unfolding padded_msg_def by (rule confirmation_roundtrip) (simp add: SERVER_HANDSHAKE_V1_MAGIC_def)
  then show ?thesis
    using recv_enc_server_msg_whole [OF l assms(3,2), of s fd rest] assms(1) l
    by (simp add: recv_server_handshake_confirmation_def confirmation_wire_def)
qed

text \<open>
  The steps of a session: a message out, the server's answer in. The buffer keeps its size.
\<close>

lemma length_enc: "length d \<le> 4096 \<Longrightarrow> length (symmetric_encrypt k (padded_msg d) 4096) = 4096"
  using whole_block_roundtrip(2) [of "padded_msg d" 256 k k] by simp

text \<open>\<open>w'\<close> differs from \<open>w\<close> in buffer and sockets only: \<open>out\<close> was sent and \<open>rest\<close> is still to be read.\<close>

definition after_net :: "int \<Rightarrow> bytes list \<Rightarrow> bytes list \<Rightarrow> 'd dir_run_scheme \<Rightarrow> 'd dir_run_scheme \<Rightarrow> bool" where
  "after_net fd rest out w w' \<longleftrightarrow> (\<exists>b. length b = 4096 \<and>
     w' = w\<lparr>dr_buffer := b, dr_net := (dr_net w)\<lparr>net_in := (net_in (dr_net w))(fd := rest),
       net_out := net_out (dr_net w) @ map (Pair fd) out\<rparr>\<rparr>)"

lemma after_net_step:
  assumes "after_net fd r1 o1 w w1" "after_net fd r2 o2 w1 w2"
  shows "after_net fd r2 (o1 @ o2) w w2"
  using assms by (auto simp: after_net_def)

lemma sent_plain:
  assumes "f = (\<lambda>s. send_server_msg fd d s)" "length d \<le> 4096" "net_ok (dr_net w) fd"
  shows "\<exists>w'. on_dir f w = (True, w') \<and> after_net fd (net_in (dr_net w) fd) [padded_msg d] w w'"
  using assms
  by (simp add: on_dir_def send_server_msg_out after_net_def) (rule exI [of _ "padded_msg d"], simp)

lemma sent_enc:
  assumes "f = (\<lambda>s. send_enc_server_msg fd d k s)" "length d \<le> 4096" "net_ok (dr_net w) fd"
  shows "\<exists>w'. on_dir f w = (True, w') \<and>
    after_net fd (net_in (dr_net w) fd) [symmetric_encrypt k (padded_msg d) 4096] w w'"
  using assms
  by (simp add: on_dir_def send_enc_server_msg_out after_net_def)
     (rule exI [of _ "symmetric_encrypt k (padded_msg d) 4096"], simp add: length_enc)

lemma received_enc:
  assumes "net_in (dr_net w) fd = symmetric_encrypt ks (padded_msg d) 4096 # rest" "length (dr_buffer w) = 4096"
    and "symmetric_key k = symmetric_key ks" "length d \<le> 4096"
  shows "\<exists>w'. on_dir (recv_enc_server_msg fd (dr_buffer w) k) w = (True, w') \<and> after_net fd rest [] w w' \<and> dr_buffer w' = padded_msg d"
  using recv_enc_server_msg_whole [OF assms(4,3,2,1)] assms(4)
  by (simp add: on_dir_def after_net_def) (rule exI [of _ "padded_msg d"], simp)

lemma after_net_facts:
  assumes "after_net fd rest out w w'"
  shows "net_in (dr_net w') fd = rest" "net_ok (dr_net w') = net_ok (dr_net w)" "length (dr_buffer w') = 4096"
    "net_out (dr_net w') = net_out (dr_net w) @ map (Pair fd) out" "dr_id w' = dr_id w" "dr_globals w' = dr_globals w"
    "dr_draws w' = dr_draws w" "net_connects (dr_net w') = net_connects (dr_net w)"
    "net_closed (dr_net w') = net_closed (dr_net w)"
  using assms by (auto simp: after_net_def)

lemma received_reply:
  assumes "net_in (dr_net w) fd = handshake_reply S spk # rest" "length (dr_buffer w) = 4096" "served_by E S spk"
  shows "\<exists>w'. on_dir (recv_server_handshake_res fd (dr_buffer w)) w =
    (Some \<lparr>hs_g = se_g S, hs_p = se_p S, hs_server_pubkey = spk\<rparr>, w') \<and> after_net fd rest [] w w'"
proof -
  note g = served_globals(2,3) [OF assms(3)]
  have "length (handshake_reply S spk) = 4096" using g by (simp add: handshake_reply_def handshake_response_bytes_def)
  then show ?thesis
    using handshake_read [OF assms(1,2) g] by (simp add: on_dir_def after_net_def) (rule exI [of _ "handshake_reply S spk"], simp)
qed

lemma received_confirmation:
  assumes "net_in (dr_net w) fd = confirmation_wire ks i t # rest" "length (dr_buffer w) = 4096"
    and "symmetric_key k = symmetric_key ks"
  shows "\<exists>c w'. on_dir (recv_server_handshake_confirmation fd (dr_buffer w) k) w = (Some c, w') \<and>
    hc_magic c = SERVER_HANDSHAKE_V1_MAGIC \<and> after_net fd rest [] w w'"
proof -
  obtain b where "recv_server_handshake_confirmation fd (dr_buffer w) k (dr_net w) =
    (Some \<lparr>hc_magic = SERVER_HANDSHAKE_V1_MAGIC, hc_assigned_id = i, hc_timestamp = t\<rparr>, b,
     (dr_net w)\<lparr>net_in := (net_in (dr_net w))(fd := rest)\<rparr>)" "length b = 4096"
    using confirmation_read [OF assms] by blast
  then show ?thesis by (simp add: on_dir_def after_net_def) (rule exI [of _ b], simp)
qed

text \<open>
  The keys of a handshake: what the program draws, and what the server derives from the public key it is sent.
\<close>

definition handshake_keys :: "dir_env \<Rightarrow> server_env \<Rightarrow> bytes list \<Rightarrow> identity_key \<Rightarrow> bytes \<Rightarrow> key_data \<Rightarrow> bool" where
  "handshake_keys E S draws cid pub ks \<longleftrightarrow>
     (\<exists>draws'. init_id_key (de_gmp E) (se_globals S) draws = Some (cid, draws')) \<and>
     get_public_identity_key (de_gmp E) cid (de_junk_pub E) = Some pub \<and>
     derive_symmetric_key_from_public (se_gmp S) (se_globals S) (se_junk_key S, se_junk_hash S)
       (init_key (se_identity S)) pub = Some ks"

lemma handshake_agreement:
  assumes "served_by E S spk" "handshake_keys E S draws cid pub ks"
  obtains draws' k where "init_id_key (de_gmp E) (se_globals S) draws = Some (cid, draws')"
    "derive_symmetric_key_from_public (de_gmp E) (se_globals S) (de_junk_key E, de_junk_hash E) (init_key cid) spk = Some k"
    "symmetric_key k = symmetric_key ks" "length pub = 256" "get_public_identity_key (de_gmp E) cid (de_junk_pub E) = Some pub"
proof -
  note a = assms(1) [unfolded served_by_def] and b = assms(2) [unfolded handshake_keys_def]
  obtain draws' where d: "init_id_key (de_gmp E) (se_globals S) draws = Some (cid, draws')" using b by blast
  have kp: "key_pair (se_globals S) cid"
    using gen_identity_key_pair(1) [of "de_gmp E" "se_globals S" draws _ cid draws'] d a by (auto simp: init_id_key_def)
  obtain ka kb where "derive_symmetric_key_from_public (de_gmp E) (se_globals S) (de_junk_key E, de_junk_hash E) (init_key cid) spk = Some ka"
    "derive_symmetric_key_from_public (de_gmp E) (se_globals S) (se_junk_key S, se_junk_hash S) (init_key (se_identity S)) pub = Some kb"
    "symmetric_key ka = symmetric_key kb"
    using session_key_agreement [of "de_gmp E" "se_globals S" cid "se_identity S" "de_junk_pub E" "se_junk_key S" pub spk
        "(de_junk_key E, de_junk_hash E)" "(se_junk_key S, se_junk_hash S)"] kp a b
    by (auto simp: ASYMMETRIC_KEY_BYTES_def SHA_PADDING_def)
  moreover have "length pub = 256"
    using import_export(2) [of "de_gmp E" "this_public cid" 256 "de_junk_pub E" pub] public_less [of "se_globals S" cid] kp a b
    by (auto simp: get_public_identity_key_def get_dh_public_identity_key_def DH_KEY_BYTES_def)
  ultimately show ?thesis using that d a b by auto
qed

text \<open>The program's messages as plain and encrypted sends.\<close>

lemma dir_messages:
  "client_send_server_handshake_req fd = send_server_msg fd (handshake_request_bytes
     \<lparr>hr_version = 1, hr_user_type = prot_user_type_client, hr_flags = 0\<rparr>)"
  "relay_send_server_handshake_req fd = send_server_msg fd (handshake_request_bytes
     \<lparr>hr_version = 1, hr_user_type = prot_user_type_relay, hr_flags = 0\<rparr>)"
  "send_server_handshake_key fd pub = send_server_msg fd pub"
  "send_server_relay_map_req fd k = send_enc_server_msg fd (le16_bytes CLIENT_COMMAND_GET_RELAY_MAP) k"
  "client_send_server_exit_req fd k = send_enc_server_msg fd (le16_bytes CLIENT_COMMAND_EXIT) k"
  "relay_send_server_exit_req fd k = send_enc_server_msg fd (le16_bytes RELAY_COMMAND_EXIT) k"
  "send_server_signup_req fd k addr = send_enc_server_msg fd (signup_request_bytes addr) k"
  "send_server_signout_req fd k i = send_enc_server_msg fd (signout_request_bytes i) k"
  "recv_server_exit_res fd b k = recv_enc_server_msg fd b k"
  "recv_server_signout_res fd b k = recv_enc_server_msg fd b k"
  by (rule ext, simp add: client_send_server_handshake_req_def relay_send_server_handshake_req_def
      send_server_handshake_key_def send_server_relay_map_req_def client_send_server_exit_req_def
      relay_send_server_exit_req_def send_server_signup_req_def send_server_signout_req_def
      recv_server_exit_res_def recv_server_signout_res_def)+

definition handshake_request_wire :: "u8 \<Rightarrow> bytes" where
  "handshake_request_wire u = padded_msg (handshake_request_bytes \<lparr>hr_version = 1, hr_user_type = u, hr_flags = 0\<rparr>)"

lemma query_handshake_runs:
  assumes s: "served_by E S spk" and k: "handshake_keys E S (dr_draws w) cid pub ks"
    and n: "net_in (dr_net w) fd = handshake_reply S spk # confirmation_wire ks i t # rest" "net_ok (dr_net w) fd"
  shows "\<exists>key w'. query_handshake E fd w = Some (client_success, Some key, w') \<and> symmetric_key key = symmetric_key ks \<and>
    dr_id w' = cid \<and> dr_globals w' = se_globals S \<and> net_in (dr_net w') fd = rest \<and> net_ok (dr_net w') = net_ok (dr_net w) \<and>
    length (dr_buffer w') = 4096 \<and> net_connects (dr_net w') = net_connects (dr_net w) \<and> net_closed (dr_net w') = net_closed (dr_net w) \<and>
    net_out (dr_net w') = net_out (dr_net w) @ [(fd, handshake_request_wire prot_user_type_client), (fd, padded_msg pub)]"
proof -
  obtain draws' key where key: "init_id_key (de_gmp E) (se_globals S) (dr_draws w) = Some (cid, draws')"
    "derive_symmetric_key_from_public (de_gmp E) (se_globals S) (de_junk_key E, de_junk_hash E) (init_key cid) spk = Some key"
    "symmetric_key key = symmetric_key ks" "length pub = 256" "get_public_identity_key (de_gmp E) cid (de_junk_pub E) = Some pub"
    by (rule handshake_agreement [OF s k])
  obtain w1 where w1: "on_dir (client_send_server_handshake_req fd) w = (True, w1)"
    "after_net fd (net_in (dr_net w) fd) [handshake_request_wire prot_user_type_client] w w1"
    using sent_plain [of "client_send_server_handshake_req fd" fd "handshake_request_bytes
        \<lparr>hr_version = 1, hr_user_type = prot_user_type_client, hr_flags = 0\<rparr>" w] n(2)
    by (auto simp: dir_messages handshake_request_wire_def)
  note f1 = after_net_facts [OF w1(2)]
  obtain w2 where w2: "on_dir (recv_server_handshake_res fd (dr_buffer w1)) w1 =
      (Some \<lparr>hs_g = se_g S, hs_p = se_p S, hs_server_pubkey = spk\<rparr>, w2)" "after_net fd (confirmation_wire ks i t # rest) [] w1 w2"
    using received_reply [of w1 fd S spk "confirmation_wire ks i t # rest" E] f1(1,3) n(1) s by auto
  note f2 = after_net_facts [OF w2(2)]
  let ?w3 = "w2\<lparr>dr_globals := se_globals S, dr_draws := draws', dr_id := cid\<rparr>"
  obtain w4 where w4: "on_dir (send_server_handshake_key fd pub) ?w3 = (True, w4)"
    "after_net fd (net_in (dr_net ?w3) fd) [padded_msg pub] ?w3 w4"
    using sent_plain [of "send_server_handshake_key fd pub" fd pub ?w3] key(4) n(2) f1(2) f2(2)
    by (auto simp: dir_messages)
  note f4 = after_net_facts [OF w4(2)]
  obtain c w5 where w5: "on_dir (recv_server_handshake_confirmation fd (dr_buffer w4) key) w4 = (Some c, w5)"
    "hc_magic c = SERVER_HANDSHAKE_V1_MAGIC" "after_net fd rest [] w4 w5"
    using received_confirmation [of w4 fd ks i t rest key] f2(1) f4(1,3) key(3) by auto
  note f5 = after_net_facts [OF w5(3)]
  have "dr_draws w2 = dr_draws w" using f1(7) f2(7) by simp
  then have "query_handshake E fd w = Some (client_success, Some key, w5)"
    using w1(1) w2(1) w4(1) w5(1,2) key served_globals(1) [OF s] by (simp add: query_handshake_def Let_def)
  then show ?thesis using key(3) f1 f2 f4 f5 by simp
qed

section \<open>Properties\<close>

lemma received_map:
  assumes "net_in (dr_net w) fd = symmetric_encrypt ks (padded_msg (map_response_bytes r n ds)) 4096 # rest"
    and "length (dr_buffer w) = 4096" "symmetric_key k = symmetric_key ks" "length ds = 14" "\<forall>d \<in> set ds. descriptor_ok d"
  shows "\<exists>w'. on_dir (recv_server_relay_map_res fd (dr_buffer w) k) w = (Some (n, ds), w') \<and> after_net fd rest [] w w'"
proof -
  note m = map_read_back [OF assms(4,5), of r n]
  show ?thesis
    using recv_enc_server_msg_whole [OF m(1) assms(3,2,1)] m
    by (simp add: on_dir_def recv_server_relay_map_res_def after_net_def)
       (rule exI [of _ "padded_msg (map_response_bytes r n ds)"], simp)
qed

text \<open>C13. The client's directory session against the server: with the server's messages read whole, the session
  succeeds and gives the first \<open>relay_amount\<close> descriptors of the map, in order and unchanged; the
  client ends with the server's parameters and the key pair it sent the public half of, and the
  socket is closed.\<close>

theorem client_gathers_relays:
  assumes "connect_server E config (dr_net w) = (fd, s)" "fd \<noteq> -1" "net_ok s fd"
    and "served_by E S spk" "handshake_keys E S (dr_draws w) cid pub ks"
    and "net_in s fd = handshake_reply S spk # confirmation_wire ks i t #
      symmetric_encrypt ks (padded_msg (map_response_bytes r n ds)) 4096 # symmetric_encrypt ks (padded_msg bye) 4096 # rest"
    and "length ds = 14" "\<forall>d \<in> set ds. descriptor_ok d" "length bye \<le> 4096"
    and "unat relay_amount \<le> unat n" "unat relay_amount \<le> MAX_RELAYS"
  shows "\<exists>w'. gather_relay_map E config relay_amount w = Some (client_success, take (unat relay_amount) ds, w') \<and>
    dr_id w' = cid \<and> dr_globals w' = se_globals S \<and> net_closed (dr_net w') = net_closed s @ [fd] \<and>
    take 2 (drop (length (net_out s)) (net_out (dr_net w'))) =
      [(fd, handshake_request_wire prot_user_type_client), (fd, padded_msg pub)]"
proof -
  let ?w = "w\<lparr>dr_net := s\<rparr>"
  obtain key w1 where w1: "query_handshake E fd ?w = Some (client_success, Some key, w1)" "symmetric_key key = symmetric_key ks"
    "dr_id w1 = cid" "dr_globals w1 = se_globals S" "net_ok (dr_net w1) = net_ok s" "length (dr_buffer w1) = 4096"
    "net_in (dr_net w1) fd = symmetric_encrypt ks (padded_msg (map_response_bytes r n ds)) 4096 #
       symmetric_encrypt ks (padded_msg bye) 4096 # rest" "net_closed (dr_net w1) = net_closed s"
    "net_out (dr_net w1) = net_out s @ [(fd, handshake_request_wire prot_user_type_client), (fd, padded_msg pub)]"
    using query_handshake_runs [OF assms(4), of ?w cid pub ks fd i t] assms(3,5,6) by fastforce
  obtain w2 where w2: "on_dir (send_server_relay_map_req fd key) w1 = (True, w2)"
    "after_net fd (net_in (dr_net w1) fd) [symmetric_encrypt key (padded_msg (le16_bytes CLIENT_COMMAND_GET_RELAY_MAP)) 4096] w1 w2"
    using sent_enc [of "send_server_relay_map_req fd key" fd "le16_bytes CLIENT_COMMAND_GET_RELAY_MAP" key w1] w1(5) assms(3)
    by (auto simp: dir_messages)
  note f2 = after_net_facts [OF w2(2)]
  obtain w3 where w3: "on_dir (recv_server_relay_map_res fd (dr_buffer w2) key) w2 = (Some (n, ds), w3)"
    "after_net fd (symmetric_encrypt ks (padded_msg bye) 4096 # rest) [] w2 w3"
    using received_map [of w2 fd ks r n ds "symmetric_encrypt ks (padded_msg bye) 4096 # rest" key] f2(1,3) w1(2,7) assms(7,8) by auto
  note f3 = after_net_facts [OF w3(2)]
  obtain w4 where w4: "on_dir (client_send_server_exit_req fd key) w3 = (True, w4)"
    "after_net fd (net_in (dr_net w3) fd) [symmetric_encrypt key (padded_msg (le16_bytes CLIENT_COMMAND_EXIT)) 4096] w3 w4"
    using sent_enc [of "client_send_server_exit_req fd key" fd "le16_bytes CLIENT_COMMAND_EXIT" key w3] w1(5) f2(2) f3(2) assms(3)
    by (auto simp: dir_messages)
  note f4 = after_net_facts [OF w4(2)]
  obtain w5 where w5: "on_dir (recv_server_exit_res fd (dr_buffer w4) key) w4 = (True, w5)" "after_net fd rest [] w4 w5"
    using received_enc [of w4 fd ks bye rest key] f3(1) f4(1,3) w1(2) assms(9) by (auto simp: dir_messages)
  note f5 = after_net_facts [OF w5(2)]
  have "fetch_relay_map fd key w1 = (client_success, Some (n, ds), w3)" "query_exit fd key w3 = (client_success, w5)"
    using w2(1) w3(1) w4(1) w5(1) by (simp_all add: fetch_relay_map_def query_exit_def)
  then have "gather_relay_map E config relay_amount w = Some (client_success, take (unat relay_amount) ds, close_dir fd w5)"
    using assms(1,2,10,11) w1(1) by (simp add: gather_relay_map_def)
  then show ?thesis using w1 f2 f3 f4 f5 by (simp add: close_dir_def close_fd_def)
qed

text \<open>The repository's server and a program that talks to it.\<close>

definition sample_dir_env :: dir_env where
  "sample_dir_env = \<lparr>de_gmp = reference_gmp, de_getaddrinfo = (\<lambda>_ _. Some [(replicate 128 0, 16)]),
     de_junk_key = replicate 256 0, de_junk_hash = replicate 64 0, de_junk_pub = replicate 256 0\<rparr>"

definition sample_server_env :: server_env where
  "sample_server_env = sample_env\<lparr>se_identity := \<lparr>this_private = 6, this_public = 8\<rparr>\<rparr>"

definition sample_dir_run :: "bytes list \<Rightarrow> dir_run" where
  "sample_dir_run inp = \<lparr>dr_globals = \<lparr>dh_p = 1, dh_g = 1\<rparr>, dr_draws = [[5]], dr_id = create_dh_identity_key,
     dr_net = quiet_net\<lparr>net_connects := [(9, True)], net_in := (\<lambda>_. inp)\<rparr>, dr_buffer = replicate 4096 0\<rparr>"

lemma sample_served: "served_by sample_dir_env sample_server_env (8 # replicate 255 0)"
proof -
  have "get_globals reference_gmp \<lparr>dh_p = 23, dh_g = 5\<rparr> (replicate 256 0) = Some (5, 23 # replicate 255 0)"
    by (simp add: get_globals_def get_prime_dh_def get_generator_dh_def export_mpz_fixed_def DH_KEY_BYTES_def ENDIAN_MPZ_def
        reference_gmp_def le_digits.simps mem_write_def)
  then have "\<exists>j. length j = 256 \<and> get_globals reference_gmp \<lparr>dh_p = 23, dh_g = 5\<rparr> j = Some (5, 23 # replicate 255 0)"
    by (intro exI [of _ "replicate 256 0"]) simp
  then show ?thesis
    by (simp add: served_by_def sample_dir_env_def sample_server_env_def sample_env_def reference_gmp_documented
        dh_usable_def key_pair_def DH_KEY_BYTES_def reference_public_key)
qed

lemma sample_handshake_keys:
  obtains ks where "handshake_keys sample_dir_env sample_server_env [[5]] \<lparr>this_private = 6, this_public = 8\<rparr> (8 # replicate 255 0) ks"
proof -
  have "init_id_key reference_gmp \<lparr>dh_p = 23, dh_g = 5\<rparr> [[5]] = Some (\<lparr>this_private = 6, this_public = 8\<rparr>, [])"
    by (simp add: init_id_key_def gen_dh_prime_identity_key_def random_mpz_from_urandom_def reference_gmp_def
        create_dh_identity_key_def)
  moreover obtain ka kb where "derive_symmetric_key_from_public reference_gmp \<lparr>dh_p = 23, dh_g = 5\<rparr> (replicate 256 0, replicate 64 0)
      (init_key \<lparr>this_private = 6, this_public = 8\<rparr>) (8 # replicate 255 0) = Some ka"
    using session_key_agreement [of reference_gmp "\<lparr>dh_p = 23, dh_g = 5\<rparr>" "\<lparr>this_private = 6, this_public = 8\<rparr>"
        "\<lparr>this_private = 6, this_public = 8\<rparr>" "replicate 256 0" "replicate 256 0" "8 # replicate 255 0" "8 # replicate 255 0"
        "(replicate 256 0, replicate 64 0)" "(replicate 256 0, replicate 64 0)"]
    by (auto simp: reference_gmp_documented reference_public_key dh_usable_def key_pair_def DH_KEY_BYTES_def
        ASYMMETRIC_KEY_BYTES_def SHA_PADDING_def)
  ultimately have "handshake_keys sample_dir_env sample_server_env [[5]] \<lparr>this_private = 6, this_public = 8\<rparr> (8 # replicate 255 0) ka"
    by (simp add: handshake_keys_def sample_dir_env_def sample_server_env_def sample_env_def reference_public_key)
  then show ?thesis by (rule that)
qed

definition no_config :: server_config_metadata where "no_config = \<lparr>cfg_port = None, cfg_server = None\<rparr>"

lemma sample_connect_server:
  "connect_server sample_dir_env config (quiet_net\<lparr>net_connects := [(9, True)], net_in := inp\<rparr>) =
     (9, quiet_net\<lparr>net_in := inp, net_dialed := [(replicate 128 0, 16)]\<rparr>)"
  by (simp add: connect_server_def sample_dir_env_def connect_server_by_sockaddr_def quiet_net_def)

lemma client_gathers_relays_witness:
  "\<exists>inp w'. gather_relay_map sample_dir_env no_config 3 (sample_dir_run inp) =
     Some (client_success, replicate 3 zero_descriptor, w') \<and> dr_globals w' = \<lparr>dh_p = 23, dh_g = 5\<rparr>"
proof -
  obtain ks where ks: "handshake_keys sample_dir_env sample_server_env [[5]] \<lparr>this_private = 6, this_public = 8\<rparr> (8 # replicate 255 0) ks"
    by (rule sample_handshake_keys)
  let ?r = "\<lparr>rb_timestamp = 0, rb_response_code = 0, rb_command = 1\<rparr>" and ?ds = "replicate 14 zero_descriptor"
  let ?map = "symmetric_encrypt ks (padded_msg (map_response_bytes ?r 14 ?ds)) 4096"
  let ?inp = "[handshake_reply sample_server_env (8 # replicate 255 0), confirmation_wire ks 9 0, ?map,
    symmetric_encrypt ks (padded_msg []) 4096]"
  let ?w = "sample_dir_run ?inp"
  have c: "connect_server sample_dir_env no_config (dr_net ?w) = (9, quiet_net\<lparr>net_in := (\<lambda>_. ?inp), net_dialed := [(replicate 128 0, 16)]\<rparr>)"
    by (simp add: sample_dir_run_def sample_connect_server)
  have k: "handshake_keys sample_dir_env sample_server_env (dr_draws ?w) \<lparr>this_private = 6, this_public = 8\<rparr> (8 # replicate 255 0) ks"
    using ks by (simp add: sample_dir_run_def)
  have d: "length ?ds = 14" "\<forall>d \<in> set ?ds. descriptor_ok d" "length ([] :: bytes) \<le> 4096" "unat (3 :: u8) \<le> unat (14 :: u16)"
      "unat (3 :: u8) \<le> MAX_RELAYS"
    by (simp_all add: zero_descriptor_def descriptor_ok_def sock_addr_ok_def MAX_RELAYS_def)
  have "\<exists>w'. gather_relay_map sample_dir_env no_config 3 ?w = Some (client_success, take (unat (3 :: u8)) ?ds, w') \<and>
      dr_id w' = \<lparr>this_private = 6, this_public = 8\<rparr> \<and> dr_globals w' = se_globals sample_server_env \<and>
      net_closed (dr_net w') = net_closed (quiet_net\<lparr>net_in := (\<lambda>_. ?inp), net_dialed := [(replicate 128 0, 16)]\<rparr>) @ [9] \<and>
      take 2 (drop (length (net_out (quiet_net\<lparr>net_in := (\<lambda>_. ?inp), net_dialed := [(replicate 128 0, 16)]\<rparr>))) (net_out (dr_net w'))) =
        [(9, handshake_request_wire prot_user_type_client), (9, padded_msg (8 # replicate 255 0))]"
    by (rule client_gathers_relays [OF c _ _ sample_served k _ d]) (simp_all add: quiet_net_def)
  then show ?thesis by (auto simp: sample_server_env_def sample_env_def intro!: exI [of _ ?inp])
qed

text \<open>The relay's handshake, the first and the later ones.\<close>

definition handshake_ready :: "dir_env \<Rightarrow> server_env \<Rightarrow> relay_vars \<Rightarrow> identity_key \<Rightarrow> bytes \<Rightarrow> key_data \<Rightarrow> bool" where
  "handshake_ready E S w cid pub ks \<longleftrightarrow>
     (if rv_is_key_init w
      then dr_id w = cid \<and> get_public_identity_key (de_gmp E) cid (de_junk_pub E) = Some pub \<and> length pub = 256 \<and>
        (\<exists>key. rv_server_key w = Some key \<and> symmetric_key key = symmetric_key ks)
      else handshake_keys E S (dr_draws w) cid pub ks)"

text \<open>The sockets after messages went out on one of them and answers were read from it.\<close>

definition traffic :: "int \<Rightarrow> bytes list \<Rightarrow> bytes list \<Rightarrow> net \<Rightarrow> net" where
  "traffic fd rest out s = s\<lparr>net_in := (net_in s)(fd := rest), net_out := net_out s @ map (Pair fd) out\<rparr>"

lemma traffic_facts [simp]:
  "net_in (traffic fd rest out s) = (net_in s)(fd := rest)" "net_ok (traffic fd rest out s) = net_ok s"
  "net_closed (traffic fd rest out s) = net_closed s" "net_connects (traffic fd rest out s) = net_connects s"
  "net_dialed (traffic fd rest out s) = net_dialed s"
  "net_out (traffic fd rest out s) = net_out s @ map (Pair fd) out"
  "traffic fd r2 o2 (traffic fd r1 o1 s) = traffic fd r2 (o1 @ o2) s"
  by (simp_all add: traffic_def)

lemma after_net_traffic: "after_net fd rest out w w' \<Longrightarrow> dr_net w' = traffic fd rest out (dr_net w)"
  by (auto simp: after_net_def traffic_def)

lemma after_net_vars:
  fixes w w' :: relay_vars
  assumes "after_net fd rest out w w'"
  shows "rv_server_key w' = rv_server_key w" "rv_register_id w' = rv_register_id w" "rv_is_key_init w' = rv_is_key_init w"
  using assms by (auto simp: after_net_def)

lemma register_handshake_runs:
  assumes s: "served_by E S spk" and k: "handshake_ready E S w cid pub ks"
    and n: "net_in (dr_net w) fd = handshake_reply S spk # confirmation_wire ks i t # rest" "net_ok (dr_net w) fd"
  shows "\<exists>w'. register_handshake E fd w = Some (relay_success, w') \<and> handshake_ready E S w' cid pub ks \<and> rv_is_key_init w' \<and>
    rv_register_id w' = rv_register_id w \<and>
    dr_net w' = traffic fd rest [handshake_request_wire prot_user_type_relay, padded_msg pub] (dr_net w)"
proof -
  obtain w1 where w1: "on_dir (relay_send_server_handshake_req fd) w = (True, w1)"
    "after_net fd (net_in (dr_net w) fd) [handshake_request_wire prot_user_type_relay] w w1"
    using sent_plain [of "relay_send_server_handshake_req fd" fd "handshake_request_bytes
        \<lparr>hr_version = 1, hr_user_type = prot_user_type_relay, hr_flags = 0\<rparr>" w] n(2)
    by (auto simp: dir_messages handshake_request_wire_def)
  note f1 = after_net_facts [OF w1(2)] after_net_vars [OF w1(2)]
  obtain w2 where w2: "on_dir (recv_server_handshake_res fd (dr_buffer w1)) w1 =
      (Some \<lparr>hs_g = se_g S, hs_p = se_p S, hs_server_pubkey = spk\<rparr>, w2)" "after_net fd (confirmation_wire ks i t # rest) [] w1 w2"
    using received_reply [of w1 fd S spk "confirmation_wire ks i t # rest" E] f1(1,3) n(1) s by auto
  note f2 = after_net_facts [OF w2(2)] after_net_vars [OF w2(2)]
  define keyed where "keyed = register_keys E \<lparr>hs_g = se_g S, hs_p = se_p S, hs_server_pubkey = spk\<rparr> w2"
  have "\<exists>w3 key. keyed = Some w3 \<and> dr_id w3 = cid \<and> rv_server_key w3 = Some key \<and> symmetric_key key = symmetric_key ks \<and>
      get_public_identity_key (de_gmp E) cid (de_junk_pub E) = Some pub \<and> length pub = 256 \<and> rv_is_key_init w3 \<and>
      dr_net w3 = dr_net w2 \<and> dr_buffer w3 = dr_buffer w2 \<and> rv_register_id w3 = rv_register_id w2"
  proof (cases "rv_is_key_init w")
    case True
    then show ?thesis using k f1 f2 by (auto simp: keyed_def register_keys_def handshake_ready_def)
  next
    case False
    then have hk: "handshake_keys E S (dr_draws w) cid pub ks" using k by (simp add: handshake_ready_def)
    obtain draws' key where "init_id_key (de_gmp E) (se_globals S) (dr_draws w) = Some (cid, draws')"
      "derive_symmetric_key_from_public (de_gmp E) (se_globals S) (de_junk_key E, de_junk_hash E) (init_key cid) spk = Some key"
      "symmetric_key key = symmetric_key ks" "length pub = 256" "get_public_identity_key (de_gmp E) cid (de_junk_pub E) = Some pub"
      by (rule handshake_agreement [OF s hk])
    then show ?thesis using False f1 f2 served_globals(1) [OF s] by (simp add: keyed_def register_keys_def Let_def)
  qed
  then obtain w3 key where w3: "keyed = Some w3" "dr_id w3 = cid" "rv_server_key w3 = Some key"
    "symmetric_key key = symmetric_key ks" "get_public_identity_key (de_gmp E) cid (de_junk_pub E) = Some pub" "length pub = 256"
    "rv_is_key_init w3" "dr_net w3 = dr_net w2" "dr_buffer w3 = dr_buffer w2" "rv_register_id w3 = rv_register_id w2" by blast
  obtain w4 where w4: "on_dir (send_server_handshake_key fd pub) w3 = (True, w4)"
    "after_net fd (net_in (dr_net w3) fd) [padded_msg pub] w3 w4"
    using sent_plain [of "send_server_handshake_key fd pub" fd pub w3] w3(6,8) n(2) f1(2) f2(2)
    by (auto simp: dir_messages)
  note f4 = after_net_facts [OF w4(2)] after_net_vars [OF w4(2)]
  obtain c w5 where w5: "on_dir (recv_server_handshake_confirmation fd (dr_buffer w4) key) w4 = (Some c, w5)"
    "hc_magic c = SERVER_HANDSHAKE_V1_MAGIC" "after_net fd rest [] w4 w5"
    using received_confirmation [of w4 fd ks i t rest key] f2(1) f4(1,3) w3(4,8) by auto
  note f5 = after_net_facts [OF w5(3)] after_net_vars [OF w5(3)]
  have "register_handshake E fd w = Some (relay_success, w5)"
    using w1(1) w2(1) w3 w4(1) w5(1,2) unfolding keyed_def by (simp add: register_handshake_def)
  moreover have "handshake_ready E S w5 cid pub ks" using w3 f4 f5 by (simp add: handshake_ready_def)
  moreover have "dr_net w5 = traffic fd rest [handshake_request_wire prot_user_type_relay, padded_msg pub] (dr_net w)"
    using w3(8) after_net_traffic [OF w1(2)] after_net_traffic [OF w2(2)] after_net_traffic [OF w4(2)]
      after_net_traffic [OF w5(3)] by (simp add: traffic_def)
  ultimately show ?thesis using w3 f1 f2 f4 f5 by simp
qed

text \<open>A request and its answer.\<close>

lemma register_exit_runs:
  fixes w :: relay_vars
  assumes "net_in (dr_net w) fd = symmetric_encrypt ks (padded_msg bye) 4096 # rest" "net_ok (dr_net w) fd"
    and "symmetric_key key = symmetric_key ks" "length bye \<le> 4096"
  shows "\<exists>w'. register_exit fd key w = (relay_success, w') \<and>
    after_net fd rest [symmetric_encrypt key (padded_msg (le16_bytes RELAY_COMMAND_EXIT)) 4096] w w'"
proof -
  obtain w1 where w1: "on_dir (relay_send_server_exit_req fd key) w = (True, w1)"
    "after_net fd (net_in (dr_net w) fd) [symmetric_encrypt key (padded_msg (le16_bytes RELAY_COMMAND_EXIT)) 4096] w w1"
    using sent_enc [of "relay_send_server_exit_req fd key" fd "le16_bytes RELAY_COMMAND_EXIT" key w] assms(2)
    by (auto simp: dir_messages)
  note f1 = after_net_facts [OF w1(2)]
  obtain w2 where w2: "on_dir (recv_server_exit_res fd (dr_buffer w1) key) w1 = (True, w2)" "after_net fd rest [] w1 w2"
    using received_enc [of w1 fd ks bye rest key] f1(1,3) assms(1,3,4) by (auto simp: dir_messages)
  then show ?thesis using w1 after_net_step [OF w1(2) w2(2)] by (simp add: register_exit_def)
qed

lemma register_signout_runs:
  fixes w :: relay_vars
  assumes "net_in (dr_net w) fd = symmetric_encrypt ks (padded_msg answer) 4096 # rest" "net_ok (dr_net w) fd"
    and "symmetric_key key = symmetric_key ks" "length answer \<le> 4096"
  shows "\<exists>w'. register_signout fd key i w = (relay_success, w') \<and>
    after_net fd rest [symmetric_encrypt key (padded_msg (signout_request_bytes i)) 4096] w w'"
proof -
  have l: "length (signout_request_bytes i) \<le> 4096" by (simp add: signout_request_bytes_def)
  obtain w1 where w1: "on_dir (send_server_signout_req fd key i) w = (True, w1)"
    "after_net fd (net_in (dr_net w) fd) [symmetric_encrypt key (padded_msg (signout_request_bytes i)) 4096] w w1"
    using sent_enc [of "send_server_signout_req fd key i" fd "signout_request_bytes i" key w] assms(2) l
    by (auto simp: dir_messages)
  note f1 = after_net_facts [OF w1(2)]
  obtain w2 where w2: "on_dir (recv_server_signout_res fd (dr_buffer w1) key) w1 = (True, w2)" "after_net fd rest [] w1 w2"
    using received_enc [of w1 fd ks answer rest key] f1(1,3) assms(1,3,4) by (auto simp: dir_messages)
  then show ?thesis using w1 after_net_step [OF w1(2) w2(2)] by (simp add: register_signout_def)
qed

lemma register_signup_runs:
  fixes w :: relay_vars
  assumes "net_in (dr_net w) fd = symmetric_encrypt ks (padded_msg (signup_response_bytes r i)) 4096 # rest" "net_ok (dr_net w) fd"
    and "symmetric_key key = symmetric_key ks" "sock_addr_ok addr"
  shows "\<exists>w'. register_signup fd key addr w = (relay_success, w'\<lparr>rv_register_id := ucast i\<rparr>) \<and>
    after_net fd rest [symmetric_encrypt key (padded_msg (signup_request_bytes addr)) 4096] w w'"
proof -
  have l: "length (signup_request_bytes addr) \<le> 4096" "length (signup_response_bytes r i) \<le> 4096"
    using assms(4) by (simp_all add: signup_request_bytes_def signup_response_bytes_def)
  obtain w1 where w1: "on_dir (send_server_signup_req fd key addr) w = (True, w1)"
    "after_net fd (net_in (dr_net w) fd) [symmetric_encrypt key (padded_msg (signup_request_bytes addr)) 4096] w w1"
    using sent_enc [of "send_server_signup_req fd key addr" fd "signup_request_bytes addr" key w] assms(2) l(1)
    by (auto simp: dir_messages)
  note f1 = after_net_facts [OF w1(2)]
  have id: "signup_response_id (padded_msg (signup_response_bytes r i)) = i"
    using get64_bytes [of 14 "response_base_bytes r" i] by (simp add: signup_response_id_def padded_msg_def signup_response_bytes_def)
  have m: "net_in (dr_net w1) fd = symmetric_encrypt ks (padded_msg (signup_response_bytes r i)) 4096 # rest" using f1(1) assms(1) by simp
  define w2 where "w2 = w1\<lparr>dr_buffer := padded_msg (signup_response_bytes r i),
      dr_net := (dr_net w1)\<lparr>net_in := (net_in (dr_net w1))(fd := rest)\<rparr>\<rparr>"
  have "on_dir (recv_server_signup_res fd (dr_buffer w1) key) w1 = (Some (ucast i), w2)"
    using recv_enc_server_msg_whole [OF l(2) assms(3) f1(3) m] id by (simp add: on_dir_def recv_server_signup_res_def w2_def)
  moreover have "after_net fd rest [] w1 w2"
    using l(2) by (simp add: after_net_def w2_def) (rule exI [of _ "padded_msg (signup_response_bytes r i)"], simp)
  ultimately show ?thesis
    using w1 after_net_step [OF w1(2), of rest "[]" w2] by (simp add: register_signup_def) blast
qed

text \<open>
  A relay's signup against the server: the relay sends its own address with its configured port, under the key the server
  derives from the relay's public key, keeps the id of the answer for its signout, and is ready for the next
  handshake with the same keys.
\<close>

definition registration :: "key_data \<Rightarrow> bytes \<Rightarrow> bytes \<Rightarrow> bytes list" where
  "registration key pub request =
     [handshake_request_wire prot_user_type_relay, padded_msg pub, symmetric_encrypt key (padded_msg request) 4096,
      symmetric_encrypt key (padded_msg (le16_bytes RELAY_COMMAND_EXIT)) 4096]"

lemma signup_runs:
  assumes "served_by E S spk" "handshake_ready E S w cid pub ks" "rv_register_id w = INVALID_RELAY_ID"
    and "connect_server E (dir_server_cfg config) (dr_net w) = (fd, s)" "fd \<noteq> -1" "net_ok s fd"
    and "fetch_ip_sockaddr ifaddrs (fst junk) (snd junk) = (found, addr)" "sock_addr_ok addr"
    and "cfg_port (relay_server_cfg config) = Some block" "c_string block = Some port"
    and "net_in s fd = handshake_reply S spk # confirmation_wire ks j t #
      symmetric_encrypt ks (padded_msg (signup_response_bytes r i)) 4096 # symmetric_encrypt ks (padded_msg bye) 4096 # rest"
    and "length bye \<le> 4096"
  obtains w' key where "signup_server E config ifaddrs junk w = Some (relay_success, w')" "rv_register_id w' = ucast i"
    "handshake_ready E S w' cid pub ks" "rv_server_key w' = Some key" "symmetric_key key = symmetric_key ks" "rv_is_key_init w'"
    "dr_net w' = close_fd fd (traffic fd rest (registration key pub
       (signup_request_bytes (addr\<lparr>sa_port := htons (ucast (atoi port))\<rparr>))) s)"
proof -
  let ?w = "w\<lparr>dr_net := s\<rparr>" and ?addr = "addr\<lparr>sa_port := htons (ucast (atoi port))\<rparr>"
  have ready: "handshake_ready E S ?w cid pub ks" using assms(2) by (simp add: handshake_ready_def)
  obtain w1 where w1: "register_handshake E fd ?w = Some (relay_success, w1)" "handshake_ready E S w1 cid pub ks"
    "rv_is_key_init w1" "dr_net w1 = traffic fd (symmetric_encrypt ks (padded_msg (signup_response_bytes r i)) 4096 #
       symmetric_encrypt ks (padded_msg bye) 4096 # rest) [handshake_request_wire prot_user_type_relay, padded_msg pub] s"
    using register_handshake_runs [OF assms(1) ready, of fd j t] assms(6,11) by fastforce
  obtain key where key: "rv_server_key w1 = Some key" "symmetric_key key = symmetric_key ks" 
    using w1(2,3) by (auto simp: handshake_ready_def)
  have ok: "sock_addr_ok ?addr" "net_ok (dr_net w1) fd" "net_in (dr_net w1) fd = symmetric_encrypt ks (padded_msg
      (signup_response_bytes r i)) 4096 # symmetric_encrypt ks (padded_msg bye) 4096 # rest"
    using assms(6,8) w1(4) by (simp_all add: sock_addr_ok_def)
  obtain w2 where w2: "register_signup fd key ?addr w1 = (relay_success, w2\<lparr>rv_register_id := ucast i\<rparr>)"
    "after_net fd (symmetric_encrypt ks (padded_msg bye) 4096 # rest)
       [symmetric_encrypt key (padded_msg (signup_request_bytes ?addr)) 4096] w1 w2"
    using register_signup_runs [OF ok(3,2) key(2) ok(1)] by blast
  note f2 = after_net_facts [OF w2(2)] after_net_vars [OF w2(2)]
  let ?w3 = "w2\<lparr>rv_register_id := ucast i\<rparr>"
  obtain w4 where w4: "register_exit fd key ?w3 = (relay_success, w4)"
    "after_net fd rest [symmetric_encrypt key (padded_msg (le16_bytes RELAY_COMMAND_EXIT)) 4096] ?w3 w4"
    using register_exit_runs [of ?w3 fd ks bye rest key] f2(1,2) ok(2) key(2) assms(12) by auto
  note f4 = after_net_facts [OF w4(2)] after_net_vars [OF w4(2)]
  have "signup_server E config ifaddrs junk w = Some (relay_success, close_dir fd w4)"
    using assms(3-5,7,9,10) w1(1) key(1) w2(1) w4(1) by (simp add: signup_server_def)
  moreover have "handshake_ready E S (close_dir fd w4) cid pub ks"
    using w1(2,3) f2 f4 by (simp add: handshake_ready_def close_dir_def)
  ultimately show thesis
    using f2 f4 key w1(3,4) after_net_traffic [OF w2(2)] after_net_traffic [OF w4(2)]
    by (intro that [of "close_dir fd w4" key]) (simp_all add: close_dir_def registration_def)
qed

text \<open>The signout, with the keys of the signup and the id it left.\<close>

lemma signout_runs:
  assumes "served_by E S spk" "handshake_ready E S w cid pub ks" "rv_register_id w \<noteq> INVALID_RELAY_ID" "rv_is_key_init w"
    and "connect_server E (dir_server_cfg config) (dr_net w) = (fd, s)" "fd \<noteq> -1" "net_ok s fd"
    and "net_in s fd = handshake_reply S spk # confirmation_wire ks j t #
      symmetric_encrypt ks (padded_msg answer) 4096 # symmetric_encrypt ks (padded_msg bye) 4096 # rest"
    and "length answer \<le> 4096" "length bye \<le> 4096"
  obtains w' key where "signout_server E config w = Some (relay_success, w')" "rv_register_id w' = INVALID_RELAY_ID"
    "rv_server_key w' = Some key" "symmetric_key key = symmetric_key ks"
    "dr_net w' = close_fd fd (traffic fd rest (registration key pub (signout_request_bytes (rv_register_id w))) s)"
proof -
  let ?w = "w\<lparr>dr_net := s\<rparr>"
  have ready: "handshake_ready E S ?w cid pub ks" using assms(2) by (simp add: handshake_ready_def)
  obtain w1 where w1: "register_handshake E fd ?w = Some (relay_success, w1)" "handshake_ready E S w1 cid pub ks"
    "rv_is_key_init w1" "rv_register_id w1 = rv_register_id w"
    "dr_net w1 = traffic fd (symmetric_encrypt ks (padded_msg answer) 4096 #
       symmetric_encrypt ks (padded_msg bye) 4096 # rest) [handshake_request_wire prot_user_type_relay, padded_msg pub] s"
    using register_handshake_runs [OF assms(1) ready, of fd j t] assms(7,8) by fastforce
  obtain key where key: "rv_server_key w1 = Some key" "symmetric_key key = symmetric_key ks" 
    using w1(2,3) by (auto simp: handshake_ready_def)
  have ok: "net_ok (dr_net w1) fd" "net_in (dr_net w1) fd = symmetric_encrypt ks (padded_msg
      answer) 4096 # symmetric_encrypt ks (padded_msg bye) 4096 # rest"
    using assms(7) w1(5) by simp_all
  obtain w2 where w2: "register_signout fd key (rv_register_id w1) w1 = (relay_success, w2)"
    "after_net fd (symmetric_encrypt ks (padded_msg bye) 4096 # rest)
       [symmetric_encrypt key (padded_msg (signout_request_bytes (rv_register_id w1))) 4096] w1 w2"
    using register_signout_runs [OF ok(2,1) key(2) assms(9)] by blast
  note f2 = after_net_facts [OF w2(2)] after_net_vars [OF w2(2)]
  let ?w3 = "w2\<lparr>rv_register_id := INVALID_RELAY_ID\<rparr>"
  obtain w4 where w4: "register_exit fd key ?w3 = (relay_success, w4)"
    "after_net fd rest [symmetric_encrypt key (padded_msg (le16_bytes RELAY_COMMAND_EXIT)) 4096] ?w3 w4"
    using register_exit_runs [of ?w3 fd ks bye rest key] f2(1,2) ok(1) key(2) assms(10) by auto
  note f4 = after_net_facts [OF w4(2)] after_net_vars [OF w4(2)]
  have "signout_server E config w = Some (relay_success, close_dir fd w4)"
    using assms(3,5,6) w1(1,4) key(1) w2(1) w4(1) by (simp add: signout_server_def)
  then show thesis
    using f2 f4 key w1(4,5) after_net_traffic [OF w2(2)] after_net_traffic [OF w4(2)]
    by (intro that [of "close_dir fd w4" key]) (simp_all add: close_dir_def registration_def)
qed

definition sample_relay_vars :: "bytes list \<Rightarrow> relay_vars" where
  "sample_relay_vars inp = dir_run.extend (sample_dir_run inp) (relay_vars.fields None INVALID_RELAY_ID False)"

lemma sample_relay_vars [simp]:
  "dr_net (sample_relay_vars inp) = quiet_net\<lparr>net_connects := [(9, True)], net_in := (\<lambda>_. inp)\<rparr>"
  "dr_draws (sample_relay_vars inp) = [[5]]" "rv_register_id (sample_relay_vars inp) = INVALID_RELAY_ID"
  "\<not> rv_is_key_init (sample_relay_vars inp)"
  by (simp_all add: sample_relay_vars_def dir_run.defs relay_vars.defs sample_dir_run_def)

lemma drop_cut: "drop a xs = slice a n xs @ drop (n + a) xs"
  using append_take_drop_id [of n "drop a xs"] by (simp add: slice_def)

text \<open>The address a relay finds for itself and publishes is the one others dial: converting an interface's
  address to a descriptor and that back to a socket address gives the same bytes, for IPv4 and IPv6.\<close>

theorem own_address_dialled:
  assumes "length storage = 128" "length (sa_addr junk) = 16"
    and "get16 0 storage = ucast AF_INET \<and> drop 8 storage = replicate 120 0 \<or>
         get16 0 storage = ucast AF_INET6 \<and> slice 4 4 storage = replicate 4 0 \<and> drop 24 storage = replicate 104 0"
  shows "sockaddr_to_unix (convert_sock_addr junk storage) =
    (storage, if get16 0 storage = ucast AF_INET then 16 else 28)"
proof -
  have ne: "(ucast AF_INET :: u16) \<noteq> ucast AF_INET6" by (simp add: AF_INET_def AF_INET6_def)
  have p: "le16_bytes (get16 0 storage) = take 2 storage" "le16_bytes (get16 2 storage) = slice 2 2 storage"
    using assms(1) by (simp_all add: get16_def le16_bytes_le16 slice_def list_eq_iff_nth_eq less_Suc_eq nth_Cons' numeral_2_eq_2)
  from assms(3) show ?thesis
  proof
    assume f: "get16 0 storage = ucast AF_INET \<and> drop 8 storage = replicate 120 0"
    then have l: "le16_bytes (ucast AF_INET) = take 2 storage" using p(1) by simp
    have s: "storage = take 2 storage @ slice 2 2 storage @ slice 4 4 storage @ replicate 120 0"
      using drop_cut [of 2 storage 2] drop_cut [of 4 storage 4] conjunct2 [OF f] append_take_drop_id [of 2 storage] by simp
    have "fst (sockaddr_to_unix (convert_sock_addr junk storage)) =
        take 2 storage @ slice 2 2 storage @ slice 4 4 storage @ replicate 120 0"
      using f assms(1,2) l p(2)
      by (simp add: sockaddr_to_unix_def convert_sock_addr_def splice_def Let_def)
    then show ?thesis using f s by (simp add: prod_eq_iff sockaddr_to_unix_def convert_sock_addr_def Let_def)
  next
    assume f: "get16 0 storage = ucast AF_INET6 \<and> slice 4 4 storage = replicate 4 0 \<and> drop 24 storage = replicate 104 0"
    then have l: "le16_bytes (ucast AF_INET6) = take 2 storage" using p(1) by simp
    have s: "storage = take 2 storage @ slice 2 2 storage @ slice 4 4 storage @ slice 8 16 storage @ replicate 104 0"
      using drop_cut [of 2 storage 2] drop_cut [of 4 storage 4] drop_cut [of 8 storage 16] conjunct2 [OF conjunct2 [OF f]]
        append_take_drop_id [of 2 storage] by simp
    have "fst (sockaddr_to_unix (convert_sock_addr junk storage)) =
        take 2 storage @ slice 2 2 storage @ replicate 4 0 @ slice 8 16 storage @ replicate 104 0"
      using f ne assms(1,2) l p(2)
      by (simp add: sockaddr_to_unix_def convert_sock_addr_def splice_def AF_INET_def AF_INET6_def Let_def)
    then show ?thesis
      using f s ne by (simp add: prod_eq_iff sockaddr_to_unix_def convert_sock_addr_def AF_INET_def AF_INET6_def Let_def)
  qed
qed

lemma own_address_dialled_witness:
  "sockaddr_to_unix (convert_sock_addr (rd_sock_addr zero_descriptor) ([2, 0, 31, 144, 10, 0, 0, 7] @ replicate 120 0)) =
     ([2, 0, 31, 144, 10, 0, 0, 7] @ replicate 120 0, 16)"
proof -
  have "get16 0 ([2, 0, 31, 144, 10, 0, 0, 7] @ replicate 120 0) = ucast AF_INET"
    by (simp add: get16_def le16_def AF_INET_def)
  then show ?thesis
    using own_address_dialled [of "[2, 0, 31, 144, 10, 0, 0, 7] @ replicate 120 0" "rd_sock_addr zero_descriptor"]
    by (simp add: zero_descriptor_def)
qed

text \<open>A directory session of a client that fails before the server's answer is read frees a key that was never
  initialised: no connection loss at that point is handled.\<close>

theorem early_failure_frees_garbage:
  assumes "connect_server E config (dr_net w) = (fd, s)" "fd \<noteq> -1" "\<not> net_ok s fd \<or> net_in s fd = []"
  shows "gather_relay_map E config relay_amount w = None"
proof -
  let ?w = "w\<lparr>dr_net := s\<rparr>"
  have "\<exists>w'. query_handshake E fd ?w = Some (client_error, None, w')"
  proof (cases "net_ok s fd")
    case False
    then show ?thesis
      by (simp add: query_handshake_def on_dir_def dir_messages send_server_msg_def send_fd_def Let_def)
  next
    case True
    then have "net_in s fd = []" using assms(3) by simp
    then show ?thesis
      using True by (simp add: query_handshake_def on_dir_def dir_messages send_server_msg_def send_fd_def Let_def
          recv_server_handshake_res_def recv_server_msg_def read_buffer_def read_fd_def)
  qed
  then show ?thesis using assms(1,2) by (auto simp: gather_relay_map_def)
qed

lemma early_failure_frees_garbage_witness: "gather_relay_map sample_dir_env no_config 3 (sample_dir_run []) = None"
proof -
  have "connect_server sample_dir_env no_config (dr_net (sample_dir_run [])) =
      (9, quiet_net\<lparr>net_in := (\<lambda>_. []), net_dialed := [(replicate 128 0, 16)]\<rparr>)"
    by (simp add: sample_dir_run_def sample_connect_server)
  from early_failure_frees_garbage [OF this] show ?thesis by simp
qed

end
