(* ===== verification/Sessions.thy ===== *)
theory Sessions
  imports Server
begin

text \<open>
  The directory server with all its connections at once. \<open>accept_loop\<close> gives every connection a thread of
  its own running \<open>client_callback\<close>; the threads share the relay table and the table of keys, each call of
  which is atomic. The relation \<open>server_step\<close> interleaves the sessions message by message: a step is the
  end of a connection's handshake, the handling of one message by any of the sessions, or a change of
  the sockets from outside. A signup writes its descriptor after the table's mutex is released; that
  write belongs to the same step here.
\<close>

section \<open>Sessions and steps\<close>

text \<open>What a thread keeps between two messages: the pointer to its key, the handler's data, the buffer.\<close>

datatype user_session =
    Relay_user "nat \<times> nat" "nat option" bytes
  | Client_user "nat \<times> nat" nat bytes

type_synonym server_state = "(int \<Rightarrow> user_session option) \<times> server"

inductive server_step :: "server_env \<Rightarrow> server_state \<Rightarrow> server_state \<Rightarrow> bool" for E where
  relay_accepted: "add_socket (se_alloc E) (sv_context sv) fd key None = Some (r, c) \<Longrightarrow>
    get_sock_key c fd = Some keyp \<Longrightarrow> length buffer = 4096 \<Longrightarrow> ss fd = None \<Longrightarrow> 0 \<le> fd \<Longrightarrow> fd < 2 ^ 31 \<Longrightarrow>
    server_step E (ss, sv) (ss(fd \<mapsto> Relay_user keyp None buffer), sv\<lparr>sv_context := c\<rparr>)"
| client_accepted: "add_socket (se_alloc E) (sv_context sv) fd key None = Some (r, c) \<Longrightarrow>
    get_sock_key c fd = Some keyp \<Longrightarrow> length buffer = 4096 \<Longrightarrow> ss fd = None \<Longrightarrow> 0 \<le> fd \<Longrightarrow> fd < 2 ^ 31 \<Longrightarrow>
    server_step E (ss, sv) (ss(fd \<mapsto> Client_user keyp 0 buffer), sv\<lparr>sv_context := c\<rparr>)"
| relay_message: "ss fd = Some (Relay_user keyp rd buffer) \<Longrightarrow>
    relay_handle_message E fd rd keyp buffer sv = Some (ok, running, rd', buffer', sv') \<Longrightarrow>
    server_step E (ss, sv)
      (if ok \<and> running then (ss(fd \<mapsto> Relay_user keyp rd' buffer'), sv') else (ss(fd := None), end_session fd sv'))"
| client_message: "ss fd = Some (Client_user keyp start buffer) \<Longrightarrow>
    client_handle_message E fd start keyp buffer sv = Some (ok, running, start', buffer', sv') \<Longrightarrow>
    server_step E (ss, sv)
      (if ok \<and> running then (ss(fd \<mapsto> Client_user keyp start' buffer'), sv') else (ss(fd := None), end_session fd sv'))"
| outside: "server_step E (ss, sv) (ss, sv\<lparr>sv_net := s\<rparr>)"

text \<open>
  The states after \<open>init_relay_manager\<close> and \<open>init_socket_context\<close>, while the relay table has at most
  \<open>2 ^ 30\<close> items (16 GB of memory), which keeps its length within 32 bits.
\<close>

inductive server_reachable :: "server_env \<Rightarrow> server_state \<Rightarrow> bool" for E where
  started: "\<not> rm_initialized m \<Longrightarrow> \<not> sc_initialized c \<Longrightarrow>
    server_reachable E (\<lambda>_. None, \<lparr>sv_manager = init_relay_manager m, sv_context = init_socket_context c, sv_net = s\<rparr>)"
| step: "server_reachable E x \<Longrightarrow> items_length (sv_manager (snd x)) \<le> 2 ^ 30 \<Longrightarrow> server_step E x y \<Longrightarrow>
    server_reachable E y"

inductive_cases server_stepE: "server_step E (ss, sv) y"

section \<open>What a message keeps\<close>

text \<open>The relay table is consistent and every descriptor in it has the layout's sizes.\<close>

definition table_sound :: "relay_manager \<Rightarrow> bool" where
  "table_sound m \<longleftrightarrow> manager_ok m \<and> (\<forall>i \<in> live m. descriptor_ok (descriptor_at m i))"

lemma on_net_keeps: "on_net f sv = (ok, b, sv') \<Longrightarrow> sv_manager sv' = sv_manager sv \<and> sv_context sv' = sv_context sv"
  by (auto simp: on_net_def split: prod.splits)

lemma length_read_buffer: "read_buffer fd b s = (ok, b', s') \<Longrightarrow> length b' = length b"
  by (auto simp: read_buffer_def read_fd_def splice_def split: list.splits if_splits)

lemma length_decrypt: "length b = 4096 \<Longrightarrow> length (symmetric_decrypt key b 4096) = 4096"
  using symmetric_decrypt_ecb [of key b] by simp

lemma length_recv_enc:
  "on_net (recv_enc_server_msg fd b key) sv = (ok, b', sv') \<Longrightarrow> length b = 4096 \<Longrightarrow> length b' = 4096"
  by (auto simp: on_net_def recv_enc_server_msg_def length_decrypt dest: length_read_buffer split: prod.splits bool.splits)

text \<open>Every answer of the server is an encrypted message of full size, sent or not.\<close>

lemma length_send_enc: "send_enc_server_msg fd d key s = (ok, b, s') \<Longrightarrow> length d \<le> 4096 \<Longrightarrow> length b = 4096"
  using whole_block_roundtrip(2) [of "padded_msg d" 256 key key]
  by (auto simp: send_enc_server_msg_def splice_padded Let_def split: prod.splits)

lemmas answers = send_enc_relay_signup_response_def send_enc_relay_signout_response_def send_enc_relay_exit_response_def
  send_enc_client_relay_map_def

lemma length_answer:
  "on_net (send_enc_relay_signup_response fd key code i) sv = (ok, b, sv') \<Longrightarrow> length b = 4096"
  "on_net (send_enc_relay_signout_response fd key code) sv = (ok, b, sv') \<Longrightarrow> length b = 4096"
  "on_net (send_enc_relay_exit_response fd key code) sv = (ok, b, sv') \<Longrightarrow> length b = 4096"
  by (auto simp: answers on_net_def dest!: length_send_enc split: prod.splits)

text \<open>Writing one relay's descriptor changes no other.\<close>

lemma write_descriptor:
  assumes "manager_ok m" "i \<in> live m" "get_relay m i = Some a" "rm_heap m a = Some d"
    and m': "m' = m\<lparr>rm_heap := (rm_heap m)(a \<mapsto> d\<lparr>rd_descriptor := x\<rparr>)\<rparr>" and j: "j \<in> live m"
  shows "descriptor_at m' j = (if j = i then x else descriptor_at m j)"
proof -
  have g: "get_relay m' j = get_relay m j" for j by (simp add: m' get_relay_def)
  obtain b where b: "ri_data (items m ! j) = Some b" "get_relay m j = Some b" by (rule manager_cell [OF assms(1) j])
  have "ri_data (items m ! i) = Some a" using assms(2,3) by (simp add: live_def get_relay_def)
  then have "b = a \<longleftrightarrow> j = i" using cells_distinct [OF assms(1) j assms(2)] b(1) by auto
  then show ?thesis using g b assms(3) by (auto simp: descriptor_at_def item_data_def m')
qed

text \<open>What a signup leaves in the table.\<close>

lemma signup_effect:
  assumes ok: "manager_ok (sv_manager sv)" and "items_length (sv_manager sv) \<le> 2 ^ 30" "\<forall>n. se_alloc E n"
    and h: "handle_signup E fd None key buffer sv = Some (r, rd, b', sv')"
  obtains pk i where "get_other_public_key (se_gmp E) key (replicate 256 0) = Some pk"
    "manager_ok (sv_manager sv')" "i \<notin> live (sv_manager sv)" "live (sv_manager sv') = insert i (live (sv_manager sv))"
    "rd = get_relay (sv_manager sv') i"
    "descriptor_at (sv_manager sv') i = \<lparr>rd_sock_addr = signup_request_addr buffer, rd_public_key = pk\<rparr>"
    "\<forall>j \<in> live (sv_manager sv). descriptor_at (sv_manager sv') j = descriptor_at (sv_manager sv) j"
    "sv_context sv' = sv_context sv" "length b' = 4096"
proof -
  let ?m = "sv_manager sv"
  obtain i m1 where m1: "gen_relay (se_alloc E) ?m = Some (rm_next ?m, m1)" "manager_ok m1" "i \<notin> live ?m"
    "live m1 = insert i (live ?m)" "get_relay m1 i = Some (rm_next ?m)"
    "rm_heap m1 (rm_next ?m) = Some (zero_relay_data\<lparr>rd_relay_id := word_of_nat i\<rparr>)"
    "\<And>j. j \<in> live ?m \<Longrightarrow> get_relay m1 j = get_relay ?m j \<and> item_data m1 j = item_data ?m j"
    by (rule gen_relay_ok [where alloc_ok = "se_alloc E", OF ok assms(2)]) (use assms(3) in blast)+
  define d where "d = zero_relay_data\<lparr>rd_relay_id := word_of_nat i\<rparr>"
  have d: "rm_heap m1 (rm_next ?m) = Some d" using m1(6) by (simp add: d_def)
  have z: "rd_public_key (rd_descriptor d) = replicate 256 0" by (simp add: d_def zero_relay_data_def)
  obtain pk where pk: "get_other_public_key (se_gmp E) key (rd_public_key (rd_descriptor d)) = Some pk"
    and send: "on_net (send_enc_relay_signup_response fd key server_response_success (rd_relay_id d))
      (sv\<lparr>sv_manager := m1\<lparr>rm_heap := (rm_heap m1)(rm_next ?m \<mapsto>
        d\<lparr>rd_descriptor := \<lparr>rd_sock_addr = signup_request_addr buffer, rd_public_key = pk\<rparr>\<rparr>)\<rparr>\<rparr>) = (r, b', sv')"
    and a: "rd = Some (rm_next ?m)"
    using h m1(1) d by (auto simp: handle_signup_def Let_def split: Option.bind_splits prod.splits)
  let ?x = "\<lparr>rd_sock_addr = signup_request_addr buffer, rd_public_key = pk\<rparr>"
  define m2 where "m2 = m1\<lparr>rm_heap := (rm_heap m1)(rm_next ?m \<mapsto> d\<lparr>rd_descriptor := ?x\<rparr>)\<rparr>"
  note w = write_cell_ok [OF m1(2) d m2_def]
  have m2: "sv_manager sv' = m2" "sv_context sv' = sv_context sv" using on_net_keeps [OF send] by (simp_all add: m2_def)
  have i: "i \<in> live m1" using m1(4) by simp
  note at = write_descriptor [OF m1(2) i m1(5) d m2_def]
  have "descriptor_at m1 j = descriptor_at ?m j" if "j \<in> live ?m" for j
    using m1(7) [OF that] by (simp add: descriptor_at_def)
  then have "descriptor_at m2 j = descriptor_at ?m j" if "j \<in> live ?m" for j
    using at [of j] that m1(3,4) by auto
  moreover have "get_relay m2 i = Some (rm_next ?m)" using m1(5) by (simp add: m2_def get_relay_def split: if_splits)
  ultimately show thesis
    using that [of pk i] pk z w m1(3,4) at [OF i] a m2 length_answer(1) [OF send] by simp
qed

lemma export_unique:
  assumes "gmp_documented G" "val < 256 ^ 256" "length out = 256" "length out' = 256"
  shows "export_mpz_fixed G out val 256 = export_mpz_fixed G out' val 256"
proof -
  obtain bs where bs: "export_mpz_fixed G out val 256 = Some bs" "length bs = 256" "le_value bs = val"
    by (rule export_fixed [OF assms(1-3)])
  obtain cs where "export_mpz_fixed G out' val 256 = Some cs" "length cs = 256" "le_value cs = val"
    by (rule export_fixed [OF assms(1,2,4)])
  then show ?thesis using bs le_value_inj [of bs cs] by simp
qed

lemma length_other_public: "get_other_public_key G key out = Some pk \<Longrightarrow> length out = 256 \<Longrightarrow> length pk = 256"
  by (simp add: get_other_public_key_def get_dh_key_other_public_def DH_KEY_BYTES_def) (erule (1) length_export)

lemma sound_signup:
  assumes t: "table_sound (sv_manager sv)" "items_length (sv_manager sv) \<le> 2 ^ 30" "\<forall>n. se_alloc E n" "length buffer = 4096"
    and h: "handle_signup E fd rd key buffer sv = Some (ok, rd', b', sv')"
  shows "table_sound (sv_manager sv') \<and> sv_context sv' = sv_context sv \<and> length b' = 4096"
proof (cases rd)
  case (Some a)
  then show ?thesis using assms by (simp add: handle_signup_def)
next
  case None
  have ok: "manager_ok (sv_manager sv)" using t(1) by (simp add: table_sound_def)
  obtain pk i where e: "get_other_public_key (se_gmp E) key (replicate 256 0) = Some pk"
    "manager_ok (sv_manager sv')" "i \<notin> live (sv_manager sv)" "live (sv_manager sv') = insert i (live (sv_manager sv))"
    "rd' = get_relay (sv_manager sv') i"
    "descriptor_at (sv_manager sv') i = \<lparr>rd_sock_addr = signup_request_addr buffer, rd_public_key = pk\<rparr>"
    "\<forall>j \<in> live (sv_manager sv). descriptor_at (sv_manager sv') j = descriptor_at (sv_manager sv) j"
    "sv_context sv' = sv_context sv" "length b' = 4096"
    by (rule signup_effect [OF ok t(2,3) h [unfolded None]])
  have "descriptor_ok (descriptor_at (sv_manager sv') i)"
    using length_other_public [OF e(1)] t(4)
    by (simp add: e(6) descriptor_ok_def sock_addr_ok_def signup_request_addr_def sock_addr_of_def slice_def)
  then show ?thesis using e t(1) by (auto simp: table_sound_def)
qed

lemma sound_remove:
  assumes "table_sound m" "remove_relay alloc_ok m i = Some (r, m')" "\<forall>n. alloc_ok n"
  shows "table_sound m'"
proof (cases "i \<in> live m")
  case True
  have ok: "manager_ok m" using assms(1) by (simp add: table_sound_def)
  obtain m1 where m1: "remove_relay alloc_ok m i = Some (True, m1)" "manager_ok m1" "live m1 = live m - {i}"
    "\<And>j. j \<in> live m \<Longrightarrow> j \<noteq> i \<Longrightarrow> get_relay m1 j = get_relay m j \<and> item_data m1 j = item_data m j"
    by (rule remove_relay_ok [where alloc_ok = alloc_ok, OF ok True]) (use assms(3) in blast)+
  then show ?thesis using assms(1,2) by (auto simp: table_sound_def descriptor_at_def)
next
  case False
  moreover have "i < items_length m"
    using assms(1,2) by (auto simp: remove_relay_def table_sound_def manager_okD split: if_splits)
  ultimately have "m' = m" using remove_relay_absent [of m i alloc_ok] assms(1,2) by (simp add: table_sound_def)
  then show ?thesis using assms(1) by simp
qed

lemma sound_signout:
  assumes t: "table_sound (sv_manager sv)" and al: "\<forall>n. se_alloc E n"
    and h: "handle_signout E fd rd key buffer sv = Some (ok, rd', b', sv')"
  shows "table_sound (sv_manager sv') \<and> sv_context sv' = sv_context sv \<and> length b' = 4096"
proof -
  have send: "sv_manager sv2 = sv_manager sv1 \<and> sv_context sv2 = sv_context sv1 \<and> length b = 4096"
    if "on_net (send_enc_relay_signout_response fd key code) sv1 = (r, b, sv2)" for code sv1 r b sv2
    using on_net_keeps [OF that] length_answer(2) [OF that] by simp
  have removed: "table_sound m" if "remove_relay (se_alloc E) (sv_manager sv) i = Some (r, m)" for i r m
    by (rule sound_remove [OF t that al])
  from h show ?thesis
    unfolding handle_signout_def
    by (auto simp: Let_def t dest!: send removed split: option.splits Option.bind_splits prod.splits if_splits)
qed

lemma sound_exit:
  "on_net (send_enc_relay_exit_response fd key code) sv = (ok, b, sv') \<Longrightarrow>
   sv_manager sv' = sv_manager sv \<and> sv_context sv' = sv_context sv \<and> length b = 4096"
  using on_net_keeps [of "send_enc_relay_exit_response fd key code" sv] length_answer(3) by blast

definition local_relays_ok :: "server_env \<Rightarrow> bool" where
  "local_relays_ok E \<longleftrightarrow> length (se_junk_relays E) = 14 \<and> (\<forall>d \<in> set (se_junk_relays E). descriptor_ok d)"

text \<open>The relays a map is built from: the live ones found, then what the local array held.\<close>

lemma map_answer:
  assumes t: "table_sound (sv_manager sv)" and j: "local_relays_ok E"
  obtains found start' ok b sv' where
    "get_relay_batch (sv_manager sv) start 14 = Some (found, start')"
    "handle_get_relay_map E fd start key sv = Some (ok, u32n (start' + length found), b, sv')"
    "sv_manager sv' = sv_manager sv" "sv_context sv' = sv_context sv" "length b = 4096"
    "length (found @ drop (length found) (se_junk_relays E)) = 14"
    "\<forall>d \<in> set (found @ drop (length found) (se_junk_relays E)). descriptor_ok d"
    "net_ok (sv_net sv) fd \<Longrightarrow> ok"
proof -
  let ?m = "sv_manager sv"
  obtain found start' where b: "get_relay_batch ?m start 14 = Some (found, start')" and
    f: "found = map (descriptor_at ?m) (take 14 (filter (\<lambda>j. j \<in> live ?m) (ring_from (items_length ?m) (start mod items_length ?m) (items_length ?m))))"
    using t get_relay_batch_spec [of ?m start 14] by (simp add: table_sound_def)
  let ?ds = "found @ drop (length found) (se_junk_relays E)"
  have l: "length found \<le> 14" by (simp add: f)
  have ds: "length ?ds = 14" "\<forall>d \<in> set ?ds. descriptor_ok d"
    using l t j by (auto simp: f local_relays_ok_def table_sound_def dest: in_set_takeD in_set_dropD)
  have u: "unat (word_of_nat (length found) :: u16) = length found"
    using l by (simp add: unsigned_of_nat take_bit_eq_mod)
  obtain ok b' sv' where s: "on_net (send_enc_client_relay_map fd key (word_of_nat (length found)) ?ds server_response_success) sv = (ok, b', sv')"
    by (metis prod_cases3)
  then obtain d s' where d: "send_enc_server_msg fd d key (sv_net sv) = (ok, b', s')" "length d \<le> 4096"
    using map_read_back(1) [OF ds]
    by (auto simp: on_net_def send_enc_client_relay_map_def simp del: set_append length_append split: prod.splits)
  have "length b' = 4096" by (rule length_send_enc [OF d])
  moreover have "ok" if "net_ok (sv_net sv) fd" using d(1) send_enc_server_msg_out [OF d(2) that] by simp
  ultimately
  show thesis
    using that [OF b, of ok b' sv'] on_net_keeps [OF s] b s u ds by (simp add: handle_get_relay_map_def)
qed

lemma sound_relay_message:
  assumes t: "table_sound (sv_manager sv)" "items_length (sv_manager sv) \<le> 2 ^ 30" and al: "\<forall>n. se_alloc E n"
    and b: "length buffer = 4096"
    and h: "relay_handle_message E fd rd keyp buffer sv = Some (ok, running, rd', b', sv')"
  shows "table_sound (sv_manager sv') \<and> sv_context sv' = sv_context sv \<and> length b' = 4096"
proof -
  obtain key where key: "read_key (sv_context sv) keyp = Some key"
    using h by (cases "read_key (sv_context sv) keyp") (simp_all add: relay_handle_message_def)
  obtain r b1 sv1 where r: "on_net (recv_enc_server_msg fd buffer key) sv = (r, b1, sv1)" by (metis prod_cases3)
  note k = on_net_keeps [OF r] length_recv_enc [OF r b]
  have t1: "table_sound (sv_manager sv1)" "items_length (sv_manager sv1) \<le> 2 ^ 30" using k t by simp_all
  note m = sound_signup [OF t1 al k(2)] sound_signout [OF t1(1) al]
  show ?thesis
    using h key r k t1 by (cases r) (auto simp: relay_handle_message_def Let_def relay_handle_exit_def
        dest: m sound_exit split: if_splits prod.splits)
qed

lemma sound_client_message:
  assumes t: "table_sound (sv_manager sv)" "local_relays_ok E" and b: "length buffer = 4096"
    and h: "client_handle_message E fd start keyp buffer sv = Some (ok, running, start', b', sv')"
  shows "sv_manager sv' = sv_manager sv \<and> sv_context sv' = sv_context sv \<and> length b' = 4096"
proof -
  obtain key where key: "read_key (sv_context sv) keyp = Some key"
    using h by (cases "read_key (sv_context sv) keyp") (simp_all add: client_handle_message_def)
  obtain r b1 sv1 where r: "on_net (recv_enc_server_msg fd buffer key) sv = (r, b1, sv1)" by (metis prod_cases3)
  note k = on_net_keeps [OF r] length_recv_enc [OF r b]
  have "table_sound (sv_manager sv1)" using k t by simp
  then obtain st ok1 b2 sv2 where "handle_get_relay_map E fd start key sv1 = Some (ok1, st, b2, sv2)"
    "sv_manager sv2 = sv_manager sv1" "sv_context sv2 = sv_context sv1" "length b2 = 4096"
    by (rule map_answer [OF _ t(2)])
  then show ?thesis
    using h key r k by (cases r) (auto simp: client_handle_message_def Let_def client_handle_exit_def
        dest: sound_exit split: if_splits prod.splits)
qed

section \<open>The invariant of all sessions\<close>

fun session_key :: "user_session \<Rightarrow> nat \<times> nat" where
  "session_key (Relay_user keyp rd buffer) = keyp"
| "session_key (Client_user keyp start buffer) = keyp"

fun session_buffer :: "user_session \<Rightarrow> bytes" where
  "session_buffer (Relay_user keyp rd buffer) = buffer"
| "session_buffer (Client_user keyp start buffer) = buffer"

definition user_ok :: "unit socket_context \<Rightarrow> int \<Rightarrow> user_session \<Rightarrow> bool" where
  "user_ok c fd u \<longleftrightarrow> 0 \<le> fd \<and> fd < 2 ^ 31 \<and> snd (session_key u) = nat fd \<and>
     length (session_buffer u) = 4096 \<and> sock_lookup c (nat fd) \<noteq> None"

definition sessions_ok :: "server_state \<Rightarrow> bool" where
  "sessions_ok x \<longleftrightarrow> (case x of (ss, sv) \<Rightarrow>
     table_sound (sv_manager sv) \<and> context_ok (sv_context sv) \<and>
     (\<forall>fd u. ss fd = Some u \<longrightarrow> user_ok (sv_context sv) fd u))"

lemma sessions_okD:
  assumes "sessions_ok (ss, sv)"
  shows "table_sound (sv_manager sv)" "context_ok (sv_context sv)" "ss fd = Some u \<Longrightarrow> user_ok (sv_context sv) fd u"
  using assms by (simp_all add: sessions_ok_def)

lemma sessions_okI:
  assumes "table_sound (sv_manager sv)" "context_ok (sv_context sv)"
    and "\<And>fd u. ss fd = Some u \<Longrightarrow> user_ok (sv_context sv) fd u"
  shows "sessions_ok (ss, sv)"
  using assms by (simp add: sessions_ok_def)

lemma sessions_accept:
  assumes ok: "sessions_ok (ss, sv)" and al: "\<forall>n. alloc_ok n" and fd: "0 \<le> fd" "fd < 2 ^ 31"
    and a: "add_socket alloc_ok (sv_context sv) fd key None = Some (r, c)" "get_sock_key c fd = Some (session_key u)"
    and u: "length (session_buffer u) = 4096"
  shows "sessions_ok (ss(fd \<mapsto> u), sv\<lparr>sv_context := c\<rparr>)"
proof (rule sessions_okI)
  note i = fd_index_valid [OF fd]
  let ?c = "sv_context sv"
  obtain c' where c': "add_socket alloc_ok ?c fd key None = Some (fd_index fd \<notin> used_socks ?c, c')"
    "context_ok c'" "sock_lookup c' = (if fd_index fd \<in> used_socks ?c then sock_lookup ?c
       else (sock_lookup ?c)(fd_index fd \<mapsto> (key, None)))"
    by (rule add_socket_ok [where alloc_ok = alloc_ok, OF sessions_okD(2) [OF ok] i [THEN conjunct2] al])
  then have c: "c = c'" using a(1) by simp
  have "sock_lookup c k \<noteq> None" if "sock_lookup ?c k \<noteq> None" for k
    using that c'(3) c by simp
  then have old: "user_ok ?c k v \<Longrightarrow> user_ok c k v" for k v by (simp only: user_ok_def) blast
  have "sock_lookup c (nat fd) \<noteq> None" using c'(3) c i by (simp add: sock_lookup_def)
  moreover have "snd (session_key u) = nat fd" using a(2) i by (auto simp: get_sock_key_def dest: sym split: if_splits)
  ultimately have new: "user_ok c fd u" using fd u by (simp only: user_ok_def) blast
  show "table_sound (sv_manager (sv\<lparr>sv_context := c\<rparr>))" using sessions_okD(1) [OF ok] by simp
  show "context_ok (sv_context (sv\<lparr>sv_context := c\<rparr>))" using c'(2) c by simp
  show "user_ok (sv_context (sv\<lparr>sv_context := c\<rparr>)) k v" if "(ss(fd \<mapsto> u)) k = Some v" for k v
    using that old sessions_okD(3) [OF ok] new by (cases "k = fd") simp_all
qed

lemma sessions_close:
  assumes ok: "sessions_ok (ss, sv)" and fd: "0 \<le> fd" "fd < 2 ^ 31"
    and sv': "table_sound (sv_manager sv')" "sv_context sv' = sv_context sv"
  shows "sessions_ok (ss(fd := None), end_session fd sv')"
proof (rule sessions_okI)
  note i = fd_index_valid [OF fd]
  obtain c where c: "free_socket (sv_context sv) fd False = (c, [])" "context_ok c"
    "sock_lookup c = (sock_lookup (sv_context sv))(nat fd := None)"
    using free_socket_ok [OF sessions_okD(2) [OF ok], of fd False] i by auto
  have e: "sv_manager (end_session fd sv') = sv_manager sv'" "sv_context (end_session fd sv') = c"
    using sv'(2) c(1) by (simp_all add: end_session_def)
  show "table_sound (sv_manager (end_session fd sv'))" "context_ok (sv_context (end_session fd sv'))"
    using sv'(1) c(2) e by simp_all
  show "user_ok (sv_context (end_session fd sv')) k v" if "(ss(fd := None)) k = Some v" for k v
  proof -
    have k: "k \<noteq> fd" "user_ok (sv_context sv) k v" using that sessions_okD(3) [OF ok] by (simp_all split: if_splits)
    then have "nat k \<noteq> nat fd" using fd by (simp add: user_ok_def nat_eq_iff)
    then show ?thesis using k(2) by (simp add: user_ok_def e c(3))
  qed
qed

lemma sessions_go_on:
  assumes "sessions_ok (ss, sv)" "ss fd = Some u" "session_key u' = session_key u" "length (session_buffer u') = 4096"
    and "table_sound (sv_manager sv')" "sv_context sv' = sv_context sv"
  shows "sessions_ok (ss(fd \<mapsto> u'), sv')"
proof (rule sessions_okI)
  show "user_ok (sv_context sv') k v" if "(ss(fd \<mapsto> u')) k = Some v" for k v
    using that sessions_okD(3) [OF assms(1), of k v] sessions_okD(3) [OF assms(1,2)] assms(3,4,6)
    by (cases "k = fd") (auto simp: user_ok_def)
qed (use assms sessions_okD(2) [OF assms(1)] in simp_all)

lemma sessions_step:
  assumes "server_step E x y" "sessions_ok x" "items_length (sv_manager (snd x)) \<le> 2 ^ 30"
    and al: "\<forall>n. se_alloc E n" and lr: "local_relays_ok E"
  shows "sessions_ok y"
  using assms(1-3)
proof (induction rule: server_step.induct)
  case (relay_accepted sv fd key r c keyp buffer ss)
  then show ?case using sessions_accept [OF _ al, of ss sv fd key r c "Relay_user keyp None buffer"] by simp
next
  case (client_accepted sv fd key r c keyp buffer ss)
  then show ?case using sessions_accept [OF _ al, of ss sv fd key r c "Client_user keyp 0 buffer"] by simp
next
  case (relay_message ss fd keyp rd buffer sv ok running rd' buffer' sv')
  then have u: "0 \<le> fd" "fd < 2 ^ 31" "length buffer = 4096" "table_sound (sv_manager sv)"
    using sessions_okD(1,3) [OF relay_message(3)] relay_message(1) by (fastforce simp: user_ok_def)+
  have s: "table_sound (sv_manager sv')" "sv_context sv' = sv_context sv" "length buffer' = 4096"
    using sound_relay_message [OF u(4) _ al u(3) relay_message(2)] relay_message(4) by simp_all
  show ?case
    using sessions_go_on [OF relay_message(3,1), of "Relay_user keyp rd' buffer'"] sessions_close [OF relay_message(3) u(1,2) s(1,2)] s by simp
next
  case (client_message ss fd keyp start buffer sv ok running start' buffer' sv')
  then have u: "0 \<le> fd" "fd < 2 ^ 31" "length buffer = 4096" "table_sound (sv_manager sv)"
    using sessions_okD(1,3) [OF client_message(3)] client_message(1) by (fastforce simp: user_ok_def)+
  have s: "sv_manager sv' = sv_manager sv" "sv_context sv' = sv_context sv" "length buffer' = 4096"
    using sound_client_message [OF u(4) lr u(3) client_message(2)] by simp_all
  show ?case
    using sessions_go_on [OF client_message(3,1), of "Client_user keyp start' buffer'"]
      sessions_close [OF client_message(3) u(1,2), of sv'] s u(4) by simp
next
  case (outside ss sv s)
  then show ?case by (simp add: sessions_ok_def)
qed

lemma sessions_reachable:
  assumes "server_reachable E x" "\<forall>n. se_alloc E n" "local_relays_ok E"
  shows "sessions_ok x"
  using assms(1)
proof (induction rule: server_reachable.induct)
  case (started m c s)
  then show ?case using init_manager_ok [OF started(1)] init_context_ok [OF started(2)]
    by (simp add: sessions_ok_def table_sound_def)
next
  case (step x y)
  then show ?case using sessions_step assms(2,3) by blast
qed

section \<open>The code's loops are runs of these steps\<close>

lemma relay_loop_steps:
  "relay_loop E fd keyp rd buffer sv = Some r \<Longrightarrow> ss fd = Some (Relay_user keyp rd buffer) \<Longrightarrow>
   (server_step E)\<^sup>*\<^sup>* (ss, sv) (ss(fd := None), snd r)"
proof (induction arbitrary: ss rule: relay_loop.raw_induct [rotated, consumes 1, case_names loop])
  case (loop relay_loop E fd keyp rd buffer sv r)
  obtain ok running rd' buffer' sv' where m: "relay_handle_message E fd rd keyp buffer sv = Some (ok, running, rd', buffer', sv')"
    using loop(2) by (cases "relay_handle_message E fd rd keyp buffer sv") auto
  note st = server_step.relay_message [of ss fd keyp rd buffer E sv, OF loop(3) m]
  show ?case
  proof (cases "ok \<and> running")
    case False
    then have "r = (ok, end_session fd sv')" using loop(2) m by (auto split: if_splits)
    then show ?thesis using r_into_rtranclp [of "server_step E", OF st] False by (simp add: fun_upd_def)
  next
    case True
    let ?ss = "ss(fd \<mapsto> Relay_user keyp rd' buffer')"
    have "relay_loop E fd keyp rd' buffer' sv' = Some r" using loop(2) m True by simp
    from loop(1) [OF this, of ?ss] have "(server_step E)\<^sup>*\<^sup>* (?ss, sv') (ss(fd := None), snd r)"
      by (simp add: fun_upd_def cong: if_cong)
    moreover have "server_step E (ss, sv) (?ss, sv')" using st True by simp
    ultimately show ?thesis by (rule converse_rtranclp_into_rtranclp [rotated])
  qed
qed

lemma client_loop_steps:
  "client_loop E fd keyp start buffer sv = Some r \<Longrightarrow> ss fd = Some (Client_user keyp start buffer) \<Longrightarrow>
   (server_step E)\<^sup>*\<^sup>* (ss, sv) (ss(fd := None), snd r)"
proof (induction arbitrary: ss rule: client_loop.raw_induct [rotated, consumes 1, case_names loop])
  case (loop client_loop E fd keyp start buffer sv r)
  obtain ok running start' buffer' sv' where m: "client_handle_message E fd start keyp buffer sv = Some (ok, running, start', buffer', sv')"
    using loop(2) by (cases "client_handle_message E fd start keyp buffer sv") auto
  note st = server_step.client_message [of ss fd keyp start buffer E sv, OF loop(3) m]
  show ?case
  proof (cases "ok \<and> running")
    case False
    then have "r = (ok, end_session fd sv')" using loop(2) m by (auto split: if_splits)
    then show ?thesis using r_into_rtranclp [of "server_step E", OF st] False by (simp add: fun_upd_def)
  next
    case True
    let ?ss = "ss(fd \<mapsto> Client_user keyp start' buffer')"
    have "client_loop E fd keyp start' buffer' sv' = Some r" using loop(2) m True by simp
    from loop(1) [OF this, of ?ss] have "(server_step E)\<^sup>*\<^sup>* (?ss, sv') (ss(fd := None), snd r)"
      by (simp add: fun_upd_def cong: if_cong)
    moreover have "server_step E (ss, sv) (?ss, sv')" using st True by simp
    ultimately show ?thesis by (rule converse_rtranclp_into_rtranclp [rotated])
  qed
qed

text \<open>After \<open>add_socket\<close> the descriptor has an entry, new or old.\<close>

lemma resize_length_bound: "resize_length i len = Some len' \<Longrightarrow> i < len'"
  by (induction rule: resize_length.raw_induct [rotated, consumes 1]) (simp split: if_splits)

lemma add_socket_key:
  assumes "add_socket alloc_ok c fd key data = Some (r, c')"
  obtains keyp where "get_sock_key c' fd = Some keyp"
proof -
  obtain c1 where c1: "(if length (key_list c) \<le> fd_index fd then resize_key_list alloc_ok c fd else Some c) = Some c1"
    using assms by (auto simp: add_socket_def split: Option.bind_splits)
  then have l: "fd_index fd < length (key_list c1)"
    using resize_length_bound
    by (auto simp: resize_key_list_def split: if_splits Option.bind_splits dest!: resize_length_bound)
  have "is_valid_socket c' fd"
  proof (cases "ks_exists (key_list c1 ! fd_index fd)")
    case True
    then show ?thesis using assms c1 l by (simp add: add_socket_def is_valid_socket_def)
  next
    case False
    then show ?thesis using assms c1 l by (auto simp: add_socket_def is_valid_socket_def)
  qed
  then show thesis using that by (simp add: get_sock_key_def)
qed

lemma session_steps:
  assumes "add_socket (se_alloc E) (sv_context sv1) fd key None = Some (r, c)" "length buffer = 4096"
    and "ss fd = None" "0 \<le> fd" "fd < 2 ^ 31" "sv1 = sv\<lparr>sv_net := s\<rparr>"
    and "process_client E fd buffer (sv1\<lparr>sv_context := c\<rparr>) = Some x \<or> process_relay E fd buffer (sv1\<lparr>sv_context := c\<rparr>) = Some x"
  shows "(server_step E)\<^sup>*\<^sup>* (ss, sv) (ss, snd x)"
proof -
  obtain keyp where k: "get_sock_key c fd = Some keyp" by (rule add_socket_key [OF assms(1)])
  have o: "server_step E (ss, sv) (ss, sv1)" using server_step.outside [of E ss sv s] assms(6) by simp
  note a = server_step.relay_accepted [where ss = ss, OF assms(1) k assms(2-5)]
    server_step.client_accepted [where ss = ss, OF assms(1) k assms(2-5)]
  let ?r = "ss(fd \<mapsto> Relay_user keyp None buffer)" and ?c = "ss(fd \<mapsto> Client_user keyp 0 buffer)"
  have e: "ss(fd := None) = ss" using assms(3) by (auto simp: fun_eq_iff)
  have "(server_step E)\<^sup>*\<^sup>* (?c, sv1\<lparr>sv_context := c\<rparr>) (ss, snd x) \<or> (server_step E)\<^sup>*\<^sup>* (?r, sv1\<lparr>sv_context := c\<rparr>) (ss, snd x)"
    using assms(7) relay_loop_steps [of E fd keyp None buffer "sv1\<lparr>sv_context := c\<rparr>" x ?r]
      client_loop_steps [of E fd keyp 0 buffer "sv1\<lparr>sv_context := c\<rparr>" x ?c] k
    by (auto simp: process_client_def process_relay_def e)
  then show ?thesis using o a by (meson converse_rtranclp_into_rtranclp)
qed

text \<open>A connection that fails in its handshake touches the sockets only; else its key is entered and its handler runs.\<close>

lemma request_user: "recv_handshake_request fd b s = (True, request, b', s') \<Longrightarrow>
   hr_user_type request = prot_user_type_client \<or> hr_user_type request = prot_user_type_relay"
  by (auto simp: recv_handshake_request_def Let_def split: prod.splits bool.splits)

lemma length_confirmation: "send_handshake_confirmation fd key i s = (ok, b, s') \<Longrightarrow> length b = 4096"
  by (auto simp: send_handshake_confirmation_def confirmation_bytes_def SERVER_HANDSHAKE_V1_MAGIC_def
      dest!: length_send_enc)

lemma callback_cases:
  assumes "client_callback E fd buffer sv = Some sv'"
  obtains s where "sv' = sv\<lparr>sv_net := s\<rparr>"
  | s key r c b x where "add_socket (se_alloc E) (sv_context (sv\<lparr>sv_net := s\<rparr>)) fd key None = Some (r, c)" "length b = 4096"
    "process_client E fd b (sv\<lparr>sv_net := s\<rparr>\<lparr>sv_context := c\<rparr>) = Some x \<or>
     process_relay E fd b (sv\<lparr>sv_net := s\<rparr>\<lparr>sv_context := c\<rparr>) = Some x" "sv' = snd x"
  using assms unfolding client_callback_def Let_def
  by (fastforce simp: on_net_def close_user_def dest: length_confirmation request_user
      split: prod.splits if_splits Option.bind_splits)

lemma callback_steps:
  assumes "client_callback E fd buffer sv = Some sv'" "ss fd = None" "0 \<le> fd" "fd < 2 ^ 31"
  shows "(server_step E)\<^sup>*\<^sup>* (ss, sv) (ss, sv')"
  using assms(1)
proof (cases rule: callback_cases)
  case (1 s)
  then show ?thesis using server_step.outside [of E ss sv s] by auto
next
  case (2 s key r c b x)
  then show ?thesis using session_steps [where ss = ss, OF 2(1,2) assms(2-4), where sv = sv and s = s and x = x] 2(3,4) by simp
qed

section \<open>Properties\<close>

text \<open>C16. However many relays and clients are connected and in whatever order their messages arrive, the server's
  tables stay sound: the relay table is consistent, every relay in it has a descriptor that fits the
  layout, and every open session has its entry in the table of keys.\<close>

theorem server_tables_sound:
  assumes "server_reachable E (ss, sv)" "\<forall>n. se_alloc E n" "local_relays_ok E"
  shows "manager_ok (sv_manager sv) \<and> context_ok (sv_context sv) \<and>
    (\<forall>i \<in> live (sv_manager sv). descriptor_ok (descriptor_at (sv_manager sv) i)) \<and>
    (\<forall>fd. ss fd \<noteq> None \<longrightarrow> 0 \<le> fd \<and> sock_lookup (sv_context sv) (nat fd) \<noteq> None)"
proof -
  note ok = sessions_okD [OF sessions_reachable [OF assms]]
  have "0 \<le> fd \<and> sock_lookup (sv_context sv) (nat fd) \<noteq> None" if "ss fd \<noteq> None" for fd
    using ok(3) that by (auto simp: user_ok_def)
  then show ?thesis using ok(1,2) by (simp add: table_sound_def)
qed

text \<open>A connected relay on descriptor 4.\<close>

lemma sample_reachable:
  obtains ss sv where "server_reachable sample_env (ss, sv)" "ss 4 \<noteq> None" "sv_net sv = quiet_net"
    "live (sv_manager sv) = {}"
proof -
  let ?sv = "\<lparr>sv_manager = init_relay_manager blank_manager, sv_context = init_socket_context blank_context, sv_net = quiet_net\<rparr>"
  have r0: "server_reachable sample_env (\<lambda>_. None, ?sv)"
    by (rule server_reachable.started) (simp_all add: blank_manager_def blank_context_def)
  obtain c where c: "add_socket (se_alloc sample_env) (sv_context ?sv) 4 sample_key None = Some (True, c)"
    by (rule add_socket_ok [where alloc_ok = "se_alloc sample_env", OF blank_context_ok(1), of 4 sample_key None])
       (simp_all add: fd_index_def blank_context_ok)
  obtain keyp where "get_sock_key c 4 = Some keyp" by (rule add_socket_key [OF c])
  from server_step.relay_accepted [where ss = "\<lambda>_. None", OF c this length_replicate] r0
  have "server_reachable sample_env ((\<lambda>_. None)(4 \<mapsto> Relay_user keyp None (replicate 4096 0)), ?sv\<lparr>sv_context := c\<rparr>)"
    by (intro server_reachable.step [OF r0]) (simp_all add: blank_manager_ok)
  then show thesis by (rule that) (simp_all add: blank_manager_ok)
qed

lemma sample_local_relays: "local_relays_ok sample_env"
  by (simp add: local_relays_ok_def)

lemma server_tables_sound_witness:
  "\<exists>sv :: server. manager_ok (sv_manager sv) \<and> sock_lookup (sv_context sv) (nat 4) \<noteq> None"
proof -
  obtain ss sv where r: "server_reachable sample_env (ss, sv)" "ss 4 \<noteq> None" by (rule sample_reachable)
  have "\<forall>n. se_alloc sample_env n" by simp
  from server_tables_sound [OF r(1) this sample_local_relays] r(2) show ?thesis by blast
qed

text \<open>C17. The thread of one connection, run without interruption, is a run of the interleaving relation: every
  way through \<open>client_callback\<close>, from the handshake to the end of the handler's loop, failures included, is
  a sequence of its steps that ends with the connection's session closed.\<close>

theorem callback_refines_steps:
  assumes "client_callback E fd buffer sv = Some sv'" "ss fd = None" "0 \<le> fd" "fd < 2 ^ 31"
  shows "(server_step E)\<^sup>*\<^sup>* (ss, sv) (ss, sv')"
  using assms by (rule callback_steps)

lemma callback_refines_steps_witness:
  "\<exists>sv'. (server_step sample_env)\<^sup>*\<^sup>* (\<lambda>_. None, sample_server blank_manager) (\<lambda>_. None, sv') \<and>
     net_closed (sv_net sv') = net_closed quiet_net @ [4]"
proof -
  have "client_callback sample_env 4 (replicate 4096 0) (sample_server blank_manager) =
      Some (close_user 4 (sample_server blank_manager))"
    by (simp add: client_callback_def recv_handshake_request_def recv_server_msg_def read_buffer_def read_fd_def
        sample_server_def quiet_net_def)
  from callback_refines_steps [where ss = "\<lambda>_. None", OF this refl]
  show ?thesis by (intro exI [of _ "close_user 4 (sample_server blank_manager)"])
    (simp add: close_user_def close_fd_def sample_server_def)
qed





section \<open>Client sessions end\<close>

text \<open>What is still to be read from a socket; every read that succeeds takes something away.\<close>

definition unread :: "int \<Rightarrow> net \<Rightarrow> nat" where
  "unread fd s = length (concat (net_in s fd)) + length (net_in s fd)"

lemma read_takes: "read_fd fd n s = (Some data, s') \<Longrightarrow> 0 < n \<Longrightarrow> unread fd s' < unread fd s"
  by (auto simp: read_fd_def unread_def split: list.splits if_splits)

lemma read_closed: "read_fd fd n s = (r, s') \<Longrightarrow> net_closed s' = net_closed s"
  by (auto simp: read_fd_def split: list.splits if_splits)

lemma recv_takes:
  assumes "on_net (recv_enc_server_msg fd b key) sv = (ok, b', sv')" "length b = 4096"
  shows "net_closed (sv_net sv') = net_closed (sv_net sv)" "ok \<Longrightarrow> unread fd (sv_net sv') < unread fd (sv_net sv)"
  using assms read_takes [of fd 4096 "sv_net sv"] read_closed [of fd 4096 "sv_net sv"]
  by (auto simp: on_net_def recv_enc_server_msg_def read_buffer_def split: prod.splits bool.splits option.splits)

lemma send_leaves:
  "send_enc_server_msg fd d key s = (ok, b, s') \<Longrightarrow> net_in s' = net_in s \<and> net_closed s' = net_closed s"
  by (auto simp: send_enc_server_msg_def send_fd_def Let_def split: if_splits)

lemma answers_leave:
  assumes "handle_get_relay_map E fd start key sv = Some (ok, st, b, sv') \<or> client_handle_exit fd start key sv = Some (ok, st, b, sv')"
  shows "unread fd' (sv_net sv') = unread fd' (sv_net sv)" "net_closed (sv_net sv') = net_closed (sv_net sv)"
  using assms send_leaves
  by (fastforce simp: handle_get_relay_map_def client_handle_exit_def on_net_def send_enc_client_relay_map_def
      send_enc_relay_exit_response_def unread_def Let_def split: Option.bind_splits prod.splits)+

lemma client_message_total:
  assumes t: "table_sound (sv_manager sv)" "local_relays_ok E" and b: "length buffer = 4096"
    and k: "read_key (sv_context sv) keyp = Some key"
  obtains ok running start' b' sv' where
    "client_handle_message E fd start keyp buffer sv = Some (ok, running, start', b', sv')"
    "ok \<Longrightarrow> unread fd (sv_net sv') < unread fd (sv_net sv)" "net_closed (sv_net sv') = net_closed (sv_net sv)"
proof -
  obtain r b1 sv1 where r: "on_net (recv_enc_server_msg fd buffer key) sv = (r, b1, sv1)" by (metis prod_cases3)
  note k1 = on_net_keeps [OF r] recv_takes [OF r b]
  have t1: "table_sound (sv_manager sv1)" using k1 t(1) by simp
  obtain ok1 st b2 sv2 where m: "handle_get_relay_map E fd start key sv1 = Some (ok1, st, b2, sv2)"
    by (rule map_answer [OF t1 t(2), where start = start and fd = fd and key = key]) blast
  obtain st' ok3 b3 sv3 where e: "client_handle_exit fd start key sv1 = Some (ok3, st', b3, sv3)"
    by (cases "on_net (send_enc_relay_exit_response fd key server_response_success) sv1") (auto simp: client_handle_exit_def)
  note l = answers_leave [OF disjI1 [OF m]] answers_leave [OF disjI2 [OF e]]
  show thesis
  proof (cases r)
    case False
    then show ?thesis using that r k k1 by (simp add: client_handle_message_def)
  next
    case True
    then have "client_handle_message E fd start keyp buffer sv =
        (if get16 0 b1 = CLIENT_COMMAND_GET_RELAY_MAP then Some (ok1, True, st, b2, sv2)
         else if get16 0 b1 = CLIENT_COMMAND_EXIT then Some (ok3, False, st', b3, sv3)
         else Some (False, True, start, b1, sv1))"
      using r k m e by (simp add: client_handle_message_def Let_def)
    moreover have "unread fd (sv_net sv2) < unread fd (sv_net sv)" "unread fd (sv_net sv3) < unread fd (sv_net sv)"
      using True k1 l by simp_all
    ultimately show ?thesis using that k1(2) l(2,4) by (simp split: if_splits)
  qed
qed

lemma client_loop_ends:
  assumes "table_sound (sv_manager sv)" "local_relays_ok E" "length buffer = 4096" "read_key (sv_context sv) keyp = Some key"
  shows "\<exists>ok sv1. client_loop E fd keyp start buffer sv = Some (ok, end_session fd sv1) \<and> sv_manager sv1 = sv_manager sv \<and>
    sv_context sv1 = sv_context sv \<and> net_closed (sv_net sv1) = net_closed (sv_net sv)"
  using assms(1,3,4)
proof (induction "unread fd (sv_net sv)" arbitrary: sv buffer start rule: less_induct)
  case less
  obtain ok running start' b' sv' where h: "client_handle_message E fd start keyp buffer sv = Some (ok, running, start', b', sv')"
    "ok \<Longrightarrow> unread fd (sv_net sv') < unread fd (sv_net sv)" "net_closed (sv_net sv') = net_closed (sv_net sv)"
    by (rule client_message_total [OF less.prems(1) assms(2) less.prems(2,3), where fd = fd and start = start]) blast
  note s = sound_client_message [OF less.prems(1) assms(2) less.prems(2) h(1)]
  show ?case
  proof (cases "ok \<and> running")
    case True
    then show ?thesis using less.hyps [of sv' b' start'] h s less.prems by (subst client_loop.simps) simp
  next
    case False
    then show ?thesis using h s by (subst client_loop.simps) (intro exI [of _ ok] exI [of _ sv'], auto)
  qed
qed

text \<open>C23. In every reachable state the session of a client, run to its end on whatever the client sends, ends
  without an abort: it leaves the relay table as it was, takes the client's key and no other out of the table of
  keys, and closes the socket.\<close>

theorem client_session_ends:
  assumes "server_reachable E (ss, sv)" "\<forall>n. se_alloc E n" "local_relays_ok E"
    and "0 \<le> fd" "fd < 2 ^ 31" "sock_lookup (sv_context sv) (nat fd) = Some (key, data)" "length buffer = 4096"
  shows "\<exists>ok sv'. process_client E fd buffer sv = Some (ok, sv') \<and> sv_manager sv' = sv_manager sv \<and>
    sock_lookup (sv_context sv') = (sock_lookup (sv_context sv))(nat fd := None) \<and>
    net_closed (sv_net sv') = net_closed (sv_net sv) @ [fd]"
proof -
  note ok = sessions_reachable [OF assms(1-3)]
  note i = fd_index_valid [OF assms(4,5)]
  obtain keyp where k: "get_sock_key (sv_context sv) fd = Some keyp" "read_key (sv_context sv) keyp = Some key"
    using get_sock_key_reads [OF sessions_okD(2) [OF ok], of fd key data] assms(6) i by auto
  obtain r sv1 where l: "client_loop E fd keyp 0 buffer sv = Some (r, end_session fd sv1)" "sv_manager sv1 = sv_manager sv"
    "sv_context sv1 = sv_context sv" "net_closed (sv_net sv1) = net_closed (sv_net sv)"
    using client_loop_ends [OF sessions_okD(1) [OF ok] assms(3,7) k(2)] by blast
  obtain c where "free_socket (sv_context sv) fd False = (c, [])" "sock_lookup c = (sock_lookup (sv_context sv))(nat fd := None)"
    using free_socket_ok [OF sessions_okD(2) [OF ok], of fd False] i by auto
  then show ?thesis
    using k(1) l by (simp add: process_client_def end_session_def close_fd_def)
qed

lemma client_session_ends_witness:
  "\<exists>sv ok sv'. process_client sample_env 4 (replicate 4096 0) sv = Some (ok, sv') \<and> sock_lookup (sv_context sv) 4 \<noteq> None \<and>
    sock_lookup (sv_context sv') 4 = None"
proof -
  obtain ss sv where r: "server_reachable sample_env (ss, sv)" "ss 4 \<noteq> None" by (rule sample_reachable)
  have a: "\<forall>n. se_alloc sample_env n" by simp
  have "user_ok (sv_context sv) 4 u" if "ss 4 = Some u" for u
    by (rule sessions_okD(3) [OF sessions_reachable [OF r(1) a sample_local_relays] that])
  then obtain key data where k: "sock_lookup (sv_context sv) (nat 4) = Some (key, data)" using r(2) by (fastforce simp: user_ok_def)
  then show ?thesis
    using client_session_ends [OF r(1) a sample_local_relays _ _ k length_replicate, of 0] by fastforce
qed

end
