(* ===== verification/Programs.thy ===== *)
theory Programs
  imports Directory Sessions
begin

text \<open>
  The three programs from \<open>main\<close> to the end: the listening socket and the loop that accepts connections
  (\<open>src/utils/sock_utils\<close>), the command loop, \<open>run_client\<close>, \<open>run_relay\<close>, \<open>run_server\<close> and the \<open>main\<close> functions.

  \<open>pthread_create\<close> gives every connection a thread of its own. The functions here run a connection to its end, or
  as far as its events go, before they accept the next one; \<open>Sessions\<close> has the interleavings of the server.
  What the kernel answers is an argument: the record \<open>host\<close> for the listening socket, a list of results for
  \<open>accept\<close>. A result \<open>None\<close> is an abort or an access outside an object.
\<close>

section \<open>The listening socket\<close>

text \<open>
  The first address the lookup of a port finds, for the coming sockets the descriptor (-1 if there is none) and
  whether it can be bound, and the sockets opened so far with their addresses. A missing port is handed to
  \<open>getaddrinfo\<close> as \<open>NULL\<close>. A socket that could not be bound stays open.
\<close>

record host =
  ho_lookup :: "string option \<Rightarrow> (bytes \<times> nat) option"
  ho_sockets :: "(int \<times> bool) list"
  ho_open :: "(int \<times> bytes \<times> nat) list"

definition create_and_bind :: "server_config_metadata \<Rightarrow> host \<Rightarrow> int \<times> host" where
  "create_and_bind config h =
     (case ho_lookup h (Option.bind (cfg_port config) c_string) of
        None \<Rightarrow> (-1, h)
      | Some res \<Rightarrow>
          (case ho_sockets h of
             [] \<Rightarrow> (-1, h)
           | (sock, bound) # rest \<Rightarrow>
               let h = h\<lparr>ho_sockets := rest\<rparr>
               in if sock = -1 then (-1, h)
                  else
                    let h = h\<lparr>ho_open := ho_open h @ [(sock, res)]\<rparr>
                    in if \<not> bound then (-1, h) else (sock, h)))"

section \<open>Accepting connections\<close>

record user_descriptor =
  ud_fd :: int
  ud_addr :: "bytes \<times> nat"

text \<open>
  A result of \<open>accept\<close>: the descriptor, the peer's address, what the peer is going to send and whether it takes
  what is sent to it, whether \<open>malloc\<close> and \<open>pthread_create\<close> succeed, and what the thread meets: the contents
  of its local arrays, the events it waits for.
\<close>

record 'e accept_result =
  ac_fd :: int
  ac_addr :: "bytes \<times> nat"
  ac_in :: "bytes list"
  ac_ok :: bool
  ac_alloc :: bool
  ac_thread :: bool
  ac_local :: 'e

definition new_connection :: "'e accept_result \<Rightarrow> net \<Rightarrow> net" where
  "new_connection a s = s\<lparr>net_in := (net_in s)(ac_fd a := ac_in a), net_ok := (net_ok s)(ac_fd a := ac_ok a)\<rparr>"

text \<open>
  The loop over the results so far. \<open>connection_handler\<close> works on a program's state, in which \<open>sockets\<close>
  changes the part of the kernel. Without memory for the descriptor the loop writes through \<open>NULL\<close>.
\<close>

fun accept_loop ::
  "((net \<Rightarrow> net) \<Rightarrow> 's \<Rightarrow> 's) \<Rightarrow> ('e \<Rightarrow> user_descriptor \<Rightarrow> 's \<Rightarrow> 's option) \<Rightarrow> 'e accept_result list \<Rightarrow> 's \<Rightarrow> 's option" where
  "accept_loop sockets connection_handler [] x = Some x"
| "accept_loop sockets connection_handler (a # as) x =
     (if ac_fd a < 0 then accept_loop sockets connection_handler as x
      else
        let x = sockets (new_connection a) x
        in if \<not> ac_alloc a then None
           else
             let user_desc = \<lparr>ud_fd = ac_fd a, ud_addr = ac_addr a\<rparr>
             in if \<not> ac_thread a then accept_loop sockets connection_handler as (sockets (close_fd (ac_fd a)) x)
                else Option.bind (connection_handler (ac_local a) user_desc x) (accept_loop sockets connection_handler as))"

text \<open>\<open>accept\<close> on a descriptor of -1 always fails.\<close>

definition accepted_on :: "int \<Rightarrow> 'e accept_result list \<Rightarrow> 'e accept_result list" where
  "accepted_on server_fd as = (if server_fd = -1 then filter (\<lambda>a. ac_fd a < 0) as else as)"

section \<open>The programs\<close>

text \<open>
  The command loop of relay and server: lines of the standard input until \<open>exit\<close> or the end. The result is
  the input left.
\<close>

definition INPUT_SIZE :: nat where "INPUT_SIZE = 128"

lemma fgets_shorter:
  assumes "1 < n" "fgets n inp = (Some line, rest)"
  shows "length rest < length inp"
proof -
  let ?l = "takeWhile (\<lambda>c. c \<noteq> newline) inp"
  let ?m = "if length ?l < length inp then ?l @ [newline] else ?l"
  have ne: "inp \<noteq> []" using assms by (auto simp: fgets_def)
  have "length ?l \<le> length inp" by (rule length_takeWhile_le)
  then have m: "0 < length ?m" using ne by auto
  have "rest = drop (length (take (nat n - 1) ?m)) inp"
    using assms ne by (auto simp: fgets_def Let_def)
  moreover have "0 < length (take (nat n - 1) ?m)" using m assms(1) by simp
  ultimately show ?thesis using ne by (cases inp) auto
qed

function run_cmd :: "string \<Rightarrow> string" where
  "run_cmd stdin =
     (case fgets (int INPUT_SIZE) stdin of
        (None, rest) \<Rightarrow> rest
      | (Some line, rest) \<Rightarrow> if cut_line line = ''exit'' then rest else run_cmd rest)"
  by pat_completeness auto

termination
  by (relation "measure length") (auto simp: INPUT_SIZE_def intro: fgets_shorter [of 128, OF _ sym])

declare run_cmd.simps [simp del]

text \<open>
  The client. The Diffie-Hellman parameters and the key pair of the session are what the directory session
  left. \<open>keys\<close> is the session's array of onion keys before it is written. A first relay that cannot be reached
  is noticed at the key exchange. After \<open>process_client_session\<close> the session is freed, a second time if it
  freed it already.
\<close>

definition run_client ::
  "dir_env \<Rightarrow> client_env \<Rightarrow> bytes \<Rightarrow> client_config_metadata \<Rightarrow> key_data list \<Rightarrow> u32 list option list \<Rightarrow> client_run \<Rightarrow>
   dir_run \<Rightarrow> (client_code option \<times> client_run) option" where
  "run_client D E draw config keys events c w =
     Option.bind (gather_relay_map D (server_cfg config) (cfg_relays config)
         (w\<lparr>dr_globals := init_encryption (de_gmp D) draw\<rparr>)) (\<lambda>(response, relay_list, w).
     if response \<noteq> client_success then Some (Some response, c\<lparr>cl_net := dr_net w\<rparr>)
     else if relay_list = [] then None
     else
       let (storage, len) = sockaddr_to_unix (rd_sock_addr (relay_list ! 0));
           (fd, s) = connect_server_by_sockaddr storage len (dr_net w);
           E = E\<lparr>ce_gmp := de_gmp D, ce_globals := dr_globals w, ce_key := dr_id w\<rparr>
       in Option.bind (init_session E fd relay_list (unat (cfg_relays config)) keys) (\<lambda>session.
          Option.bind (handle_tls_sender (ce_gmp E) (ce_globals E) (ce_junk_key E) (ce_junk_key' E)
              (ce_junk_key E, ce_junk_hash E) (sock_fd session) (tls_key session) s) (\<lambda>(ok, key, s).
          let c = c\<lparr>cl_session := session\<lparr>tls_key := key\<rparr>, cl_net := s\<rparr>
          in if \<not> ok then
               Some (Some client_tls_error, free_session (c\<lparr>cl_session := (cl_session c)\<lparr>sock_fd := -1\<rparr>\<rparr>))
             else
               map_option (\<lambda>(result, c).
                   case result of
                     None \<Rightarrow> (None, c)
                   | Some code \<Rightarrow> (Some (if code = client_success then client_success else client_error), free_session c))
                 (process_client_session E events c))))"

text \<open>\<open>main\<close> of the client; a session that has not ended within the given events has no exit code yet.\<close>

definition client_main ::
  "(nat \<Rightarrow> bool) \<Rightarrow> file_system \<Rightarrow> string list \<Rightarrow> client_config_metadata \<Rightarrow> dir_env \<Rightarrow> client_env \<Rightarrow> bytes \<Rightarrow> key_data list \<Rightarrow>
   u32 list option list \<Rightarrow> client_run \<Rightarrow> dir_run \<Rightarrow> (int option \<times> client_run) option" where
  "client_main alloc_ok files argv junk D E draw keys events c w =
     (if length argv < 2 \<or> 4 < length argv then Some (Some (-1), c)
      else
        Option.bind (client_parse_args alloc_ok files argv junk) (\<lambda>(ok, client_config).
        if \<not> ok then Some (Some (-1), c)
        else
          map_option (\<lambda>(code, c). (map_option (\<lambda>code. if code \<noteq> client_success then -1 else 0) code, c))
            (run_client D E draw client_config keys events c w)))"

text \<open>
  What the relay's threads make of the sockets: the sessions so far, and how each stands. A session's environment has the
  keys of the registration.
\<close>

fun session_net :: "session_result \<Rightarrow> net" where
  "session_net (Returned code w) = rr_net w"
| "session_net (Middle w) = rr_net w"
| "session_net (End w) = rr_net w"

type_synonym relay_local = "bytes \<times> int option list \<times> wait_result list"

definition relay_connection ::
  "relay_env \<Rightarrow> relay_local \<Rightarrow> user_descriptor \<Rightarrow> session_result list \<times> net \<Rightarrow> (session_result list \<times> net) option" where
  "relay_connection E junk user x =
     (let (buffer, es, rs) = junk; (sessions, s) = x
      in map_option (\<lambda>r. (sessions @ [r], session_net r)) (relay_client_callback E buffer es rs (ud_fd user) s))"

text \<open>\<open>thread\<close> says whether the thread for connections starts.\<close>

definition run_relay ::
  "dir_env \<Rightarrow> relay_env \<Rightarrow> bytes \<Rightarrow> relay_config_metadata \<Rightarrow> (string \<times> bytes option) list option \<Rightarrow> bytes \<times> sock_addr \<Rightarrow>
   host \<Rightarrow> bool \<Rightarrow> relay_local accept_result list \<Rightarrow> string \<Rightarrow> relay_vars \<Rightarrow>
   (relay_code \<times> session_result list \<times> string \<times> host \<times> relay_vars) option" where
  "run_relay D E draw config ifaddrs junk h thread accepts stdin w =
     (let w = w\<lparr>rv_is_key_init := False\<rparr>;
          (listen_fd, h) = create_and_bind (relay_server_cfg config) h;
          w = w\<lparr>rv_register_id := INVALID_RELAY_ID, dr_globals := init_encryption (de_gmp D) draw\<rparr>
      in Option.bind (signup_server D config ifaddrs junk w) (\<lambda>(result, w).
         if result \<noteq> relay_success then Some (result, [], stdin, h, w)
         else if \<not> thread then Some (relay_error, [], stdin, h, w)
         else
           let rest = run_cmd stdin;
               E = E\<lparr>re_gmp := de_gmp D, re_globals := dr_globals w, re_key := dr_id w\<rparr>
           in Option.bind (accept_loop (\<lambda>f (rs, s). (rs, f s)) (relay_connection E) (accepted_on listen_fd accepts) ([], dr_net w))
                (\<lambda>(sessions, s).
              Option.bind (signout_server D config (w\<lparr>dr_net := s\<rparr>)) (\<lambda>(result, w).
              if result \<noteq> relay_success then Some (result, sessions, rest, h, w)
              else Some (relay_success, sessions, rest, h,
                     close_dir listen_fd (w\<lparr>rv_server_key := map_option free_key (rv_server_key w)\<rparr>))))))"

text \<open>
  \<open>main\<close> of the relay looks only at whether there is a configuration, not at what \<open>parse_args\<close> returned, and
  frees the configuration without its strings.
\<close>

definition relay_main ::
  "(nat \<Rightarrow> bool) \<Rightarrow> file_system \<Rightarrow> string list \<Rightarrow> dir_env \<Rightarrow> relay_env \<Rightarrow> bytes \<Rightarrow> (string \<times> bytes option) list option \<Rightarrow>
   bytes \<times> sock_addr \<Rightarrow> host \<Rightarrow> bool \<Rightarrow> relay_local accept_result list \<Rightarrow> string \<Rightarrow> relay_vars \<Rightarrow>
   (int \<times> session_result list \<times> string \<times> host \<times> relay_vars) option" where
  "relay_main alloc_ok files argv D E draw ifaddrs junk h thread accepts stdin w =
     (if length argv < 2 \<or> 4 < length argv then Some (-1, [], stdin, h, w)
      else
        Option.bind (relay_parse_args alloc_ok files argv) (\<lambda>(_, relay_config).
        case relay_config of
          None \<Rightarrow> Some (-1, [], stdin, h, w)
        | Some config \<Rightarrow>
            map_option (\<lambda>(code, r). (if code \<noteq> relay_success then -1 else 0, r))
              (run_relay D E draw config ifaddrs junk h thread accepts stdin w)))"

datatype server_code = server_success | server_error

text \<open>
  The server: \<open>draw\<close> and \<open>draws\<close> are the random bytes for the parameters and the key. A listening socket that
  could not be had is only reported.
\<close>

definition server_setup ::
  "server_env \<Rightarrow> bytes \<Rightarrow> bytes list \<Rightarrow> bytes \<Rightarrow> server \<Rightarrow> (server_env \<times> server) option" where
  "server_setup E draw draws p sv =
     (let globals = init_encryption (se_gmp E) draw
      in Option.bind (get_globals (se_gmp E) globals p) (\<lambda>(g, p).
         Option.bind (init_id_key (se_gmp E) globals draws) (\<lambda>(identity, _).
         Some (E\<lparr>se_globals := globals, se_g := g, se_p := p, se_identity := identity\<rparr>,
               sv\<lparr>sv_manager := init_relay_manager (sv_manager sv), sv_context := init_socket_context (sv_context sv)\<rparr>))))"

definition server_connection :: "server_env \<Rightarrow> bytes \<Rightarrow> user_descriptor \<Rightarrow> server \<Rightarrow> server option" where
  "server_connection E buffer user sv = client_callback E (ud_fd user) buffer sv"

definition run_server ::
  "server_env \<Rightarrow> file_system \<Rightarrow> string \<Rightarrow> server_config_metadata \<Rightarrow> bytes \<Rightarrow> bytes list \<Rightarrow> bytes \<Rightarrow> host \<Rightarrow> bool \<Rightarrow>
   bytes accept_result list \<Rightarrow> string \<Rightarrow> server \<Rightarrow> (server_code \<times> string \<times> host \<times> server) option" where
  "run_server E files config_filepath junk draw draws p h thread accepts stdin sv =
     Option.bind (fetch_server_config (se_alloc E) files config_filepath junk) (\<lambda>(ok, config).
     if \<not> ok then Some (server_error, stdin, h, sv)
     else
       Option.bind (server_setup E draw draws p sv) (\<lambda>(E, sv).
       let (server_fd, h) = create_and_bind config h
       in if \<not> thread then Some (server_error, stdin, h, sv)
          else
            let rest = run_cmd stdin
            in Option.bind (accept_loop (\<lambda>f sv. sv\<lparr>sv_net := f (sv_net sv)\<rparr>) (server_connection E) (accepted_on server_fd accepts) sv)
                 (\<lambda>sv.
               Some (server_success, rest, h, sv\<lparr>sv_context := snd (free_socket_context (sv_context sv)),
                 sv_manager := free_relay_manager (sv_manager sv)\<rparr>))))"

definition server_main ::
  "server_env \<Rightarrow> file_system \<Rightarrow> string list \<Rightarrow> server_config_metadata \<Rightarrow> bytes \<Rightarrow> bytes list \<Rightarrow> bytes \<Rightarrow> host \<Rightarrow> bool \<Rightarrow>
   bytes accept_result list \<Rightarrow> string \<Rightarrow> server \<Rightarrow> (int \<times> string \<times> host \<times> server) option" where
  "server_main E files argv junk draw draws p h thread accepts stdin sv =
     (if length argv \<noteq> 2 then Some (-1, stdin, h, sv)
      else
        map_option (\<lambda>(code, r). (if code \<noteq> server_success then 1 else 0, r))
          (run_server E files (argv ! 1) junk draw draws p h thread accepts stdin sv))"

section \<open>What the accept loop keeps\<close>

text \<open>
  A program whose sockets may change at any time and whose handler only takes steps of its own: then so does the whole
  loop.
\<close>

locale accepting =
  fixes sockets :: "(net \<Rightarrow> net) \<Rightarrow> 's \<Rightarrow> 's"
    and connection_handler :: "'e \<Rightarrow> user_descriptor \<Rightarrow> 's \<Rightarrow> 's option"
    and runs :: "'s \<Rightarrow> 's \<Rightarrow> bool"
  assumes runs_refl: "runs x x"
    and runs_trans: "runs x y \<Longrightarrow> runs y z \<Longrightarrow> runs x z"
    and runs_sockets: "runs x (sockets f x)"
    and runs_handler: "connection_handler e user x = Some y \<Longrightarrow> 0 \<le> ud_fd user \<Longrightarrow> ud_fd user < 2 ^ 31 \<Longrightarrow> runs x y"
begin

lemma loop_runs:
  "accept_loop sockets connection_handler as x = Some y \<Longrightarrow> \<forall>a \<in> set as. ac_fd a < 2 ^ 31 \<Longrightarrow> runs x y"
proof (induction as arbitrary: x)
  case Nil
  then show ?case by (simp add: runs_refl)
next
  case (Cons a as)
  let ?x = "sockets (new_connection a) x"
  show ?case
  proof (cases "ac_fd a < 0")
    case True
    then show ?thesis using Cons by simp
  next
    case fd: False
    then have al: "ac_alloc a" using Cons.prems(1) by (auto simp: Let_def split: if_splits)
    show ?thesis
    proof (cases "ac_thread a")
      case True
      then obtain z where "connection_handler (ac_local a) \<lparr>ud_fd = ac_fd a, ud_addr = ac_addr a\<rparr> ?x = Some z"
        "accept_loop sockets connection_handler as z = Some y"
        using Cons.prems(1) fd al by (auto simp: Let_def split: Option.bind_splits)
      then have "runs ?x z" "runs z y" using fd Cons.IH Cons.prems(2) by (auto intro: runs_handler)
      then show ?thesis using runs_sockets runs_trans by blast
    next
      case False
      then have "runs (sockets (close_fd (ac_fd a)) ?x) y" using fd al Cons by (simp add: Let_def)
      then show ?thesis using runs_sockets runs_trans by blast
    qed
  qed
qed

end

lemma accepted_on_subset: "set (accepted_on server_fd as) \<subseteq> set as"
  by (auto simp: accepted_on_def)

interpretation server_accepts: accepting "\<lambda>f sv. sv\<lparr>sv_net := f (sv_net sv)\<rparr>" "server_connection E"
    "\<lambda>sv sv'. (server_step E)\<^sup>*\<^sup>* (\<lambda>_. None, sv) (\<lambda>_. None, sv')"
proof
  show "(server_step E)\<^sup>*\<^sup>* (\<lambda>_. None, sv) (\<lambda>_. None, sv\<lparr>sv_net := f (sv_net sv)\<rparr>)" for f sv
    by (rule r_into_rtranclp, rule server_step.outside)
  show "(server_step E)\<^sup>*\<^sup>* (\<lambda>_. None, sv) (\<lambda>_. None, sv')"
    if "server_connection E e user sv = Some sv'" "0 \<le> ud_fd user" "ud_fd user < 2 ^ 31" for e user sv sv'
    using callback_steps [of E "ud_fd user" e sv sv' "\<lambda>_. None"] that by (simp add: server_connection_def)
qed (auto intro: rtranclp_trans)

text \<open>A session of the relay that ended with success holds no socket any more.\<close>

definition session_settled :: "session_result \<Rightarrow> bool" where
  "session_settled r = (case r of
     Returned code w \<Rightarrow> code = relay_success \<longrightarrow> last_fd (rr_session w) < 0 \<and> next_fd (rr_session w) < 0
   | _ \<Rightarrow> True)"

lemma freed_session: "last_fd (fst (free_relay_session ses s)) < 0" "next_fd (fst (free_relay_session ses s)) < 0"
  by (simp_all add: free_relay_session_def Let_def)

lemma freed_session_eq: "free_relay_session ses s = (ses', s') \<Longrightarrow> last_fd ses' < 0 \<and> next_fd ses' < 0"
  using freed_session [of ses s] by simp

lemma callback_settled:
  assumes "relay_client_callback E buffer es rs fd s = Some r"
  shows "session_settled r"
proof -
  let ?ses = "init_relay_session (re_key E) fd"
  obtain ok key s1 where k: "handle_tls_recviever (re_gmp E) (re_globals E) (re_junk_key E) (re_junk_key' E)
      (re_junk_key E, re_junk_hash E) fd (tls_last_key ?ses) s = Some (ok, key, s1)"
    using assms by (auto simp: relay_client_callback_def Let_def split: Option.bind_splits)
  show ?thesis
  proof (cases ok)
    case False
    then show ?thesis using assms k by (auto simp: relay_client_callback_def session_settled_def Let_def split: prod.splits)
  next
    case True
    then obtain r1 where "process_relay_session E es rs \<lparr>rr_session = ?ses\<lparr>tls_last_key := key\<rparr>, rr_net = s1,
          rr_buffer = buffer, rr_response = relay_success\<rparr> = Some r1"
      "r = (case r1 of Returned relay_success w \<Rightarrow>
          Returned relay_success ((case free_relay_session (rr_session w) (rr_net w) of
            (ses, s) \<Rightarrow> \<lambda>code. \<lparr>rr_session = ses, rr_net = s, rr_buffer = buffer, rr_response = code\<rparr>) relay_success)
        | r \<Rightarrow> r)"
      using assms k by (auto simp: relay_client_callback_def Let_def)
    then show ?thesis
      by (cases r1) (auto simp: session_settled_def split: relay_code.splits prod.splits dest: freed_session_eq)
  qed
qed

interpretation relay_accepts: accepting "\<lambda>f (rs, s). (rs, f s)" "relay_connection E"
    "\<lambda>x x'. \<exists>new. fst x' = fst x @ new \<and> list_all session_settled new"
proof
  show "\<exists>new. fst x' = fst x @ new \<and> list_all session_settled new"
    if "relay_connection E e user x = Some x'" for e user x x'
    using that callback_settled by (auto simp: relay_connection_def split: prod.splits)
qed (auto split: prod.splits)

text \<open>The command loop ends at the first line that is \<open>exit\<close>.\<close>

lemma run_cmd_line:
  assumes "newline \<notin> set l" "NUL \<notin> set l" "length l < 127"
  shows "run_cmd (l @ newline # rest) = (if l = ''exit'' then rest else run_cmd rest)"
proof -
  have t: "takeWhile (\<lambda>c. c \<noteq> newline) (l @ newline # rest) = l" using assms(1) by (auto simp: takeWhile_tail)
  have "fgets (int INPUT_SIZE) (l @ newline # rest) = (Some (l @ [newline]), rest)"
    using assms(3) t by (simp add: fgets_def INPUT_SIZE_def)
  moreover have "cut_line (l @ [newline]) = l" using assms(1,2) by (auto simp: cut_line_def takeWhile_tail)
  ultimately show ?thesis by (subst run_cmd.simps) simp
qed

lemma run_cmd_exit:
  assumes "\<forall>l \<in> set lines. newline \<notin> set l \<and> NUL \<notin> set l \<and> length l < 127 \<and> l \<noteq> ''exit''"
  shows "run_cmd (concat (map (\<lambda>l. l @ [newline]) lines) @ ''exit'' @ newline # rest) = rest"
  using assms
proof (induction lines)
  case Nil
  then show ?case using run_cmd_line [of "''exit''" rest] by (simp add: newline_def NUL_def)
next
  case (Cons l lines)
  then show ?case using run_cmd_line [of l] by simp
qed

section \<open>Properties\<close>


text \<open>
  The directory server answers a relay's signout: the handshake with the keys of the signup, the signout and the exit.
\<close>

definition signout_answered :: "dir_env \<Rightarrow> server_env \<Rightarrow> bytes \<Rightarrow> key_data \<Rightarrow> server_config_metadata \<Rightarrow> net \<Rightarrow> bool" where
  "signout_answered D S spk ks config s \<longleftrightarrow> (\<exists>fd s' j t answer bye rest. connect_server D config s = (fd, s') \<and> fd \<noteq> -1 \<and>
     net_ok s' fd \<and> length answer \<le> 4096 \<and> length bye \<le> 4096 \<and> net_in s' fd = handshake_reply S spk # confirmation_wire ks j t #
      symmetric_encrypt ks (padded_msg answer) 4096 # symmetric_encrypt ks (padded_msg bye) 4096 # rest)"


text \<open>Parameters drawn from no random bytes, for the samples.\<close>

lemma sample_init: "dh_p (init_encryption reference_gmp []) = 2 ^ 2047 + 2" "dh_g (init_encryption reference_gmp []) = 5"
  by (simp_all add: init_encryption_def init_dh_def generate_prime_def random_mpz_from_urandom_def reference_gmp_def
      DH_KEY_BYTES_def G_GLOBAL_def)

lemma sample_setup: "\<exists>E' sv1. server_setup sample_env [] [[5]] (replicate 256 0) sv = Some (E', sv1)"
proof -
  let ?g = "init_encryption reference_gmp []"
  have "dh_p ?g < 256 ^ 256" by (simp add: sample_init)
  then obtain bs where "export_mpz_fixed reference_gmp (replicate 256 0) (dh_p ?g) 256 = Some bs"
    using export_fixed [OF reference_gmp_documented, of "dh_p ?g" 256 "replicate 256 0"] by (metis length_replicate)
  then have "\<exists>g p. get_globals reference_gmp ?g (replicate 256 0) = Some (g, p)"
    by (simp add: get_globals_def get_prime_dh_def DH_KEY_BYTES_def)
  moreover have "\<exists>k ds. init_id_key reference_gmp ?g [[5]] = Some (k, ds)"
    by (simp add: init_id_key_def gen_dh_prime_identity_key_def random_mpz_from_urandom_def sample_init)
       (simp add: reference_gmp_def)
  ultimately show ?thesis by (auto simp: server_setup_def Let_def)
qed

definition sample_accept :: "'e \<Rightarrow> 'e accept_result" where
  "sample_accept x = \<lparr>ac_fd = 4, ac_addr = (replicate 128 0, 16), ac_in = [], ac_ok = True, ac_alloc = True, ac_thread = True,
     ac_local = x\<rparr>"

definition sample_host :: host where
  "sample_host = \<lparr>ho_lookup = (\<lambda>_. Some (replicate 128 0, 16)), ho_sockets = [(3, True)], ho_open = []\<rparr>"


text \<open>A configured relay and its sockets, on which the server has answered two sessions.\<close>

lemma sample_relay_args:
  obtains m where "relay_parse_args (\<lambda>_. True) [''server.cfg'' \<mapsto> (port_line ''8200'' @ server_line ''127.0.0.1'', True)]
      [''relay'', ''server.cfg'', ''-p'', ''9050''] =
      Some (True, Some \<lparr>dir_server_cfg = m, relay_server_cfg = \<lparr>cfg_port = Some (''9050'' @ [NUL]), cfg_server = Some (''0.0.0.0'' @ [NUL])\<rparr>\<rparr>)"
proof -
  let ?files = "[''server.cfg'' \<mapsto> (port_line ''8200'' @ server_line ''127.0.0.1'', True)]"
  have l: "one_line ''8200''" "one_line ''127.0.0.1''" by (simp_all add: one_line_def NUL_def newline_def)
  have f: "fetch_server_config (\<lambda>_. True) ?files ''server.cfg'' \<lparr>cfg_port = None, cfg_server = None\<rparr> =
      Some (True, \<lparr>cfg_port = Some (''8200'' @ [NUL]), cfg_server = Some (''127.0.0.1'' @ [NUL])\<rparr>)"
    using fetch_lines [where files = ?files and path = "''server.cfg''" and t = "[]" and alloc_ok = "\<lambda>_. True", OF l _ _ _ disjI1 [OF refl]]
    by (auto simp: loop_end)
  have c: "clone_str (\<lambda>_. True) (Some ''9050'') = Some (''9050'' @ [NUL])" "clone_str (\<lambda>_. True) (Some ''0.0.0.0'') = Some (''0.0.0.0'' @ [NUL])"
    using clone_str_copy [of "''9050''" "\<lambda>_. True"] clone_str_copy [of "''0.0.0.0''" "\<lambda>_. True"] by (simp_all add: NUL_def)
  show thesis
    by (rule that [of "\<lparr>cfg_port = Some (''8200'' @ [NUL]), cfg_server = Some (''127.0.0.1'' @ [NUL])\<rparr>"])
       (simp add: relay_parse_args_def f c Let_def)
qed


text \<open>C39. A relay that is started without the option for its port is not stopped by its \<open>main\<close>, which ignores what
  \<open>parse_args\<close> returned: once the server has answered the handshake, the missing port is read through
  \<open>NULL\<close>.\<close>

theorem relay_without_port_crashes:
  assumes "fetch_server_config alloc_ok files path \<lparr>cfg_port = None, cfg_server = None\<rparr> = Some (True, m)" "alloc_ok 32"
    and "served_by D S spk" "handshake_keys D S (dr_draws w) cid pub ks"
    and "connect_server D m (dr_net w) = (fd, s)" "fd \<noteq> -1" "net_ok s fd"
    and "net_in s fd = handshake_reply S spk # confirmation_wire ks j t # left"
  shows "relay_parse_args alloc_ok files [prog, path] =
      Some (False, Some \<lparr>dir_server_cfg = m, relay_server_cfg = \<lparr>cfg_port = None, cfg_server = None\<rparr>\<rparr>) \<and>
    relay_main alloc_ok files [prog, path] D E draw ifaddrs junk h thread accepts stdin w = None"
proof
  let ?config = "\<lparr>dir_server_cfg = m, relay_server_cfg = \<lparr>cfg_port = None, cfg_server = None\<rparr>\<rparr>"
  show args: "relay_parse_args alloc_ok files [prog, path] = Some (False, Some ?config)"
    using assms(1,2) by (simp add: relay_parse_args_def Let_def)
  let ?w = "w\<lparr>rv_is_key_init := False, rv_register_id := INVALID_RELAY_ID, dr_globals := init_encryption (de_gmp D) draw\<rparr>"
  have "handshake_ready D S (?w\<lparr>dr_net := s\<rparr>) cid pub ks" using assms(4) by (simp add: handshake_ready_def)
  then obtain w1 where "register_handshake D fd (?w\<lparr>dr_net := s\<rparr>) = Some (relay_success, w1)"
    using register_handshake_runs [OF assms(3), of "?w\<lparr>dr_net := s\<rparr>" cid pub ks fd j t left] assms(7,8) by auto
  then have "signup_server D ?config ifaddrs junk ?w = None"
    using assms(5,6) by (simp add: signup_server_def)
  then have "run_relay D E draw ?config ifaddrs junk h thread accepts stdin w = None"
    by (cases "create_and_bind (relay_server_cfg ?config) h") (simp add: run_relay_def Let_def)
  then show "relay_main alloc_ok files [prog, path] D E draw ifaddrs junk h thread accepts stdin w = None"
    using args by (simp add: relay_main_def)
qed

lemma relay_without_port_crashes_witness:
  "\<exists>w. relay_main (\<lambda>_. True) [''server.cfg'' \<mapsto> (port_line ''8200'' @ server_line ''127.0.0.1'', True)]
      [''relay'', ''server.cfg''] sample_dir_env sample_relay_env [] None (replicate 128 0, rd_sock_addr zero_descriptor)
      sample_host True [] [] w = None"
proof -
  obtain ks where ks: "handshake_keys sample_dir_env sample_server_env [[5]] \<lparr>this_private = 6, this_public = 8\<rparr> (8 # replicate 255 0) ks"
    by (rule sample_handshake_keys)
  let ?w = "sample_relay_vars [handshake_reply sample_server_env (8 # replicate 255 0), confirmation_wire ks 9 0]"
  let ?s = "quiet_net\<lparr>net_in := (\<lambda>_. [handshake_reply sample_server_env (8 # replicate 255 0), confirmation_wire ks 9 0]),
    net_dialed := [(replicate 128 0, 16)]\<rparr>"
  obtain m where m: "fetch_server_config (\<lambda>_. True) [''server.cfg'' \<mapsto> (port_line ''8200'' @ server_line ''127.0.0.1'', True)] ''server.cfg''
      \<lparr>cfg_port = None, cfg_server = None\<rparr> = Some (True, m)" using sample_fetch by blast
  have c: "connect_server sample_dir_env m (dr_net ?w) = (9, ?s)" by (simp add: sample_connect_server)
  have k: "handshake_keys sample_dir_env sample_server_env (dr_draws ?w) \<lparr>this_private = 6, this_public = 8\<rparr> (8 # replicate 255 0) ks"
    using ks by simp
  show ?thesis
    using relay_without_port_crashes [OF m _ sample_served k c, where left = "[]" and j = 9 and t = 0 and prog = "''relay''"]
    by (intro exI [of _ ?w]) (simp add: quiet_net_def)
qed

end
