(* ===== verification/Client_Cells.thy ===== *)
theory Client_Cells
  imports Client_Session
begin

text \<open>
  The framing of the client's link. A receiver takes one \<open>read\<close> of the size of a cell for one cell, so the
  link only works when nothing but whole cells is written to it. Every function of a client session,
  from the \<open>create\<close> cell to the last event, keeps its buffer of the size of a cell and adds only whole
  cells to what is sent, all of them on the session's own socket.
\<close>

section \<open>The type of a session\<close>

text \<open>The sizes the declarations of the code give to what the environment and a session's relays hold.\<close>

definition client_sizes :: "client_env \<Rightarrow> bool" where
  "client_sizes E \<longleftrightarrow> is_cell (ce_junk_cell E) \<and> length (ce_junk_addr E) = 16"

definition framed :: "int \<Rightarrow> (int \<times> bytes) list \<Rightarrow> client_run \<Rightarrow> bool" where
  "framed fd log w \<longleftrightarrow> is_cell (cl_buffer w) \<and> sock_fd (cl_session w) = fd \<and>
     (\<exists>cells. net_out (cl_net w) = log @ map (Pair fd) cells \<and> list_all (\<lambda>c. is_cell c) cells)"

lemma framed_frame [simp]:
  "framed fd log (w\<lparr>cl_streams := m\<rparr>) = framed fd log w" "framed fd log (w\<lparr>cl_next_id := n\<rparr>) = framed fd log w"
  "framed fd log (w\<lparr>cl_response := c\<rparr>) = framed fd log w" "framed fd log (w\<lparr>cl_input := i\<rparr>) = framed fd log w"
  "framed fd log (w\<lparr>cl_printed := p\<rparr>) = framed fd log w"
  "framed fd log (w\<lparr>cl_session := (cl_session w)\<lparr>cur_relays := k\<rparr>\<rparr>) = framed fd log w"
  by (simp_all add: framed_def)

lemma framed_buffer: "framed fd log w \<Longrightarrow> is_cell b \<Longrightarrow> framed fd log (w\<lparr>cl_buffer := b\<rparr>)"
  by (simp add: framed_def)

lemma framed_send: 
  assumes "framed fd log w" "is_cell b"
  shows "framed fd log (snd (send_cell n b w))"
proof -
  obtain cells where c: "net_out (cl_net w) = log @ map (Pair fd) cells" "list_all (\<lambda>c. is_cell c) cells"
    using assms(1) by (auto simp: framed_def)
  let ?x = "client_seal (Some (tls_key (cl_session w))) (onion_keys (cl_session w)) n b"
  have x: "is_cell ?x" using assms(2) by (rule length_seal)
  have "\<exists>cs. log @ map (Pair fd) cells @ [(fd, ?x)] = log @ map (Pair fd) cs \<and> list_all (\<lambda>c. is_cell c) cs"
    using x c(2) by (intro exI [of _ "cells @ [?x]"]) simp
  then show ?thesis
    using assms(1) c x by (auto simp: framed_def send_cell_def client_send_tor_buffer_def send_fd_def Let_def)
qed

lemma framed_sent: "framed fd log w \<Longrightarrow> is_cell b \<Longrightarrow> send_cell n b w = (ok, w') \<Longrightarrow> framed fd log w'"
  using framed_send [of fd log w b n] by simp

lemma is_cell_open: "is_cell c \<Longrightarrow> is_cell (client_open tls keys n c)"
proof -
  assume "is_cell c"
  then have "is_cell (fold (\<lambda>i. onion_decrypt (keys ! i)) is (link_decrypt tls c))" for "is"
  proof -
    have "is_cell d \<Longrightarrow> is_cell (fold (\<lambda>i. onion_decrypt (keys ! i)) is d)" for d by (induction "is" arbitrary: d) simp_all
    then show ?thesis using \<open>is_cell c\<close> by simp
  qed
  then show ?thesis by (simp add: client_open_def)
qed

lemma framed_recv: "framed fd log w \<Longrightarrow> recv_cell n w = (ok, w') \<Longrightarrow> framed fd log w'"
proof -
  assume f: "framed fd log w" and r: "recv_cell n w = (ok, w')"
  obtain ok' b s where b: "read_buffer (sock_fd (cl_session w)) (cl_buffer w) (cl_net w) = (ok', b, s)"
    by (metis surj_pair)
  have l: "is_cell b" "net_out s = net_out (cl_net w)"
    using f b by (auto simp: framed_def read_buffer_def read_fd_def splice_def split: list.splits if_splits)
  show ?thesis
    using f r b l is_cell_open [OF l(1)]
    by (cases ok') (auto simp: framed_def recv_cell_def client_recv_tor_buffer_def Let_def)
qed

section \<open>Reading input\<close>

lemma read_input_only: "read_input n w = Some (s, w') \<Longrightarrow> \<exists>i. w' = w\<lparr>cl_input := i\<rparr>"
  by (auto simp: read_input_def split: prod.splits option.splits if_splits)

lemma framed_read: "framed fd log w \<Longrightarrow> read_input n w = Some (s, w') \<Longrightarrow> framed fd log w'"
  by (auto dest: read_input_only)

lemma framed_int: "framed fd log w \<Longrightarrow> input_int w = Some (x, w') \<Longrightarrow> framed fd log w'"
  by (auto simp: input_int_def dest: read_input_only)

lemma input_int_only: "input_int w = Some (x, w') \<Longrightarrow> \<exists>i. w' = w\<lparr>cl_input := i\<rparr>"
  by (auto simp: input_int_def dest: read_input_only)

lemma resolved_ok: "resolve_sockaddr E host port = Some a \<Longrightarrow> length (ce_junk_addr E) = 16 \<Longrightarrow> sock_addr_ok a"
  by (auto simp: resolve_sockaddr_def sock_addr_ok_def split: addr_info.splits)

lemma framed_sockaddr:
  assumes "input_sockaddr E w = Some r"
  shows "framed fd log w \<longrightarrow> length (ce_junk_addr E) = 16 \<longrightarrow> framed fd log (snd r) \<and> sock_addr_ok (fst r)"
  using assms
proof (rule input_sockaddr.raw_induct [rotated])
  fix rec E w r
  assume ih: "\<And>E w r. rec E w = Some r \<Longrightarrow>
      framed fd log w \<longrightarrow> length (ce_junk_addr E) = 16 \<longrightarrow> framed fd log (snd r) \<and> sock_addr_ok (fst r)"
    and "Option.bind (read_input INPUT_BUF_SIZE w) (\<lambda>(ip, w). Option.bind (read_input INPUT_BUF_SIZE w) (\<lambda>(port, w).
      case resolve_sockaddr E ip port of Some sock \<Rightarrow> Some (sock, w) | None \<Rightarrow> rec E w)) = Some r"
  then show "framed fd log w \<longrightarrow> length (ce_junk_addr E) = 16 \<longrightarrow> framed fd log (snd r) \<and> sock_addr_ok (fst r)"
    by (auto split: Option.bind_splits option.splits dest!: read_input_only ih) (erule (1) resolved_ok)
qed

lemma freed_log: "net_out (cl_net (free_session w)) = net_out (cl_net w)"
  by (simp add: free_session_def close_fd_def Let_def)

section \<open>The handlers\<close>

lemma framed_or_error: "framed fd log (snd (or_client_error r)) = framed fd log (snd r)"
  by (simp add: or_client_error_def split: prod.splits)

lemma begin_is_cell: "is_cell b \<Longrightarrow> sock_addr_ok a \<Longrightarrow> is_cell (begin_cell i a b)"
  by (simp add: begin_cell_def)

lemma end_is_cell: "is_cell b \<Longrightarrow> is_cell (client_end_cell i b)"
  by (simp add: client_end_cell_def)

lemma data_is_cell: "is_cell b \<Longrightarrow> client_data_cell i data n b = Some c \<Longrightarrow> is_cell c"
  by (auto simp: client_data_cell_def mem_write_def Let_def split: Option.bind_splits if_splits)

lemma framed_cell: "framed fd log w \<Longrightarrow> is_cell (cl_buffer w)"
  by (simp add: framed_def)

lemma framed_data:
  assumes "framed fd log w" "tor_send_data_msg i data n w = Some (ok, w')"
  shows "framed fd log w'"
  using assms framed_cell [OF assms(1)] by (auto simp: tor_send_data_msg_def split: Option.bind_splits intro: framed_sent data_is_cell)

lemma framed_chunks: "framed fd log w \<Longrightarrow> send_chunks i data n k w = Some r \<Longrightarrow> framed fd log (snd r)"
proof (induction i data n k w arbitrary: r rule: send_chunks.induct)
  case (1 i data n k w)
  show ?case
  proof (cases "k < n")
    case True
    then obtain ok w1 where s: "tor_send_data_msg i (drop k data) (word_of_nat (min RELAY_MSG_SIZE (n - k))) w = Some (ok, w1)"
      using "1.prems"(2) by (subst (asm) send_chunks.simps) (auto simp: Let_def split: option.splits)
    note f = framed_data [OF "1.prems"(1) s]
    show ?thesis
    proof (cases ok)
      case True
      then have "send_chunks i data n (k + min RELAY_MSG_SIZE (n - k)) w1 = Some r"
        using "1.prems"(2) s \<open>k < n\<close> by (subst (asm) send_chunks.simps) (simp add: Let_def)
      then show ?thesis using "1.IH" [OF \<open>k < n\<close> refl _ refl _ f] s True by blast
    next
      case False
      then show ?thesis using "1.prems"(2) s f \<open>k < n\<close> by (subst (asm) send_chunks.simps) (auto simp: Let_def)
    qed
  next
    case False
    then show ?thesis using "1.prems" by (subst (asm) send_chunks.simps) auto
  qed
qed

lemma framed_cells:
  assumes "framed fd log w" "handle_relay_msg E w = Some r"
  shows "framed fd log (snd r)"
  using assms by (auto simp: handle_relay_msg_def handle_relay_relay_msg_def Let_def split: if_splits option.splits Option.bind_splits)

lemma framed_connect:
  assumes "framed fd log w" "client_sizes E" "handle_input_connect E w = Some r"
  shows "framed fd log (snd r)"
proof -
  obtain sock w1 where s: "input_sockaddr E w = Some (sock, w1)"
    using assms(3) by (auto simp: handle_input_connect_def split: Option.bind_splits)
  then have f: "framed fd log w1" "sock_addr_ok sock"
    using framed_sockaddr [OF s] assms(1,2) by (simp_all add: client_sizes_def)
  obtain i m where "r = or_client_error (tor_send_begin_msg i sock (w1\<lparr>cl_next_id := i, cl_streams := m\<rparr>))"
    using assms(3) s by (auto simp: handle_input_connect_def split: Option.bind_splits)
  then show ?thesis
    using f framed_cell [OF f(1)] by (simp add: framed_or_error tor_send_begin_msg_def framed_send begin_is_cell)
qed

lemma framed_close:
  assumes "framed fd log w" "handle_input_close w = Some r"
  shows "framed fd log (snd r)"
proof -
  obtain i w1 where s: "input_int w = Some (i, w1)"
    using assms(2) by (auto simp: handle_input_close_def split: Option.bind_splits)
  obtain ok w2 where e: "tor_send_end_msg i w1 = (ok, w2)" by fastforce
  have "framed fd log w2"
    using e framed_int [OF assms(1) s] by (auto simp: tor_send_end_msg_def intro: framed_sent end_is_cell framed_cell)
  then show ?thesis using assms(2) s e by (cases ok) (auto simp: handle_input_close_def)
qed

lemma framed_input_send:
  assumes "framed fd log w" "handle_input_send E w = Some r"
  shows "framed fd log (snd r)"
proof -
  obtain i w1 where a: "input_int w = Some (i, w1)"
    using assms(2) by (auto simp: handle_input_send_def split: Option.bind_splits)
  note f = framed_int [OF assms(1) a]
  show ?thesis
  proof (cases "socket_hashmap_find (cl_streams w1) (ucast i)")
    case None
    then show ?thesis using assms(2) a f by (auto simp: handle_input_send_def)
  next
    case (Some entry)
    then obtain n w2 line w3 where "input_int w1 = Some (n, w2)" "read_input (unat n) w2 = Some (line, w3)"
      "send_chunks i (string_bytes line) (length line) 0 w3 = Some r"
      using assms(2) a by (auto simp: handle_input_send_def split: Option.bind_splits if_splits)
    then show ?thesis using f framed_int framed_read framed_chunks by metis
  qed
qed

lemma framed_input_recv:
  assumes "framed fd log w" "handle_input_recv w = Some r"
  shows "framed fd log (snd r)"
  using assms by (auto simp: handle_input_recv_def split: Option.bind_splits option.splits dest!: input_int_only)

lemma framed_input:
  assumes "framed fd log w" "client_sizes E" "handle_input E cmd w = Some r"
  shows "framed fd log (snd r)"
proof (cases "cmd = ''exit''")
  case True
  then show ?thesis using assms by (auto simp: handle_input_def)
next
  case exit: False
  let ?m = "w\<lparr>cl_buffer := ce_junk_cell E\<rparr>"
  have m: "framed fd log ?m" using assms(1,2) by (simp add: client_sizes_def framed_buffer)
  note mc = framed_cell [OF m]
  have p: "framed fd log (snd q)" if "handle_input_ping ?m = Some q" for q
    using that framed_send [OF m] mc by (auto simp: handle_input_ping_def framed_or_error tor_send_ping_msg_def)
  have d: "framed fd log (snd q)" if "handle_input_destroy ?m = Some q" for q
  proof -
    obtain ok w1 where w1: "tor_send_destroy_msg ?m = (ok, w1)" by fastforce
    then have "framed fd log w1" using framed_sent [OF m _ w1 [unfolded tor_send_destroy_msg_def]] mc by simp
    then show ?thesis using that w1 by (cases ok) (auto simp: handle_input_destroy_def)
  qed
  note each = p d framed_connect [OF m assms(2)] framed_close [OF m] framed_input_send [OF m] framed_input_recv [OF m]
  define c where "c = (if cmd = ''ping'' then handle_input_ping ?m
              else if cmd = ''destroy'' then handle_input_destroy ?m
              else if cmd = ''connect'' then handle_input_connect E ?m
              else if cmd = ''close'' then handle_input_close ?m
              else if cmd = ''send'' then handle_input_send E ?m
              else if cmd = ''recv'' then handle_input_recv ?m
              else Some (True, w))"
  have "map_option (\<lambda>(running, w'). (running, w'\<lparr>cl_buffer := cl_buffer w\<rparr>)) c = Some r"
    using assms(3) exit unfolding handle_input_def c_def Let_def by (simp only: if_False)
  then obtain q where q: "c = Some q" "snd r = (snd q)\<lparr>cl_buffer := cl_buffer w\<rparr>" by (auto split: prod.splits)
  have "framed fd log (snd q)" using q(1) assms(1) each unfolding c_def by (simp split: if_splits) auto
  then show ?thesis using q(2) framed_cell [OF assms(1)] by (simp add: framed_buffer)
qed

lemma framed_event:
  assumes "client_sizes E" "framed fd log w" "client_handle_event E event w = Some r"
  shows "framed fd log (snd r)"
proof -
  consider "event = MY_EVENT_RELAY" | "event = MY_EVENT_STDIN" "event \<noteq> MY_EVENT_RELAY"
    using assms(3) by (auto simp: client_handle_event_def split: if_splits)
  then show ?thesis
  proof cases
    case 1
    obtain ok w1 where w1: "recv_cell (cur_relays (cl_session w)) w = (ok, w1)" by fastforce
    from framed_recv [OF assms(2) w1] show ?thesis
      using assms(3) 1 w1 framed_cells [of fd log w1] by (cases ok) (auto simp: client_handle_event_def)
  next
    case 2
    then obtain rest cmd where "handle_input E cmd (w\<lparr>cl_input := rest\<rparr>) = Some r"
      using assms(3) by (auto simp: client_handle_event_def Let_def split: prod.splits if_splits)
    then show ?thesis using framed_input [of fd log "w\<lparr>cl_input := rest\<rparr>"] assms(1,2) by simp
  qed
qed

text \<open>The cells before the loop: \<open>create\<close> and one \<open>extend\<close> for each further relay.\<close>

lemma length_identity_key: "get_public_identity_key G k out = Some pk \<Longrightarrow> length out = 256 \<Longrightarrow> length pk = 256"
  by (simp add: get_public_identity_key_def get_dh_public_identity_key_def DH_KEY_BYTES_def) (erule (1) length_export)

lemma length_key_fields [simp]: "is_cell b \<Longrightarrow> length (create_public_key b) = 256" "is_cell b \<Longrightarrow> length (extend_public_key b) = 256"
  by (simp_all add: create_public_key_def extend_public_key_def)

lemma framed_create:
  assumes "framed fd log w" "client_create_message E w = Some (code, w')"
  shows "framed fd log w' \<and> circuit_relays (cl_session w') = circuit_relays (cl_session w)"
proof -
  obtain ok w1 where w1: "tor_send_create_msg E w = Some (ok, w1)"
    using assms(2) by (auto simp: client_create_message_def split: Option.bind_splits)
  let ?b = "set_cell_cmd TOR_CREATE (cl_buffer w)"
  obtain pk where pk: "get_public_identity_key (ce_gmp E) (ce_key E) (create_public_key ?b) = Some pk"
    "send_cell 0 (set_create_public_key pk ?b) w = (ok, w1)"
    using w1 by (auto simp: tor_send_create_msg_def Let_def split: Option.bind_splits)
  have f1: "framed fd log w1"
    using framed_sent [OF assms(1) _ pk(2)] length_identity_key [OF pk(1)] framed_cell [OF assms(1)] by simp
  obtain q w2 where w2: "recv_cell 0 w1 = (q, w2)" by fastforce
  show ?thesis
    using assms(2) w1 w2 f1 framed_recv [OF f1 w2] send_cell_session [OF pk(2)] recv_cell_session [OF w2]
    by (auto simp: client_create_message_def split: if_splits)
qed

lemma framed_extend:
  assumes "framed fd log w" "tor_send_extend_msg E d w = Some (ok, w')" "sock_addr_ok (rd_sock_addr d)"
  shows "framed fd log w'"
proof -
  let ?b = "set_relay_cmd RELAY_EXTEND (set_cell_cmd TOR_RELAY (cl_buffer w))"
  obtain pk where pk: "get_public_identity_key (ce_gmp E) (ce_key E) (extend_public_key ?b) = Some pk"
    "send_cell (cur_relays (cl_session w)) (set_relay_addr (rd_sock_addr d) (set_extend_public_key pk ?b)) w = (ok, w')"
    using assms(2) by (auto simp: tor_send_extend_msg_def Let_def split: Option.bind_splits)
  show ?thesis
    using framed_sent [OF assms(1) _ pk(2)] length_identity_key [OF pk(1)] framed_cell [OF assms(1)] assms(3) by simp
qed

lemma framed_circuit:
  assumes "framed fd log w" "create_relay_circuit E w = Some (code, w')"
    and "\<forall>d \<in> set (circuit_relays (cl_session w)). sock_addr_ok (rd_sock_addr d)"
  shows "framed fd log w'"
  using assms
proof (induction E w rule: create_relay_circuit.induct)
  case (1 E w)
  let ?d = "circuit_relays (cl_session w) ! cur_relays (cl_session w)"
  show ?case
  proof (cases "cur_relays (cl_session w) < length (circuit_relays (cl_session w))")
    case False
    then show ?thesis using "1.prems" by (subst (asm) create_relay_circuit.simps) simp
  next
    case more: True
    then obtain ok w1 where w1: "tor_send_extend_msg E ?d w = Some (ok, w1)"
      using "1.prems"(2) by (subst (asm) create_relay_circuit.simps) (auto split: option.splits)
    obtain ok' w2 where w2: "recv_cell (cur_relays (cl_session w1)) w1 = (ok', w2)" by fastforce
    have f1: "framed fd log w1" using framed_extend [OF "1.prems"(1) w1] "1.prems"(3) more by simp
    note f2 = framed_recv [OF f1 w2] and r = extend_session [OF w1] recv_cell_session [OF w2]
    let ?w2 = "w2\<lparr>cl_session := (cl_session w2)\<lparr>cur_relays := cur_relays (cl_session w2) + 1\<rparr>\<rparr>"
    show ?thesis
    proof (cases "ok \<and> ok' \<and> relay_cmd (cl_buffer w2) = RELAY_EXTENDED")
      case True
      then have "create_relay_circuit E ?w2 = Some (code, w')"
        using "1.prems"(2) more w1 w2 by (subst (asm) create_relay_circuit.simps) simp
      moreover have "framed fd log ?w2" using f2 by simp
      ultimately show ?thesis
        using "1.IH" [OF more, of "(ok, w1)" ok w1 "(ok', w2)" ok' w2] True w1 w2 r "1.prems"(3) by simp
    next
      case False
      then show ?thesis
        using "1.prems"(2) more w1 w2 f1 f2 by (subst (asm) create_relay_circuit.simps) (auto simp: Let_def split: if_splits)
    qed
  qed
qed

lemma create_returns:
  assumes "\<exists>pk. get_public_identity_key (ce_gmp E) (ce_key E) (create_public_key (set_cell_cmd TOR_CREATE (cl_buffer w))) = Some pk"
  shows "\<exists>r. client_create_message E w = Some r"
proof -
  obtain pk where "get_public_identity_key (ce_gmp E) (ce_key E) (create_public_key (set_cell_cmd TOR_CREATE (cl_buffer w))) = Some pk"
    using assms by blast
  moreover obtain ok w1 where "send_cell 0 (set_create_public_key pk (set_cell_cmd TOR_CREATE (cl_buffer w))) w = (ok, w1)" by fastforce
  moreover obtain q w2 where "recv_cell 0 w1 = (q, w2)" by fastforce
  ultimately show ?thesis by (simp add: client_create_message_def tor_send_create_msg_def Let_def)
qed

section \<open>Properties\<close>

text \<open>C12. Whatever the user types and whatever arrives, a client session writes nothing but whole cells, and
  only to its own link: from the \<open>create\<close> cell on, failures included.\<close>

theorem client_sends_whole_cells:
  assumes "client_sizes E" "\<forall>d \<in> set (circuit_relays (cl_session w)). sock_addr_ok (rd_sock_addr d)"
    and "process_client_session E events w = Some (code, w')"
  shows "\<exists>cells. net_out (cl_net w') = net_out (cl_net w) @ map (Pair (sock_fd (cl_session w))) cells \<and>
    (\<forall>c \<in> set cells. is_cell c)"
proof -
  let ?fd = "sock_fd (cl_session w)" and ?log = "net_out (cl_net w)" and ?w = "w\<lparr>cl_buffer := replicate TOR_MSG_SIZE 0\<rparr>"
  have f0: "framed ?fd ?log ?w" by (simp add: framed_def)
  obtain code1 w1 where w1: "client_create_message E ?w = Some (code1, w1)"
    using assms(3) by (auto simp: process_client_session_def split: Option.bind_splits)
  note f1 = framed_create [OF f0 w1]
  let ?w1 = "w1\<lparr>cl_session := (cl_session w1)\<lparr>cur_relays := 1\<rparr>\<rparr>"
  have "\<exists>v. net_out (cl_net w') = net_out (cl_net v) \<and> framed ?fd ?log v"
  proof (cases "code1 = client_success")
    case False
    then show ?thesis using assms(3) w1 f1 by (auto simp: process_client_session_def freed_log)
  next
    case True
    then obtain code2 w2 where w2: "create_relay_circuit E ?w1 = Some (code2, w2)"
      using assms(3) w1 by (auto simp: process_client_session_def split: Option.bind_splits)
    have f2: "framed ?fd ?log w2" using framed_circuit [OF _ w2] f1 assms(2) by simp
    show ?thesis
    proof (cases "code2 = client_success")
      case False
      then show ?thesis using assms(3) w1 w2 True f2 by (auto simp: process_client_session_def freed_log)
    next
      case True
      then have "client_events E events (w2\<lparr>cl_streams := socket_hashmap_init (ce_junk_streams E), cl_response := client_success\<rparr>) =
          Some (code, w')"
        using assms(3) w1 w2 \<open>code1 = client_success\<close> by (simp add: process_client_session_def process_events_def)
      then have "framed ?fd ?log (snd (code, w'))"
        by (rule client_events_keep [where P = "framed ?fd ?log", rotated 3]) (use f2 framed_event [OF assms(1)] in auto)
      then show ?thesis by auto
    qed
  qed
  then show ?thesis by (auto simp: framed_def list_all_iff)
qed

text \<open>A session whose first relay never answers: whatever the buffer then holds is judged as the answer.\<close>

lemma client_sends_whole_cells_witness:
  "\<exists>code w'. process_client_session sample_client_env [] (sample_client_run []) = Some (code, w') \<and>
    (\<forall>x \<in> set (net_out (cl_net w')). fst x = 4 \<and> is_cell (snd x))"
proof -
  let ?w = "sample_client_run []"
  have s: "client_sizes sample_client_env" by (simp add: client_sizes_def sample_client_env_def)
  have r: "\<forall>d \<in> set (circuit_relays (cl_session ?w)). sock_addr_ok (rd_sock_addr d)" by (simp add: sample_client_run_def)
  let ?b = "set_cell_cmd TOR_CREATE (replicate TOR_MSG_SIZE 0)"
  have "\<exists>pk. get_public_identity_key (ce_gmp sample_client_env) (ce_key sample_client_env) (create_public_key ?b) = Some pk"
    by (simp add: sample_client_env_def get_public_identity_key_def get_dh_public_identity_key_def export_mpz_fixed_def
        DH_KEY_BYTES_def ENDIAN_MPZ_def reference_gmp_def le_digits.simps mem_write_def)
  then obtain w1 where c: "client_create_message sample_client_env (?w\<lparr>cl_buffer := replicate TOR_MSG_SIZE 0\<rparr>) = Some w1"
    using create_returns [of sample_client_env "?w\<lparr>cl_buffer := replicate TOR_MSG_SIZE 0\<rparr>"] by auto
  have e: "circuit_relays (cl_session (snd w1)) = []"
    using framed_create [of 4 "net_out (cl_net ?w)" "?w\<lparr>cl_buffer := replicate TOR_MSG_SIZE 0\<rparr>" sample_client_env "fst w1" "snd w1"] c
    by (simp add: framed_def sample_client_run_def)
  then have "\<exists>code w'. process_client_session sample_client_env [] ?w = Some (code, w')"
    using c by (auto simp: process_client_session_def process_events_def create_relay_circuit.simps Let_def split: prod.splits)
  then obtain code w' where p: "process_client_session sample_client_env [] ?w = Some (code, w')" by blast
  from client_sends_whole_cells [OF s r p] show ?thesis using p by (auto simp: sample_client_run_def quiet_net_def)
qed

end
