(* ===== verification/Traffic.thy ===== *)
theory Traffic
  imports Circuit
begin

text \<open>
  A whole circuit at work: the client's session, the middle relays and the end relay, each running its own
  event loop, and a cell that travels through all of them. Every relay's loop gets one event, the cell on
  the link it came over; what it sends is what the next one receives.
\<close>

section \<open>A cell through the relays\<close>

text \<open>The cell is what the next read of the descriptor finds.\<close>

definition feed :: "int \<Rightarrow> bytes \<Rightarrow> 'r relay_run_scheme \<Rightarrow> 'r relay_run_scheme" where
  "feed fd c w = w\<lparr>rr_net := (rr_net w)\<lparr>net_in := (net_in (rr_net w))(fd := [c])\<rparr>\<rparr>"

definition last_sent :: "'r relay_run_scheme \<Rightarrow> bytes" where
  "last_sent w = snd (last (net_out (rr_net w)))"

fun carry :: "relay_env \<Rightarrow> relay_run list \<Rightarrow> bytes \<Rightarrow> (relay_code option \<times> relay_run) list \<times> bytes" where
  "carry E [] c = ([], c)"
| "carry E (m # ms) c =
     (let fd = last_fd (rr_session m);
          r = middle_events E [Some fd] (feed fd c m);
          (rs, c') = carry E ms (last_sent (snd r))
      in (r # rs, c'))"

fun carry_back :: "relay_env \<Rightarrow> relay_run list \<Rightarrow> bytes \<Rightarrow> (relay_code option \<times> relay_run) list \<times> bytes" where
  "carry_back E [] c = ([], c)"
| "carry_back E (m # ms) c =
     (let (rs, c') = carry_back E ms c;
          fd = next_fd (rr_session m);
          r = middle_events E [Some fd] (feed fd c' m)
      in (r # rs, last_sent (snd r)))"

text \<open>The relays' sessions fit together: each link has one key at both ends, and the sockets work.\<close>

definition session_hop :: "relay_session \<Rightarrow> hop" where
  "session_hop ses = (tls_last_key ses, onion_key ses)"

fun linked :: "relay_session list \<Rightarrow> bool" where
  "linked (a # b # r) \<longleftrightarrow> symmetric_key (tls_next_key a) = symmetric_key (tls_last_key b) \<and> linked (b # r)"
| "linked r \<longleftrightarrow> True"

definition middle_up :: "relay_run \<Rightarrow> bool" where
  "middle_up m \<longleftrightarrow> last_fd (rr_session m) \<noteq> next_fd (rr_session m) \<and>
     net_ok (rr_net m) (last_fd (rr_session m)) \<and> net_ok (rr_net m) (next_fd (rr_session m))"

definition circuit_hops :: "relay_run list \<Rightarrow> relay_session \<Rightarrow> hop list" where
  "circuit_hops ms ses = map (\<lambda>m. session_hop (rr_session m)) ms @ [session_hop ses]"

definition circuit_up :: "relay_env \<Rightarrow> relay_run list \<Rightarrow> end_run \<Rightarrow> bool" where
  "circuit_up E ms e \<longleftrightarrow> is_cell (re_junk_cell E) \<and> list_all middle_up ms \<and> linked (map rr_session ms @ [rr_session e]) \<and>
     net_ok (rr_net e) (last_fd (rr_session e)) \<and> is_cell (rr_buffer e)"

section \<open>One relay\<close>

lemma link_encrypt_key: "symmetric_key k = symmetric_key k' \<Longrightarrow> link_encrypt (Some k) b = link_encrypt (Some k') b"
  "symmetric_key k = symmetric_key k' \<Longrightarrow> link_decrypt (Some k) b = link_decrypt (Some k') b"
  by (simp_all add: link_encrypt_def link_decrypt_def symmetric_encrypt_def symmetric_decrypt_def)

lemma seal_key:
  "symmetric_key k = symmetric_key k' \<Longrightarrow> relay_seal (Some k) key f b = relay_seal (Some k') key f b"
  "symmetric_key k = symmetric_key k' \<Longrightarrow> relay_open (Some k) key f b = relay_open (Some k') key f b"
  by (simp_all only: relay_seal_def relay_open_def link_encrypt_key [of k k'])

text \<open>The command of a cell lies before what the onion layers cover.\<close>

lemma onion_cmd: "is_cell b \<Longrightarrow> cell_cmd (onion_decrypt k b) = cell_cmd b"
  by (simp add: onion_ecb cell_cmd_def nth_append)

lemma open_cmd: "is_cell b \<Longrightarrow> cell_cmd (relay_open (Some t) (Some k) True b) = cell_cmd (link_decrypt (Some t) b)"
  by (simp add: relay_open_def onion_cmd Let_def)

text \<open>So every relay on the way reads the command that arrives.\<close>

lemma deliver_cmd:
  "is_cell c \<Longrightarrow> cell_cmd (deliver ((t, k) # hops) c) = cell_cmd (relay_open (Some t) (Some k) True c)"
proof (induction hops arbitrary: t k c)
  case Nil
  then show ?case by simp
next
  case (Cons h hops)
  obtain t' k' where h: "h = (t', k')" by fastforce
  let ?p = "relay_open (Some t) (Some k) True c"
  have p: "is_cell ?p" "is_cell (relay_seal (Some t') (Some k) False ?p)" using Cons.prems by simp_all
  then have "cell_cmd (relay_open (Some t') (Some k') True (relay_seal (Some t') (Some k) False ?p)) = cell_cmd ?p"
    using open_cmd [OF p(2)] link_inverse [OF p(1), of "Some t'" "Some t'"] by (simp add: relay_seal_def)
  then show ?case using Cons.IH [OF p(2)] h by simp
qed

text \<open>What a middle relay's loop does with a cell from either side.\<close>

definition sent_to :: "int \<Rightarrow> bytes \<Rightarrow> relay_run \<Rightarrow> relay_run \<Rightarrow> bool" where
  "sent_to fd b w w' \<longleftrightarrow> rr_session w' = rr_session w \<and> net_ok (rr_net w') = net_ok (rr_net w) \<and> last_sent w' = b \<and>
     net_out (rr_net w') = net_out (rr_net w) @ [(fd, b)]"

lemma feed_facts [simp]:
  "rr_session (feed fd c w) = rr_session w" "net_in (rr_net (feed fd c w)) = (net_in (rr_net w))(fd := [c])"
  "net_ok (rr_net (feed fd c w)) = net_ok (rr_net w)" "net_out (rr_net (feed fd c w)) = net_out (rr_net w)"
  "rr_buffer (feed fd c w) = rr_buffer w"
  by (simp_all add: feed_def)

lemma feed_streams [simp]: "er_streams (feed fd c (w :: end_run)) = er_streams w"
  by (simp add: feed_def)

lemma middle_passes_on:
  fixes m :: relay_run
  assumes "is_cell (re_junk_cell E)" "middle_up m" "is_cell c"
  defines "ses \<equiv> rr_session m"
  defines "p \<equiv> relay_open (Some (tls_last_key ses)) (Some (onion_key ses)) True c"
  defines "sent \<equiv> relay_seal (Some (tls_next_key ses)) (Some (onion_key ses)) False p"
  shows "\<exists>m'. middle_events E [Some (last_fd ses)] (feed (last_fd ses) c m) =
      (if cell_cmd p = TOR_DESTROY then Some relay_success else None, m') \<and> sent_to (next_fd ses) sent m m'"
proof -
  have ne: "c \<noteq> []" using assms(3) by auto
  have "relay_recv_tor_buffer (last_fd ses) (re_junk_cell E) (Some (tls_last_key ses)) (Some (onion_key ses)) True
      (rr_net (feed (last_fd ses) c m)) = (True, p, (rr_net m)\<lparr>net_in := (net_in (rr_net m))(last_fd ses := [])\<rparr>)"
    using assms(1,3) relay_recv_whole [OF _ _ ne, of "rr_net (feed (last_fd ses) c m)" "last_fd ses" "[]" "re_junk_cell E"]
    by (auto simp: p_def feed_def)
  then show ?thesis
    using assms(2)
    by (simp add: process_event_def handle_last_fd_def handle_fd_common_def relay_send_out ses_def sent_def sent_to_def
        middle_up_def last_sent_def Let_def feed_def)
qed

lemma middle_passes_back:
  fixes m :: relay_run
  assumes "is_cell (re_junk_cell E)" "middle_up m" "is_cell c"
  defines "ses \<equiv> rr_session m"
  defines "sent \<equiv> relay_seal (Some (tls_last_key ses)) (Some (onion_key ses)) True
      (relay_open (Some (tls_next_key ses)) (Some (onion_key ses)) False c)"
  shows "\<exists>m'. middle_events E [Some (next_fd ses)] (feed (next_fd ses) c m) = (None, m') \<and> sent_to (last_fd ses) sent m m'"
proof -
  have ne: "c \<noteq> []" using assms(3) by auto
  have "relay_recv_tor_buffer (next_fd ses) (re_junk_cell E) (Some (tls_next_key ses)) (Some (onion_key ses)) False
      (rr_net (feed (next_fd ses) c m)) = (True, relay_open (Some (tls_next_key ses)) (Some (onion_key ses)) False c,
        (rr_net m)\<lparr>net_in := (net_in (rr_net m))(next_fd ses := [])\<rparr>)"
    using assms(1,3) relay_recv_whole [OF _ _ ne, of "rr_net (feed (next_fd ses) c m)" "next_fd ses" "[]" "re_junk_cell E"]
    by (auto simp: feed_def)
  then show ?thesis
    using assms(2)
    by (simp add: process_event_def handle_next_fd_def handle_fd_common_def relay_send_out ses_def sent_def sent_to_def
        middle_up_def last_sent_def Let_def feed_def)
qed

section \<open>The whole circuit\<close>

lemma carry_forward:
  assumes "is_cell (re_junk_cell E)" "list_all middle_up ms" "linked (map rr_session ms @ [ses])" "is_cell c"
  defines "hops \<equiv> circuit_hops ms ses"
  shows "is_cell (snd (carry E ms c)) \<and>
    relay_open (Some (tls_last_key ses)) (Some (onion_key ses)) True (snd (carry E ms c)) = deliver hops c \<and>
    map fst (fst (carry E ms c)) = replicate (length ms) (if cell_cmd (deliver hops c) = TOR_DESTROY then Some relay_success else None) \<and>
    list_all2 (\<lambda>m r. rr_session (snd r) = rr_session m \<and> net_ok (rr_net (snd r)) = net_ok (rr_net m)) ms (fst (carry E ms c))"
  using assms(2-4) unfolding hops_def
proof (induction ms arbitrary: c)
  case Nil
  then show ?case by (simp add: circuit_hops_def session_hop_def)
next
  case (Cons m ms)
  let ?s = "rr_session m"
  let ?p = "relay_open (Some (tls_last_key ?s)) (Some (onion_key ?s)) True c"
  let ?sent = "relay_seal (Some (tls_next_key ?s)) (Some (onion_key ?s)) False ?p"
  obtain m' where m': "middle_events E [Some (last_fd ?s)] (feed (last_fd ?s) c m) =
      (if cell_cmd ?p = TOR_DESTROY then Some relay_success else None, m')" "sent_to (next_fd ?s) ?sent m m'"
    using middle_passes_on [OF assms(1), of m c] Cons.prems(1,3) by fastforce
  have l: "last_sent m' = ?sent" "is_cell ?sent" using m'(2) Cons.prems(3) by (simp_all add: sent_to_def)
  have "linked (map rr_session ms @ [ses])" using Cons.prems(2) by (cases ms) auto
  note ih = Cons.IH [OF _ this l(2)]
  obtain t' k' hops' where h: "circuit_hops ms ses = (t', k') # hops'" "symmetric_key (tls_next_key ?s) = symmetric_key t'"
    using Cons.prems(2) by (cases ms) (auto simp: circuit_hops_def session_hop_def)
  have d: "deliver (circuit_hops (m # ms) ses) c = deliver (circuit_hops ms ses) ?sent"
    using h seal_key(1) [OF h(2)] by (simp add: circuit_hops_def session_hop_def)
  have "cell_cmd (deliver (circuit_hops (m # ms) ses) c) = cell_cmd ?p"
    using deliver_cmd [OF Cons.prems(3), of "tls_last_key ?s" "onion_key ?s" "circuit_hops ms ses"]
    by (simp add: circuit_hops_def session_hop_def)
  then show ?case
    using ih m' l(1) d Cons.prems(1) by (simp add: Let_def case_prod_beta sent_to_def del: middle_events.simps)
qed

lemma carry_backward:
  assumes "is_cell (re_junk_cell E)" "list_all middle_up ms" "linked (map rr_session ms @ [ses])" "is_cell b"
  defines "c \<equiv> relay_seal (Some (tls_last_key ses)) (Some (onion_key ses)) True b"
  shows "snd (carry_back E ms c) = send_back (circuit_hops ms ses) b \<and>
    map fst (fst (carry_back E ms c)) = replicate (length ms) None"
  using assms(2,3)
proof (induction ms)
  case Nil
  then show ?case by (simp add: circuit_hops_def session_hop_def c_def)
next
  case (Cons m ms)
  let ?s = "rr_session m"
  have "linked (map rr_session ms @ [ses])" using Cons.prems(2) by (cases ms) auto
  then have ih: "snd (carry_back E ms c) = send_back (circuit_hops ms ses) b" "map fst (fst (carry_back E ms c)) = replicate (length ms) None"
    using Cons.IH Cons.prems(1) by auto
  obtain t' k' hops' where h: "circuit_hops ms ses = (t', k') # hops'" "symmetric_key (tls_next_key ?s) = symmetric_key t'"
    using Cons.prems(2) by (cases ms) (auto simp: circuit_hops_def session_hop_def)
  obtain m' where "middle_events E [Some (next_fd ?s)] (feed (next_fd ?s) (snd (carry_back E ms c)) m) = (None, m')"
    "sent_to (last_fd ?s) (relay_seal (Some (tls_last_key ?s)) (Some (onion_key ?s)) True
      (relay_open (Some (tls_next_key ?s)) (Some (onion_key ?s)) False (snd (carry_back E ms c)))) m m'"
    using middle_passes_back [OF assms(1), of m "snd (carry_back E ms c)"] Cons.prems(1) assms(4) ih(1) by fastforce
  then show ?case
    using ih h seal_key(2) [OF h(2)] by (simp add: Let_def case_prod_beta sent_to_def circuit_hops_def session_hop_def del: middle_events.simps)
qed

text \<open>The end relay's loop on a cell that has come all the way.\<close>

lemma end_receives:
  assumes "is_cell c" "is_cell (rr_buffer e)"
  defines "ses \<equiv> rr_session e"
  shows "end_events [Event CLIENT_STREAM_ID] (feed (last_fd ses) c e) =
    Option.bind (handle_client_msg (e\<lparr>rr_buffer := relay_open (Some (tls_last_key ses)) (Some (onion_key ses)) True c,
        rr_net := (rr_net e)\<lparr>net_in := (net_in (rr_net e))(last_fd ses := [])\<rparr>\<rparr>))
      (\<lambda>(ok, w). Some (if ok then (False, w) else (True, close_streams w)))"
proof -
  have ne: "c \<noteq> []" using assms(1) by auto
  have "relay_recv_tor_buffer (last_fd ses) (rr_buffer e) (Some (tls_last_key ses)) (Some (onion_key ses)) True
      (rr_net (feed (last_fd ses) c e)) = (True, relay_open (Some (tls_last_key ses)) (Some (onion_key ses)) True c,
        (rr_net e)\<lparr>net_in := (net_in (rr_net e))(last_fd ses := [])\<rparr>)"
    using assms(1,2) relay_recv_whole [OF _ _ ne, of "rr_net (feed (last_fd ses) c e)" "last_fd ses" "[]" "rr_buffer e"]
    by (auto simp: feed_def)
  then show ?thesis
    by (auto simp: handle_epoll_event_def end_handle_event_def ses_def feed_def Let_def split: option.splits prod.splits bool.splits
        Option.bind_splits)
qed

text \<open>A padding cell makes the end relay send it back, and means nothing to the client.\<close>

lemma end_echoes:
  assumes "is_cell c" "is_cell (rr_buffer e)" "net_ok (rr_net e) (last_fd (rr_session e))"
    and "relay_open (Some (tls_last_key (rr_session e))) (Some (onion_key (rr_session e))) True c = got"
    and "cell_cmd got = TOR_PADDING"
  shows "\<exists>e'. end_events [Event CLIENT_STREAM_ID] (feed (last_fd (rr_session e)) c e) = Some (False, e') \<and>
    er_streams e' = er_streams e \<and>
    net_out (rr_net e') = net_out (rr_net e) @ [(last_fd (rr_session e), client_wire (rr_session e) got)]"
proof -
  let ?e = "e\<lparr>rr_buffer := got, rr_net := (rr_net e)\<lparr>net_in := (net_in (rr_net e))(last_fd (rr_session e) := [])\<rparr>\<rparr>"
  have "net_ok (rr_net ?e) (last_fd (rr_session ?e))" using assms(3) by simp
  note s = send_to_client_out [OF this, of got]
  have "handle_client_msg ?e = Some (or_error (send_to_client got ?e))"
    using assms(5) by (simp add: handle_client_msg_def TOR_PADDING_def TOR_DESTROY_def)
  then show ?thesis using end_receives [OF assms(1,2)] assms(4) by (simp only: s) (simp add: or_error_def)
qed

lemma client_hears:
  assumes "net_in (cl_net w) (sock_fd (cl_session w)) = [c]" "is_cell c" "is_cell (cl_buffer w)" 
    and "cell_cmd (client_open (Some (tls_key (cl_session w))) (onion_keys (cl_session w)) (cur_relays (cl_session w)) c) = TOR_PADDING"
  shows "\<exists>w'. client_events C [Some [MY_EVENT_RELAY]] w = Some (None, w') \<and> cl_streams w' = cl_streams w \<and>
    cell_cmd (cl_buffer w') = TOR_PADDING"
proof -
  have ne: "c \<noteq> []" using assms(2) by auto
  have "\<exists>s. recv_cell (cur_relays (cl_session w)) w = (True, w\<lparr>cl_buffer := client_open (Some (tls_key (cl_session w)))
      (onion_keys (cl_session w)) (cur_relays (cl_session w)) c, cl_net := s\<rparr>)"
    using read_buffer_whole [OF assms(1) _ ne, of "cl_buffer w"] assms(2,3)
    by (auto simp: recv_cell_def client_recv_tor_buffer_def Let_def)
  then show ?thesis
    using assms(4) by (auto simp: handle_event_chunk_def client_handle_event_def handle_relay_msg_def TOR_PADDING_def TOR_RELAY_def)
qed

section \<open>Properties\<close>

lemma closed_streams: "net_closed (fold close_fd fds s) = net_closed s @ fds"
  by (induction fds arbitrary: s) (simp_all add: close_fd_def)

lemma open_freed: "fst ` open_streams m \<subseteq> set (socket_hashmap_free m)"
  by (auto simp: open_streams_def socket_hashmap_free_def image_iff)

text \<open>A command of the user that sends one cell with a given command to the whole circuit.\<close>

lemma input_sends:
  assumes "is_cell (ce_junk_cell C)" "net_ok (cl_net cw) (sock_fd ses)" "ses = cl_session cw" "cur_relays ses = n"
    and "input = ''ping'' \<and> cmd = TOR_PADDING \<or> input = ''destroy'' \<and> cmd = TOR_DESTROY"
  defines "wire \<equiv> client_seal (Some (tls_key ses)) (onion_keys ses) n (set_cell_cmd cmd (ce_junk_cell C))"
  shows "\<exists>cw'. handle_input C input cw = Some (input = ''ping'', cw') \<and> cl_session cw' = ses \<and> cl_streams cw' = cl_streams cw \<and>
     cl_buffer cw' = cl_buffer cw \<and> cl_response cw' = (if input = ''ping'' then cl_response cw else client_success) \<and>
     cl_net cw' = (cl_net cw)\<lparr>net_out := net_out (cl_net cw) @ [(sock_fd ses, wire)]\<rparr>"
  using assms
  by (auto simp: handle_input_def handle_input_ping_def handle_input_destroy_def tor_send_ping_msg_def tor_send_destroy_msg_def
      send_cell_out or_client_error_def)

text \<open>C7. \<open>destroy\<close> takes a circuit of any length down: the one cell the client sends for it is passed on by
  every middle relay, each of which then ends with success, and reaches the end relay, which ends with
  success too and closes the sockets of all its streams.\<close>

theorem destroy_ends_circuit:
  assumes "is_cell (ce_junk_cell C)" "ses = cl_session cw" "net_ok (cl_net cw) (sock_fd ses)"
    and "shares_keys (tls_key ses) (onion_keys ses) (circuit_hops ms (rr_session e))" "cur_relays ses = Suc (length ms)"
    and "circuit_up E ms e"
  shows "\<exists>cw' wire rs arrived e'. handle_input C ''destroy'' cw = Some (False, cw') \<and> cl_response cw' = client_success \<and>
     net_out (cl_net cw') = net_out (cl_net cw) @ [(sock_fd ses, wire)] \<and>
     carry E ms wire = (rs, arrived) \<and> map fst rs = replicate (length ms) (Some relay_success) \<and>
     end_events [Event CLIENT_STREAM_ID] (feed (last_fd (rr_session e)) arrived e) = Some (True, e') \<and>
     rr_response e' = relay_success \<and> fst ` open_streams (er_streams e) \<subseteq> set (net_closed (rr_net e'))"
proof -
  let ?c = "set_cell_cmd TOR_DESTROY (ce_junk_cell C)" and ?hops = "circuit_hops ms (rr_session e)"
  have n: "length ?hops = Suc (length ms)" by (simp add: circuit_hops_def)
  note up = assms(6) [unfolded circuit_up_def]
  have c: "is_cell ?c" using assms(1) by simp
  let ?wire = "client_seal (Some (tls_key ses)) (onion_keys ses) (length ?hops) ?c"
  note a = arrives [OF assms(4) c]
  have d: "cell_cmd (deliver ?hops ?wire) = TOR_DESTROY"
    using intact_fields(1) [OF a(2,1) c] assms(1) by (simp add: cell_writers cell_cmd_def nth_splice)
  obtain rs arrived where r: "carry E ms ?wire = (rs, arrived)" by fastforce
  have f: "is_cell arrived" "relay_open (Some (tls_last_key (rr_session e))) (Some (onion_key (rr_session e))) True arrived = deliver ?hops ?wire"
    "map fst rs = replicate (length ms) (Some relay_success)"
    using carry_forward [of E ms "rr_session e" ?wire] up length_seal [OF c] d r by auto
  have "end_events [Event CLIENT_STREAM_ID] (feed (last_fd (rr_session e)) arrived e) =
      Some (True, close_streams (e\<lparr>rr_buffer := deliver ?hops ?wire,
        rr_net := (rr_net e)\<lparr>net_in := (net_in (rr_net e))(last_fd (rr_session e) := [])\<rparr>, rr_response := relay_success\<rparr>))"
    using end_receives [OF f(1), of e] up f(2) d by (simp add: handle_client_msg_def)
  moreover obtain cw' where "handle_input C ''destroy'' cw = Some (False, cw')" "cl_response cw' = client_success"
    "net_out (cl_net cw') = net_out (cl_net cw) @ [(sock_fd ses, ?wire)]"
    using input_sends [OF assms(1,3,2,5), of "''destroy''" TOR_DESTROY] n by auto
  ultimately show ?thesis
    using r f(3) up open_freed [of "er_streams e"]
    by (intro exI [of _ cw'] exI [of _ ?wire] exI [of _ rs] exI [of _ arrived]) (auto simp: close_streams_def closed_streams)
qed

text \<open>The two relays of the sample client, one in the middle, one at the end.\<close>

definition sample_middle :: relay_run where
  "sample_middle = sample_relay_run (replicate 512 0)"

definition sample_end :: end_run where
  "sample_end = (sample_end_run (replicate 512 0))\<lparr>rr_session := \<lparr>onion_key = key_of 3, tls_last_key = key_of 5,
     tls_next_key = key_of 0, last_fd = 4, next_fd = -1\<rparr>\<rparr>"

lemma sample_circuit_up:
  "circuit_up sample_relay_env [sample_middle] sample_end"
  "circuit_hops [sample_middle] (rr_session sample_end) = sample_hops"
  by (simp_all add: circuit_up_def circuit_hops_def session_hop_def middle_up_def sample_middle_def sample_end_def sample_hops_def
      sample_relay_env_def sample_relay_run_def quiet_net_def)

lemma sample_client:
  "cl_session (sample_client_run []) = \<lparr>onion_keys = [key_of 2, key_of 3], tls_key = key_of 1, sock_fd = 4,
     circuit_relays = [], cur_relays = 2, config_relays = 2\<rparr>"
  "net_ok (cl_net (sample_client_run [])) 4" "is_cell (ce_junk_cell sample_client_env)" "net_out (cl_net (sample_client_run [])) = []"
  by (simp_all add: sample_client_run_def quiet_net_def sample_client_env_def)

lemma destroy_ends_circuit_witness:
  "\<exists>cw' wire m' arrived e'. handle_input sample_client_env ''destroy'' (sample_client_run []) = Some (False, cw') \<and>
     carry sample_relay_env [sample_middle] wire = ([(Some relay_success, m')], arrived) \<and>
     end_events [Event CLIENT_STREAM_ID] (feed 4 arrived sample_end) = Some (True, e') \<and> rr_response e' = relay_success"
proof -
  have k: "shares_keys (key_of 1) [key_of 2, key_of 3] (circuit_hops [sample_middle] (rr_session sample_end))"
    using sample_hops(1) sample_circuit_up(2) by simp
  have e: "last_fd (rr_session sample_end) = 4" by (simp add: sample_end_def)
  show ?thesis
    using destroy_ends_circuit [OF sample_client(3) refl _ _ _ sample_circuit_up(1), of "sample_client_run []"] k e sample_client
    by (fastforce simp: length_Suc_conv)
qed

text \<open>C8. \<open>ping\<close> goes round a circuit of any length: the end relay sends the padding cell back, every relay passes it
  on both ways and goes on, and the client reads it as a padding cell, its streams and those of the end relay
  as they were.\<close>

theorem ping_returns:
  assumes "is_cell (ce_junk_cell C)" "ses = cl_session cw" "net_ok (cl_net cw) (sock_fd ses)" "is_cell (cl_buffer cw)"
    and "shares_keys (tls_key ses) (onion_keys ses) (circuit_hops ms (rr_session e))" "cur_relays ses = Suc (length ms)"
    and "circuit_up E ms e"
  shows "\<exists>cw' wire rs arrived e' echo bs returned. handle_input C ''ping'' cw = Some (True, cw') \<and>
     net_out (cl_net cw') = net_out (cl_net cw) @ [(sock_fd ses, wire)] \<and>
     carry E ms wire = (rs, arrived) \<and> map fst rs = replicate (length ms) None \<and>
     end_events [Event CLIENT_STREAM_ID] (feed (last_fd (rr_session e)) arrived e) = Some (False, e') \<and>
     er_streams e' = er_streams e \<and> net_out (rr_net e') = net_out (rr_net e) @ [(last_fd (rr_session e), echo)] \<and>
     carry_back E (map snd rs) echo = (bs, returned) \<and> map fst bs = replicate (length ms) None \<and>
     (\<exists>cw''. client_events C [Some [MY_EVENT_RELAY]] (cw'\<lparr>cl_net := (cl_net cw')\<lparr>net_in := (net_in (cl_net cw'))(sock_fd ses := [returned])\<rparr>\<rparr>) =
       Some (None, cw'') \<and> cl_streams cw'' = cl_streams cw \<and> cell_cmd (cl_buffer cw'') = TOR_PADDING)"
proof -
  let ?c = "set_cell_cmd TOR_PADDING (ce_junk_cell C)" and ?ses = "rr_session e"
  let ?hops = "circuit_hops ms ?ses"
  have n: "length ?hops = Suc (length ms)" by (simp add: circuit_hops_def)
  note up = assms(7) [unfolded circuit_up_def]
  have c: "is_cell ?c" "cell_cmd ?c = TOR_PADDING" using assms(1) by (simp_all add: cell_writers cell_cmd_def nth_splice)
  let ?wire = "client_seal (Some (tls_key ses)) (onion_keys ses) (length ?hops) ?c"
  let ?got = "deliver ?hops ?wire" and ?echo = "client_wire ?ses (deliver ?hops ?wire)"
  note a = arrives [OF assms(5) c(1)]
  have d: "cell_cmd ?got = TOR_PADDING" using intact_fields(1) [OF a(2,1) c(1)] c(2) by simp
  have nd: "TOR_PADDING \<noteq> TOR_DESTROY" by (simp add: TOR_PADDING_def TOR_DESTROY_def)
  obtain rs arrived where r: "carry E ms ?wire = (rs, arrived)" by fastforce
  have f: "is_cell arrived" "relay_open (Some (tls_last_key ?ses)) (Some (onion_key ?ses)) True arrived = ?got"
    "map fst rs = replicate (length ms) None"
    "list_all2 (\<lambda>m r. rr_session (snd r) = rr_session m \<and> net_ok (rr_net (snd r)) = net_ok (rr_net m)) ms rs"
    using carry_forward [of E ms ?ses ?wire] up length_seal [OF c(1)] d r nd by auto
  obtain e' where e': "end_events [Event CLIENT_STREAM_ID] (feed (last_fd ?ses) arrived e) = Some (False, e')"
    "er_streams e' = er_streams e" "net_out (rr_net e') = net_out (rr_net e) @ [(last_fd ?ses, ?echo)]"
    using end_echoes [OF f(1) _ _ f(2) d] up by auto
  have same: "map (\<lambda>m. rr_session m) (map snd rs) = map (\<lambda>m. rr_session m) ms" "list_all middle_up (map snd rs) = list_all middle_up ms"
    using f(4) by (induction ms rs rule: list_all2_induct) (auto simp: middle_up_def)
  have "circuit_hops xs ?ses = map session_hop (map (\<lambda>m. rr_session m) xs) @ [session_hop ?ses]" for xs
    by (simp add: circuit_hops_def)
  then have hops: "circuit_hops (map snd rs) ?ses = ?hops" by (simp only: same(1))
  obtain bs returned where b: "carry_back E (map snd rs) ?echo = (bs, returned)" by fastforce
  have returned: "returned = send_back ?hops ?got" "map fst bs = replicate (length ms) None"
    using carry_backward [of E "map snd rs" ?ses ?got] up same hops a(1) b f(3)
    by (auto simp: client_wire_def dest: arg_cong [where f = length])
  note z = arrives_back [OF assms(5) a(1), folded returned(1)]
  have zc: "cell_cmd (client_open (Some (tls_key ses)) (onion_keys ses) (length ?hops) returned) = TOR_PADDING"
    using intact_fields(1) [OF z(2,1) a(1)] d by simp
  obtain cw' where cw': "handle_input C ''ping'' cw = Some (True, cw')" "cl_session cw' = ses" "cl_streams cw' = cl_streams cw"
    "cl_buffer cw' = cl_buffer cw" "cl_response cw' = cl_response cw"
    "cl_net cw' = (cl_net cw)\<lparr>net_out := net_out (cl_net cw) @ [(sock_fd ses, ?wire)]\<rparr>"
    using input_sends [OF assms(1,3,2,6), of "''ping''" TOR_PADDING] n by auto
  let ?cw = "cw'\<lparr>cl_net := (cl_net cw')\<lparr>net_in := (net_in (cl_net cw'))(sock_fd ses := [returned])\<rparr>\<rparr>"
  have "is_cell returned" "cur_relays ses = length ?hops" using returned(1) a(1) n assms(6) by simp_all
  then have "\<exists>cw''. client_events C [Some [MY_EVENT_RELAY]] ?cw = Some (None, cw'') \<and> cl_streams cw'' = cl_streams cw \<and>
      cell_cmd (cl_buffer cw'') = TOR_PADDING"
    using client_hears [of ?cw returned C] cw' assms(4) zc by simp
  moreover have "net_out (cl_net cw') = net_out (cl_net cw) @ [(sock_fd ses, ?wire)]" using cw'(6) by simp
  ultimately show ?thesis using cw'(1) r f(3) e' b returned(2) by blast
qed

lemma ping_returns_witness:
  "\<exists>cw' wire m' arrived e' echo m'' returned. handle_input sample_client_env ''ping'' (sample_client_run []) = Some (True, cw') \<and>
     carry sample_relay_env [sample_middle] wire = ([(None, m')], arrived) \<and>
     end_events [Event CLIENT_STREAM_ID] (feed 4 arrived sample_end) = Some (False, e') \<and>
     carry_back sample_relay_env [m'] echo = ([(None, m'')], returned)"
proof -
  have k: "shares_keys (key_of 1) [key_of 2, key_of 3] (circuit_hops [sample_middle] (rr_session sample_end))"
    using sample_hops(1) sample_circuit_up(2) by simp
  have e: "last_fd (rr_session sample_end) = 4" by (simp add: sample_end_def)
  have b: "is_cell (cl_buffer (sample_client_run []))" by (simp add: sample_client_run_def)
  show ?thesis
    using ping_returns [OF sample_client(3) refl _ b _ _ sample_circuit_up(1)] k e sample_client
    by (fastforce simp: length_Suc_conv)
qed

end
