(* ===== verification/Registry.thy ===== *)
theory Registry
  imports Net Relay_Manager
begin

text \<open>
  What the sessions of the server rely on when they use the relay table: which ids are registered, the cell
  each stands for and the descriptor in it. The locale \<open>relay_registry\<close> states the contract of the functions of
  \<open>src/server/services/relay_manager.c\<close> and of the accesses through the pointers they return; it is
  interpreted on the model of those functions.
\<close>

section \<open>Accesses through a pointer to a relay\<close>

text \<open>The descriptor and the id of a cell, and the cell with another descriptor; \<open>None\<close> when it was freed.\<close>

definition cell_descriptor :: "relay_manager \<Rightarrow> nat \<Rightarrow> relay_descriptor option" where
  "cell_descriptor m a = map_option rd_descriptor (rm_heap m a)"

definition cell_id :: "relay_manager \<Rightarrow> nat \<Rightarrow> u32 option" where
  "cell_id m a = map_option rd_relay_id (rm_heap m a)"

definition put_descriptor :: "relay_manager \<Rightarrow> nat \<Rightarrow> relay_descriptor \<Rightarrow> relay_manager option" where
  "put_descriptor m a x = map_option (\<lambda>c. m\<lparr>rm_heap := (rm_heap m)(a \<mapsto> c\<lparr>rd_descriptor := x\<rparr>)\<rparr>) (rm_heap m a)"

text \<open>The table as a finite map from ids to cells and descriptors.\<close>

definition entries :: "relay_manager \<Rightarrow> nat \<Rightarrow> (nat \<times> relay_descriptor) option" where
  "entries m i = Option.bind (get_relay m i) (\<lambda>a. map_option (Pair a) (cell_descriptor m a))"

section \<open>The contract\<close>

locale relay_registry =
  fixes entries :: "'m \<Rightarrow> nat \<Rightarrow> (nat \<times> relay_descriptor) option"
    and ok :: "'m \<Rightarrow> bool" and room :: "'m \<Rightarrow> bool"
    and gen :: "'m \<Rightarrow> (nat \<times> 'm) option" and remove :: "'m \<Rightarrow> nat \<Rightarrow> (bool \<times> 'm) option"
    and find :: "'m \<Rightarrow> nat \<Rightarrow> nat option"
    and read :: "'m \<Rightarrow> nat \<Rightarrow> relay_descriptor option" and id_of :: "'m \<Rightarrow> nat \<Rightarrow> u32 option"
    and put :: "'m \<Rightarrow> nat \<Rightarrow> relay_descriptor \<Rightarrow> 'm option"
  assumes gen: "ok m \<Longrightarrow> room m \<Longrightarrow> \<exists>i a m'. gen m = Some (a, m') \<and> ok m' \<and> entries m i = None \<and>
      (\<forall>j b d. entries m j = Some (b, d) \<longrightarrow> b \<noteq> a) \<and> entries m' = (entries m)(i \<mapsto> (a, zero_descriptor))"
    and remove: "ok m \<Longrightarrow> entries m i = Some (a, d) \<Longrightarrow>
      \<exists>m'. remove m i = Some (True, m') \<and> ok m' \<and> entries m' = (entries m)(i := None) \<and>
        read m' a = None \<and> id_of m' a = None"
    and find: "ok m \<Longrightarrow> find m i = map_option fst (entries m i)"
    and read: "ok m \<Longrightarrow> entries m i = Some (a, d) \<Longrightarrow> read m a = Some d"
    and id_of: "ok m \<Longrightarrow> entries m i = Some (a, d) \<Longrightarrow> map_option unat (id_of m a) = Some i"
    and put: "ok m \<Longrightarrow> entries m i = Some (a, d) \<Longrightarrow>
      \<exists>m'. put m a x = Some m' \<and> ok m' \<and> entries m' = (entries m)(i \<mapsto> (a, x))"
begin

text \<open>Two registered relays have two cells.\<close>

lemma cells_apart: "ok m \<Longrightarrow> entries m i = Some (a, d) \<Longrightarrow> entries m j = Some (a, e) \<Longrightarrow> i = j \<and> d = e"
  using id_of [of m i a d] id_of [of m j a e] by simp

lemma found: "ok m \<Longrightarrow> find m i = Some a \<Longrightarrow> \<exists>d. entries m i = Some (a, d)"
  by (auto simp: find)

text \<open>A registration: the cell that \<open>gen\<close> returns, filled in two writes.\<close>

lemma registers:
  assumes "ok m" "room m"
  shows "\<exists>i a m1 m2 m3. gen m = Some (a, m1) \<and> put m1 a x = Some m2 \<and> put m2 a y = Some m3 \<and> ok m3 \<and>
    entries m i = None \<and> entries m3 = (entries m)(i \<mapsto> (a, y)) \<and> map_option unat (id_of m3 a) = Some i"
proof -
  obtain i a m1 where g: "gen m = Some (a, m1)" "ok m1" "entries m i = None" "entries m1 = (entries m)(i \<mapsto> (a, zero_descriptor))"
    using gen [OF assms] by auto
  obtain m2 where m2: "put m1 a x = Some m2" "ok m2" "entries m2 = (entries m1)(i \<mapsto> (a, x))"
    using put [OF g(2), of i a zero_descriptor x] g(4) by auto
  obtain m3 where m3: "put m2 a y = Some m3" "ok m3" "entries m3 = (entries m2)(i \<mapsto> (a, y))"
    using put [OF m2(2), of i a x y] m2(3) by auto
  then have e: "entries m3 = (entries m)(i \<mapsto> (a, y))" using m2(3) g(4) by simp
  then have "map_option unat (id_of m3 a) = Some i" using id_of [OF m3(2), of i a y] by simp
  then show ?thesis using g m2 m3 e by blast
qed

text \<open>A removal through a pointer that is still good: its id names its own entry.\<close>

lemma withdraws:
  assumes "ok m" "entries m i = Some (a, d)"
  obtains k m' where "id_of m a = Some k" "unat k = i" "remove m (unat k) = Some (True, m')" "ok m'"
    "entries m' = (entries m)(i := None)"
  using id_of [OF assms] remove [OF assms] by auto

end

section \<open>The relay table keeps it\<close>

lemma entries_live:
  assumes "manager_ok m" shows "entries m i = None \<longleftrightarrow> i \<notin> live m"
proof (cases "i \<in> live m")
  case True
  then obtain a c where "get_relay m i = Some a" "rm_heap m a = Some c" by (rule manager_cell [OF assms])
  then show ?thesis using True by (simp add: entries_def cell_descriptor_def)
next
  case False
  then show ?thesis using not_live_free [OF assms, of i] by (simp add: entries_def)
qed

lemma entries_descriptor: "entries m i = Some (a, d) \<Longrightarrow> get_relay m i = Some a \<and> descriptor_at m i = d"
  by (auto simp: entries_def cell_descriptor_def descriptor_at_def item_data_def split: Option.bind_splits)

lemma entries_cong: "get_relay m' j = get_relay m j \<Longrightarrow> item_data m' j = item_data m j \<Longrightarrow> entries m' j = entries m j"
  by (auto simp: entries_def cell_descriptor_def item_data_def split: Option.bind_splits)

lemma entries_bound:
  assumes "manager_ok m" "entries m i = Some (a, d)" shows "a < rm_next m"
proof -
  have "i \<in> live m" using entries_live [OF assms(1), of i] assms(2) by auto
  then obtain b where "get_relay m i = Some b" "b < rm_next m" by (rule manager_cell [OF assms(1)]) blast
  then show ?thesis using entries_descriptor [OF assms(2)] by simp
qed

lemma zero_relay_descriptor [simp]: "rd_descriptor (zero_relay_data\<lparr>rd_relay_id := i\<rparr>) = zero_descriptor"
  by (simp add: zero_relay_data_def zero_descriptor_def)

lemma registry_gen:
  assumes ok: "manager_ok m" "items_length m \<le> 2 ^ 30"
  shows "\<exists>i a m'. gen_relay (\<lambda>_. True) m = Some (a, m') \<and> manager_ok m' \<and> entries m i = None \<and>
    (\<forall>j b d. entries m j = Some (b, d) \<longrightarrow> b \<noteq> a) \<and> entries m' = (entries m)(i \<mapsto> (a, zero_descriptor))"
proof -
  obtain i m' where g: "gen_relay (\<lambda>_. True) m = Some (rm_next m, m')" "manager_ok m'"
    "i \<notin> live m" "live m' = insert i (live m)" "get_relay m' i = Some (rm_next m)"
    "rm_heap m' (rm_next m) = Some (zero_relay_data\<lparr>rd_relay_id := word_of_nat i\<rparr>)"
    "\<And>j. j \<in> live m \<Longrightarrow> get_relay m' j = get_relay m j \<and> item_data m' j = item_data m j"
    by (rule gen_relay_ok [where alloc_ok = "\<lambda>_. True", OF ok]) simp_all
  have e: "entries m' j = ((entries m)(i \<mapsto> (rm_next m, zero_descriptor))) j" for j
  proof (cases "j = i \<or> j \<notin> live m")
    case True
    have "entries m' i = Some (rm_next m, zero_descriptor)" using g(5,6) by (simp add: entries_def cell_descriptor_def)
    moreover have "entries m j = None \<and> entries m' j = None" if "j \<noteq> i" "j \<notin> live m"
      using that g(4) entries_live [OF ok(1), of j] entries_live [OF g(2), of j] by simp
    ultimately show ?thesis using True by (cases "j = i") simp_all
  next
    case False
    then have "entries m' j = entries m j" using g(7) [of j] by (intro entries_cong) simp_all
    then show ?thesis using False by simp
  qed
  have "entries m' = (entries m)(i \<mapsto> (rm_next m, zero_descriptor))" by (rule ext) (rule e)
  moreover have "\<forall>j b d. entries m j = Some (b, d) \<longrightarrow> b \<noteq> rm_next m" using entries_bound [OF ok(1)] by blast
  moreover have "entries m i = None" using g(3) entries_live [OF ok(1), of i] by simp
  ultimately show ?thesis using g(1,2) by blast
qed

lemma registry_remove:
  assumes ok: "manager_ok m" and i: "entries m i = Some (a, d)"
  shows "\<exists>m'. remove_relay (\<lambda>_. True) m i = Some (True, m') \<and> manager_ok m' \<and> entries m' = (entries m)(i := None) \<and>
    cell_descriptor m' a = None \<and> cell_id m' a = None"
proof -
  have lv: "i \<in> live m" using i entries_live [OF ok, of i] by simp
  obtain m' where g: "remove_relay (\<lambda>_. True) m i = Some (True, m')" "manager_ok m'" "live m' = live m - {i}"
    "\<And>j. j \<in> live m \<Longrightarrow> j \<noteq> i \<Longrightarrow> get_relay m' j = get_relay m j \<and> item_data m' j = item_data m j"
    "rm_heap m' (the (get_relay m i)) = None"
    by (rule remove_relay_ok [where alloc_ok = "\<lambda>_. True", OF ok lv]) simp_all
  have e: "entries m' j = ((entries m)(i := None)) j" for j
  proof (cases "j = i \<or> j \<notin> live m")
    case True
    then have "j \<notin> live m'" using g(3) by auto
    then have "entries m' j = None" by (simp add: entries_live [OF g(2)])
    moreover have "j = i \<or> entries m j = None" using True by (simp add: entries_live [OF ok])
    ultimately show ?thesis by auto
  next
    case False
    then have "entries m' j = entries m j" using g(4) [of j] by (intro entries_cong) simp_all
    then show ?thesis using False by simp
  qed
  have "entries m' = (entries m)(i := None)" by (rule ext) (rule e)
  moreover have "rm_heap m' a = None" using g(5) entries_descriptor [OF i] by simp
  ultimately show ?thesis using g(1,2) by (simp add: cell_descriptor_def cell_id_def)
qed

lemma registry_cell:
  assumes ok: "manager_ok m" and e: "entries m i = Some (a, d)"
  obtains c where "rm_heap m a = Some c" "rd_descriptor c = d" "unat (rd_relay_id c) = i" "i \<in> live m"
proof -
  have i: "i \<in> live m" using entries_live [OF ok, of i] e by auto
  obtain b c where "get_relay m i = Some b" "rm_heap m b = Some c" "unat (rd_relay_id c) = i" by (rule manager_cell [OF ok i])
  then show thesis using that i entries_descriptor [OF e] by (auto simp: descriptor_at_def item_data_def)
qed

lemma registry_put:
  assumes ok: "manager_ok m" and e: "entries m i = Some (a, d)"
  shows "\<exists>m'. put_descriptor m a x = Some m' \<and> manager_ok m' \<and> entries m' = (entries m)(i \<mapsto> (a, x))"
proof -
  obtain c where c: "rm_heap m a = Some c" "unat (rd_relay_id c) = i" by (rule registry_cell [OF ok e])
  define m' where "m' = m\<lparr>rm_heap := (rm_heap m)(a \<mapsto> c\<lparr>rd_descriptor := x\<rparr>)\<rparr>"
  have g: "get_relay m' j = get_relay m j" for j by (simp add: m'_def get_relay_def)
  have "entries m' j = ((entries m)(i \<mapsto> (a, x))) j" for j
  proof (cases "get_relay m j")
    case None
    then show ?thesis using entries_descriptor [OF e] g by (auto simp: entries_def)
  next
    case (Some b)
    then have j: "j \<in> live m" using not_live_free [OF ok, of j] by auto
    then have "b = a \<longleftrightarrow> j = i"
      using manager_cell [OF ok j] Some c entries_descriptor [OF e] by (metis option.inject)
    then show ?thesis using Some g by (auto simp: entries_def cell_descriptor_def m'_def)
  qed
  then have "entries m' = (entries m)(i \<mapsto> (a, x))" by blast
  moreover have "manager_ok m'" by (rule write_cell_ok [OF ok c(1) m'_def])
  ultimately show ?thesis using c(1) by (auto simp: put_descriptor_def m'_def)
qed

interpretation table: relay_registry entries manager_ok "\<lambda>m. items_length m \<le> 2 ^ 30"
  "gen_relay (\<lambda>_. True)" "remove_relay (\<lambda>_. True)" get_relay cell_descriptor cell_id put_descriptor
proof unfold_locales
  fix m i a d x
  assume ok: "manager_ok m"
  show "get_relay m i = map_option fst (entries m i)"
    using not_live_free [OF ok, of i] entries_live [OF ok, of i] entries_descriptor [of m i]
    by (cases "entries m i") auto
  assume e: "entries m i = Some (a, d)"
  show "\<exists>m'. remove_relay (\<lambda>_. True) m i = Some (True, m') \<and> manager_ok m' \<and> entries m' = (entries m)(i := None) \<and>
      cell_descriptor m' a = None \<and> cell_id m' a = None"
    by (rule registry_remove [OF ok e])
  show "cell_descriptor m a = Some d" "map_option unat (cell_id m a) = Some i"
    by (rule registry_cell [OF ok e], simp add: cell_descriptor_def cell_id_def)+
  show "\<exists>m'. put_descriptor m a x = Some m' \<and> manager_ok m' \<and> entries m' = (entries m)(i \<mapsto> (a, x))"
    by (rule registry_put [OF ok e])
qed (rule registry_gen)

end
