(* ===== verification/Threads.thy ===== *)
theory Threads
  imports Registry Sessions
begin

text \<open>
  The server's threads access by access. \<open>Sessions\<close> takes the handling of a message as one step, but
  \<open>handle_signup\<close> and \<open>handle_signout\<close> of \<open>src/server/handlers/relay_handler.c\<close> hold the mutex of the relay table
  only inside the functions they call: between these, and while they use the pointers they got, other
  threads run. Here a step is one access to what the threads share: a call on the relay table, or a
  read or write through a pointer to a relay. A schedule is a list of such steps of any threads; it runs into \<open>None\<close>
  when a thread uses memory that another has freed.
\<close>

section \<open>A thread's way through a request\<close>

text \<open>What a relay's session is asked for, taken from the buffer.\<close>

datatype relay_request = Signup_request sock_addr | Signout_request u32

text \<open>
  The points between two accesses. \<open>Waiting\<close> is between two messages, with \<open>relay_data\<close>; the others are in
  \<open>handle_signup\<close> (after \<open>gen_relay\<close>, after the key, after the address), in \<open>handle_signout\<close> with a
  relay of the session (its id read) and without (found by the id asked for, its key compared, its id read), and before
  the answer is sent. \<open>Ended\<close> is a handler that returned false.
\<close>

datatype thread_point =
    Waiting "nat option"
  | Signup_key nat sock_addr
  | Signup_addr nat sock_addr
  | Signup_id nat
  | Own_remove u32
  | Named_compare nat
  | Named_id nat
  | Named_remove u32
  | Signup_reply nat u32
  | Signout_reply "nat option" u32
  | Ended

definition begin_signup :: "server_env \<Rightarrow> nat option \<Rightarrow> sock_addr \<Rightarrow> relay_manager \<Rightarrow> (thread_point \<times> relay_manager) option" where
  "begin_signup E relay_data addr m =
     (if relay_data \<noteq> None then Some (Ended, m)
      else map_option (\<lambda>(a, m). (Signup_key a addr, m)) (gen_relay (se_alloc E) m))"

definition begin_signout :: "nat option \<Rightarrow> u32 \<Rightarrow> relay_manager \<Rightarrow> (thread_point \<times> relay_manager) option" where
  "begin_signout relay_data i m =
     (case relay_data of
        Some a \<Rightarrow> map_option (\<lambda>i. (Own_remove i, m)) (cell_id m a)
      | None \<Rightarrow> (case get_relay m (unat i) of
                   None \<Rightarrow> Some (Signout_reply None server_response_base_error, m)
                 | Some a \<Rightarrow> Some (Named_compare a, m)))"

fun begin_request ::
  "server_env \<Rightarrow> nat option \<Rightarrow> relay_request \<Rightarrow> relay_manager \<Rightarrow> (thread_point \<times> relay_manager) option" where
  "begin_request E relay_data (Signup_request addr) m = begin_signup E relay_data addr m"
| "begin_request E relay_data (Signout_request i) m = begin_signout relay_data i m"

text \<open>The next access. The public key is written into the cell by the export itself.\<close>

fun next_access :: "server_env \<Rightarrow> key_data \<Rightarrow> thread_point \<Rightarrow> relay_manager \<Rightarrow> (thread_point \<times> relay_manager) option" where
  "next_access E key (Signup_key a addr) m =
     Option.bind (cell_descriptor m a) (\<lambda>d.
     Option.bind (get_other_public_key (se_gmp E) key (rd_public_key d)) (\<lambda>pk.
     map_option (Pair (Signup_addr a addr)) (put_descriptor m a (d\<lparr>rd_public_key := pk\<rparr>))))"
| "next_access E key (Signup_addr a addr) m =
     Option.bind (cell_descriptor m a) (\<lambda>d.
     map_option (Pair (Signup_id a)) (put_descriptor m a (d\<lparr>rd_sock_addr := addr\<rparr>)))"
| "next_access E key (Signup_id a) m = map_option (\<lambda>i. (Signup_reply a i, m)) (cell_id m a)"
| "next_access E key (Own_remove i) m =
     map_option (\<lambda>(_, m). (Signout_reply None server_response_success, m)) (remove_relay (se_alloc E) m (unat i))"
| "next_access E key (Named_compare a) m =
     Option.bind (get_other_public_key (se_gmp E) key (se_junk_key E)) (\<lambda>true_public_key.
     map_option (\<lambda>d. (if rd_public_key d \<noteq> true_public_key then Signout_reply (Some a) server_response_base_error
                      else Named_id a, m)) (cell_descriptor m a))"
| "next_access E key (Named_id a) m = map_option (\<lambda>i. (Named_remove i, m)) (cell_id m a)"
| "next_access E key (Named_remove i) m =
     map_option (\<lambda>(_, m). (Signout_reply None server_response_success, m)) (remove_relay (se_alloc E) m (unat i))"
| "next_access E key p m = Some (p, m)"

section \<open>Without interruption they are the handlers\<close>

text \<open>No request needs more than three accesses after its first.\<close>

definition run_request ::
  "server_env \<Rightarrow> key_data \<Rightarrow> nat option \<Rightarrow> relay_request \<Rightarrow> relay_manager \<Rightarrow> (thread_point \<times> relay_manager) option" where
  "run_request E key relay_data request m =
     Option.bind (begin_request E relay_data request m) (\<lambda>(p, m).
     Option.bind (next_access E key p m) (\<lambda>(p, m).
     Option.bind (next_access E key p m) (\<lambda>(p, m).
     next_access E key p m)))"

text \<open>The answer a request ends in, with what the handler returns.\<close>

fun answer_request :: "int \<Rightarrow> nat option \<Rightarrow> key_data \<Rightarrow> bytes \<Rightarrow> thread_point \<Rightarrow> server \<Rightarrow> bool \<times> nat option \<times> bytes \<times> server" where
  "answer_request fd relay_data key buffer (Signup_reply a i) sv =
     (let (ok, buffer, sv) = on_net (send_enc_relay_signup_response fd key server_response_success i) sv
      in (ok, Some a, buffer, sv))"
| "answer_request fd relay_data key buffer (Signout_reply rd code) sv =
     (let (ok, buffer, sv) = on_net (send_enc_relay_signout_response fd key code) sv in (ok, rd, buffer, sv))"
| "answer_request fd relay_data key buffer p sv = (False, relay_data, buffer, sv)"

lemma gen_relay_cell: "gen_relay alloc_ok m = Some (a, m') \<Longrightarrow> \<exists>d. rm_heap m' a = Some d"
  by (auto simp: gen_relay_def new_item_def Let_def split: if_splits Option.bind_splits)

lemma descriptor_written: "d\<lparr>rd_public_key := pk, rd_sock_addr := addr\<rparr> = \<lparr>rd_sock_addr = addr, rd_public_key = pk\<rparr>"
  by (cases d) simp

text \<open>The handlers of the message-wise model are the schedules without interruption: running the accesses of one
  signup or signout in a row and sending the answer they end in gives exactly \<open>handle_signup\<close> and \<open>handle_signout\<close>,
  refusals, errors and uses of freed memory included.\<close>

lemma handlers_run:
  "handle_signup E fd rd key buffer sv =
     map_option (\<lambda>(p, m). answer_request fd rd key buffer p (sv\<lparr>sv_manager := m\<rparr>))
       (run_request E key rd (Signup_request (signup_request_addr buffer)) (sv_manager sv)) \<and>
   handle_signout E fd rd key buffer sv =
     map_option (\<lambda>(p, m). answer_request fd rd key buffer p (sv\<lparr>sv_manager := m\<rparr>))
       (run_request E key rd (Signout_request (signout_request_id buffer)) (sv_manager sv))"
proof
  show "handle_signup E fd rd key buffer sv =
     map_option (\<lambda>(p, m). answer_request fd rd key buffer p (sv\<lparr>sv_manager := m\<rparr>))
       (run_request E key rd (Signup_request (signup_request_addr buffer)) (sv_manager sv))"
  proof (cases rd)
    case (Some a)
    then show ?thesis by (simp add: handle_signup_def run_request_def begin_signup_def)
  next
    case None
    show ?thesis
    proof (cases "gen_relay (se_alloc E) (sv_manager sv)")
      case g: (Some x)
      obtain a m where x: "x = (a, m)" by fastforce
      obtain c where c: "rm_heap m a = Some c" using g x gen_relay_cell by blast
      then show ?thesis using g x None
        by (cases "get_other_public_key (se_gmp E) key (rd_public_key (rd_descriptor c))")
          (simp_all add: handle_signup_def run_request_def begin_signup_def cell_descriptor_def cell_id_def
            put_descriptor_def descriptor_written Let_def case_prod_beta)
    qed (simp add: None handle_signup_def run_request_def begin_signup_def)
  qed
  show "handle_signout E fd rd key buffer sv =
     map_option (\<lambda>(p, m). answer_request fd rd key buffer p (sv\<lparr>sv_manager := m\<rparr>))
       (run_request E key rd (Signout_request (signout_request_id buffer)) (sv_manager sv))"
    by (cases sv) (auto simp: handle_signout_def run_request_def begin_signout_def cell_descriptor_def cell_id_def Let_def
        case_prod_beta split: option.splits Option.bind_splits)
qed

section \<open>Schedules\<close>

text \<open>
  The relays' sessions, each with its key and where its thread is, the table they share, and the pages of
  descriptors that clients were given. A client's session keeps no pointer, so its use of the table is
  the one call of \<open>handle_get_relay_map\<close>.
\<close>

record threads =
  th_sessions :: "int \<Rightarrow> (key_data \<times> thread_point) option"
  th_manager :: relay_manager
  th_pages :: "relay_descriptor list list"

datatype server_event =
    Connects int key_data
  | Disconnects int
  | Requests int relay_request
  | Accesses int
  | Pages nat

fun settled :: "thread_point \<Rightarrow> bool" where
  "settled (Waiting rd) = True"
| "settled (Signup_reply a i) = True"
| "settled (Signout_reply rd code) = True"
| "settled Ended = True"
| "settled p = False"

text \<open>Sending the answer touches nothing that is shared.\<close>

fun proceed :: "server_env \<Rightarrow> key_data \<Rightarrow> thread_point \<Rightarrow> relay_manager \<Rightarrow> (thread_point \<times> relay_manager) option" where
  "proceed E key (Signup_reply a i) m = Some (Waiting (Some a), m)"
| "proceed E key (Signout_reply rd code) m = Some (Waiting rd, m)"
| "proceed E key p m = next_access E key p m"

definition move :: "int \<Rightarrow> key_data \<Rightarrow> threads \<Rightarrow> thread_point \<times> relay_manager \<Rightarrow> threads" where
  "move t key s = (\<lambda>(p, m). s\<lparr>th_sessions := (th_sessions s)(t \<mapsto> (key, p)), th_manager := m\<rparr>)"

text \<open>An event of a session that is not there, or not where the event starts, changes nothing.\<close>

fun thread_event :: "server_env \<Rightarrow> server_event \<Rightarrow> threads \<Rightarrow> threads option" where
  "thread_event E (Connects t key) s =
     Some (if th_sessions s t = None then s\<lparr>th_sessions := (th_sessions s)(t \<mapsto> (key, Waiting None))\<rparr> else s)"
| "thread_event E (Disconnects t) s =
     Some (case th_sessions s t of
             Some (key, p) \<Rightarrow> if settled p then s\<lparr>th_sessions := (th_sessions s)(t := None)\<rparr> else s
           | None \<Rightarrow> s)"
| "thread_event E (Requests t request) s =
     (case th_sessions s t of
        Some (key, Waiting rd) \<Rightarrow> map_option (move t key s) (begin_request E rd request (th_manager s))
      | _ \<Rightarrow> Some s)"
| "thread_event E (Accesses t) s =
     (case th_sessions s t of
        Some (key, p) \<Rightarrow> map_option (move t key s) (proceed E key p (th_manager s))
      | None \<Rightarrow> Some s)"
| "thread_event E (Pages start) s =
     map_option (\<lambda>(page, _). s\<lparr>th_pages := th_pages s @ [page]\<rparr>)
       (get_relay_batch (th_manager s) start SERVER_RELAYS_MAP_AMOUNT)"

primrec run_schedule :: "server_env \<Rightarrow> server_event list \<Rightarrow> threads \<Rightarrow> threads option" where
  "run_schedule E [] s = Some s"
| "run_schedule E (e # es) s = Option.bind (thread_event E e s) (run_schedule E es)"

section \<open>Peers that keep to the protocol\<close>

text \<open>
  What a relay of this repository does: its key is not zero and it has one connection at a time, so no two
  sessions have one key; it signs out by an id only what it signed up itself. The last condition is the
  bound on the table.
\<close>

abbreviation public_value :: "key_data \<Rightarrow> nat" where
  "public_value key \<equiv> other_public (kd_session key)"

fun fair_event :: "server_event \<Rightarrow> threads \<Rightarrow> bool" where
  "fair_event (Connects t key) s \<longleftrightarrow> 0 < public_value key \<and> public_value key < 256 ^ 256 \<and>
     (\<forall>t' k p. th_sessions s t' = Some (k, p) \<longrightarrow> public_value k \<noteq> public_value key)"
| "fair_event (Requests t (Signout_request i)) s \<longleftrightarrow>
     (\<forall>key a d. th_sessions s t = Some (key, Waiting None) \<and> entries (th_manager s) (unat i) = Some (a, d) \<longrightarrow>
        le_value (rd_public_key d) = public_value key)"
| "fair_event (Requests t (Signup_request addr)) s \<longleftrightarrow> items_length (th_manager s) \<le> 2 ^ 30"
| "fair_event e s \<longleftrightarrow> True"

primrec fair_schedule :: "server_env \<Rightarrow> server_event list \<Rightarrow> threads \<Rightarrow> bool" where
  "fair_schedule E [] s \<longleftrightarrow> True"
| "fair_schedule E (e # es) s \<longleftrightarrow>
     fair_event e s \<and> (case thread_event E e s of None \<Rightarrow> True | Some s' \<Rightarrow> fair_schedule E es s')"

definition first_threads :: "relay_manager \<Rightarrow> threads" where
  "first_threads m = \<lparr>th_sessions = (\<lambda>_. None), th_manager = init_relay_manager m, th_pages = []\<rparr>"

end
