(* ===== verification/Schedules.thy ===== *)
theory Schedules
  imports Threads
begin

text \<open>
  What schedules of the server's threads (\<open>Threads\<close>) do. For relays that keep to the protocol: an assertion for each point
  of a thread that the accesses of the others keep, no use of freed memory, and a simulation of the abstract
  registry. Then the schedules that go wrong when a relay does not.
\<close>

section \<open>What holds at each point\<close>

definition owns :: "(nat \<Rightarrow> (nat \<times> relay_descriptor) option) \<Rightarrow> nat \<Rightarrow> nat \<Rightarrow> bool" where
  "owns v n a \<longleftrightarrow> (\<exists>i d. v i = Some (a, d) \<and> le_value (rd_public_key d) = n)"

definition owns_id :: "(nat \<Rightarrow> (nat \<times> relay_descriptor) option) \<Rightarrow> nat \<Rightarrow> nat \<Rightarrow> bool" where
  "owns_id v n i \<longleftrightarrow> (\<exists>a d. v i = Some (a, d) \<and> le_value (rd_public_key d) = n)"

fun point_ok :: "(nat \<Rightarrow> (nat \<times> relay_descriptor) option) \<Rightarrow> nat \<Rightarrow> thread_point \<Rightarrow> bool" where
  "point_ok v n (Waiting rd) \<longleftrightarrow> (\<forall>a. rd = Some a \<longrightarrow> owns v n a)"
| "point_ok v n (Signup_key a addr) \<longleftrightarrow> (\<exists>i. v i = Some (a, zero_descriptor))"
| "point_ok v n (Signup_addr a addr) \<longleftrightarrow>
     (\<exists>i pk. v i = Some (a, zero_descriptor\<lparr>rd_public_key := pk\<rparr>) \<and> le_value pk = n)"
| "point_ok v n (Signup_id a) \<longleftrightarrow> owns v n a"
| "point_ok v n (Own_remove i) \<longleftrightarrow> owns_id v n (unat i)"
| "point_ok v n (Named_compare a) \<longleftrightarrow> owns v n a"
| "point_ok v n (Named_id a) \<longleftrightarrow> owns v n a"
| "point_ok v n (Named_remove i) \<longleftrightarrow> owns_id v n (unat i)"
| "point_ok v n (Signup_reply a i) \<longleftrightarrow> owns v n a"
| "point_ok v n (Signout_reply rd code) \<longleftrightarrow> (\<forall>a. rd = Some a \<longrightarrow> owns v n a)"
| "point_ok v n Ended \<longleftrightarrow> True"

lemmas owns_defs = owns_def owns_id_def

lemma zero_key [simp]: "le_value (rd_public_key zero_descriptor) = 0"
  by (simp add: zero_descriptor_def)

text \<open>What another thread does to entries that are not this thread's does not matter to it.\<close>

lemma point_ok_frame:
  assumes "point_ok v n p"
    and "\<And>j a d. v j = Some (a, d) \<Longrightarrow> le_value (rd_public_key d) = n \<or> (d = zero_descriptor \<and> (\<exists>addr. p = Signup_key a addr)) \<Longrightarrow>
      v' j = v j"
  shows "point_ok v' n p"
  using assms by (cases p) (fastforce simp: owns_defs)+

definition threads_ok :: "threads \<Rightarrow> bool" where
  "threads_ok s \<longleftrightarrow> manager_ok (th_manager s) \<and>
     (\<forall>t k p. th_sessions s t = Some (k, p) \<longrightarrow>
        0 < public_value k \<and> public_value k < 256 ^ 256 \<and> point_ok (entries (th_manager s)) (public_value k) p) \<and>
     (\<forall>t k p t' k' p'. th_sessions s t = Some (k, p) \<and> th_sessions s t' = Some (k', p') \<and> t \<noteq> t' \<longrightarrow>
        public_value k \<noteq> public_value k' \<and> (\<forall>a x y. p = Signup_key a x \<longrightarrow> p' \<noteq> Signup_key a y))"

lemma threads_okD:
  assumes "threads_ok s" "th_sessions s t = Some (k, p)"
  shows "manager_ok (th_manager s)" "0 < public_value k" "public_value k < 256 ^ 256"
    "point_ok (entries (th_manager s)) (public_value k) p"
    "th_sessions s t' = Some (k', p') \<Longrightarrow> t \<noteq> t' \<Longrightarrow> public_value k \<noteq> public_value k'"
    "th_sessions s t' = Some (k', p') \<Longrightarrow> t \<noteq> t' \<Longrightarrow> p = Signup_key a x \<Longrightarrow> p' \<noteq> Signup_key a y"
  using assms unfolding threads_ok_def by blast+

lemma threads_okI:
  assumes "manager_ok (th_manager s)"
    and "\<And>t k p. th_sessions s t = Some (k, p) \<Longrightarrow>
      0 < public_value k \<and> public_value k < 256 ^ 256 \<and> point_ok (entries (th_manager s)) (public_value k) p"
    and "\<And>t k p t' k' p'. th_sessions s t = Some (k, p) \<Longrightarrow> th_sessions s t' = Some (k', p') \<Longrightarrow> t \<noteq> t' \<Longrightarrow>
      public_value k \<noteq> public_value k' \<and> (\<forall>a x y. p = Signup_key a x \<longrightarrow> p' \<noteq> Signup_key a y)"
  shows "threads_ok s"
  unfolding threads_ok_def using assms by blast

text \<open>
  A thread that moves on and changes one entry at most: one that was free, one with its own key, or the
  cell it is signing up. The other threads' points stay good.
\<close>

definition may_change :: "nat \<Rightarrow> thread_point \<Rightarrow> nat \<times> relay_descriptor \<Rightarrow> bool" where
  "may_change n p x \<longleftrightarrow> le_value (rd_public_key (snd x)) = n \<or>
     (snd x = zero_descriptor \<and> (\<exists>addr. p = Signup_key (fst x) addr))"

lemma others_point_ok:
  assumes ok: "threads_ok s" and t: "th_sessions s t = Some (k, p)" and t': "th_sessions s t' = Some (k', p')" "t' \<noteq> t"
    and c: "v' = (entries (th_manager s))(i := x)" "\<forall>y. entries (th_manager s) i = Some y \<longrightarrow> may_change (public_value k) p y"
  shows "point_ok v' (public_value k') p'"
proof (rule point_ok_frame [OF threads_okD(4) [OF ok t'(1)]])
  fix j a d
  assume e: "entries (th_manager s) j = Some (a, d)"
    "le_value (rd_public_key d) = public_value k' \<or> d = zero_descriptor \<and> (\<exists>addr. p' = Signup_key a addr)"
  note nz = threads_okD(2) [OF ok t] threads_okD(2) [OF ok t'(1)] threads_okD(5) [OF ok t t'(1)]
  have "j \<noteq> i"
  proof
    assume "j = i"
    then have "may_change (public_value k) p (a, d)" using c(2) e(1) by simp
    then show False using e(2) nz t'(2) threads_okD(6) [OF ok t t'(1), of a] by (auto simp: may_change_def)
  qed
  then show "v' j = entries (th_manager s) j" using c(1) by simp
qed

lemma threads_ok_move:
  assumes ok: "threads_ok s" and t: "th_sessions s t = Some (k, p)" and m': "manager_ok m'" "entries m' = (entries (th_manager s))(i := x)"
    and c: "\<And>y. entries (th_manager s) i = Some y \<Longrightarrow> may_change (public_value k) p y"
    and p': "point_ok (entries m') (public_value k) p'"
    and new: "\<And>a addr t' k' addr'. p' = Signup_key a addr \<Longrightarrow> th_sessions s t' = Some (k', Signup_key a addr') \<Longrightarrow> t' = t"
  shows "threads_ok (move t k s (p', m'))"
proof -
  note others = others_point_ok [OF ok t _ _ m'(2)]
  have keys: "0 < public_value k1 \<and> public_value k1 < 256 ^ 256 \<and> point_ok (entries m') (public_value k1) p1"
    if "th_sessions (move t k s (p', m')) t1 = Some (k1, p1)" for t1 k1 p1
    using that p' threads_okD(2,3) [OF ok t] threads_okD(2,3) [OF ok, of t1 k1 p1] others [of t1 k1 p1] c
    by (cases "t1 = t") (simp_all add: move_def)
  have apart: "public_value k \<noteq> public_value k2 \<and> (\<forall>a x y. p' = Signup_key a x \<longrightarrow> p2 \<noteq> Signup_key a y)"
    if "th_sessions s t2 = Some (k2, p2)" "t2 \<noteq> t" for t2 k2 p2
    using that new threads_okD(5) [OF ok t that(1)] by blast
  have two: "public_value k1 \<noteq> public_value k2 \<and> (\<forall>a x y. p1 = Signup_key a x \<longrightarrow> p2 \<noteq> Signup_key a y)"
    if h: "th_sessions (move t k s (p', m')) t1 = Some (k1, p1)" "th_sessions (move t k s (p', m')) t2 = Some (k2, p2)" "t1 \<noteq> t2"
    for t1 k1 p1 t2 k2 p2
  proof (cases "t1 = t \<or> t2 = t")
    case True
    then show ?thesis using h apart [of t1 k1 p1] apart [of t2 k2 p2] by (fastforce simp: move_def)
  next
    case False
    then have "th_sessions s t1 = Some (k1, p1)" "th_sessions s t2 = Some (k2, p2)" using h by (simp_all add: move_def)
    then show ?thesis using h(3) threads_okD(5,6) [OF ok] by blast
  qed
  show ?thesis
  proof (rule threads_okI)
    show "manager_ok (th_manager (move t k s (p', m')))" using m'(1) by (simp add: move_def)
    show "0 < public_value k1 \<and> public_value k1 < 256 ^ 256 \<and>
        point_ok (entries (th_manager (move t k s (p', m')))) (public_value k1) p1"
      if "th_sessions (move t k s (p', m')) t1 = Some (k1, p1)" for t1 k1 p1
      using keys [OF that] by (simp add: move_def)
  qed (rule two)
qed

lemma threads_ok_stay:
  assumes ok: "threads_ok s" and t: "th_sessions s t = Some (k, p)"
    and p': "point_ok (entries (th_manager s)) (public_value k) p'" "\<And>a addr. p' \<noteq> Signup_key a addr"
  shows "threads_ok (move t k s (p', th_manager s))"
proof -
  obtain i where "entries (th_manager s) i = None"
    using entries_live [OF threads_okD(1) [OF ok t], of "items_length (th_manager s)"] by (auto simp: live_def)
  then have "entries (th_manager s) = (entries (th_manager s))(i := None)" by auto
  note go = threads_ok_move [OF ok t threads_okD(1) [OF ok t] this]
  show ?thesis by (rule go) (use p' \<open>entries (th_manager s) i = None\<close> in simp_all)
qed

section \<open>The registry that a table stands for\<close>

text \<open>
  The abstract registry: a map from ids to descriptors that one session at a time changes, by registering
  a descriptor with its own public key under a free id or by withdrawing one with its own key.
\<close>

inductive registry_step :: "nat \<Rightarrow> (nat \<Rightarrow> relay_descriptor option) \<Rightarrow> (nat \<Rightarrow> relay_descriptor option) \<Rightarrow> bool" for n where
  register: "R i = None \<Longrightarrow> le_value (rd_public_key d) = n \<Longrightarrow> registry_step n R (R(i \<mapsto> d))"
| withdraw: "R i = Some d \<Longrightarrow> le_value (rd_public_key d) = n \<Longrightarrow> registry_step n R (R(i := None))"

text \<open>The cell that a thread is still filling, and what the descriptor will be when it is done.\<close>

fun signing :: "thread_point \<Rightarrow> nat option" where
  "signing (Signup_key a addr) = Some a"
| "signing (Signup_addr a addr) = Some a"
| "signing p = None"

definition own_public :: "server_env \<Rightarrow> key_data \<Rightarrow> bytes" where
  "own_public E key = the (get_other_public_key (se_gmp E) key (replicate 256 0))"

fun completed :: "server_env \<Rightarrow> key_data \<Rightarrow> thread_point \<Rightarrow> relay_descriptor \<Rightarrow> relay_descriptor" where
  "completed E key (Signup_key a addr) d = \<lparr>rd_sock_addr = addr, rd_public_key = own_public E key\<rparr>"
| "completed E key (Signup_addr a addr) d = d\<lparr>rd_sock_addr := addr\<rparr>"
| "completed E key p d = d"

definition stands_for ::
  "server_env \<Rightarrow> (int \<Rightarrow> (key_data \<times> thread_point) option) \<Rightarrow> nat \<Rightarrow> relay_descriptor \<Rightarrow> relay_descriptor \<Rightarrow> bool" where
  "stands_for E ss a d x \<longleftrightarrow>
     (\<forall>t k p. ss t = Some (k, p) \<and> signing p = Some a \<longrightarrow> x = completed E k p d) \<and>
     ((\<forall>t k p. ss t = Some (k, p) \<longrightarrow> signing p \<noteq> Some a) \<longrightarrow> x = d)"

definition represents :: "server_env \<Rightarrow> threads \<Rightarrow> (nat \<Rightarrow> relay_descriptor option) \<Rightarrow> bool" where
  "represents E s R \<longleftrightarrow>
     (\<forall>i. R i = None \<longleftrightarrow> entries (th_manager s) i = None) \<and>
     (\<forall>i a d x. entries (th_manager s) i = Some (a, d) \<and> R i = Some x \<longrightarrow> stands_for E (th_sessions s) a d x)"

lemma representsD:
  assumes "represents E s R"
  shows "R i = None \<longleftrightarrow> entries (th_manager s) i = None"
    "entries (th_manager s) i = Some (a, d) \<Longrightarrow> \<exists>x. R i = Some x \<and> stands_for E (th_sessions s) a d x"
  using assms unfolding represents_def by (blast, metis option.exhaust option.distinct(1))

lemma signing_cell:
  "point_ok v n p \<Longrightarrow> signing p = Some a \<Longrightarrow>
   \<exists>i d. v i = Some (a, d) \<and> (le_value (rd_public_key d) = n \<or> le_value (rd_public_key d) = 0 \<and> (\<exists>addr. p = Signup_key a addr))"
  by (cases p) fastforce+

text \<open>No two threads fill one cell.\<close>

lemma signers_apart:
  assumes ok: "threads_ok s" and t: "th_sessions s t = Some (k, p)" "signing p = Some a"
    and t': "th_sessions s t' = Some (k', p')" "t \<noteq> t'"
  shows "signing p' \<noteq> Some a"
proof
  assume a: "signing p' = Some a"
  note T = threads_okD [OF ok t(1)] and T' = threads_okD [OF ok t'(1)]
  obtain i d where d: "entries (th_manager s) i = Some (a, d)"
    "le_value (rd_public_key d) = public_value k \<or> le_value (rd_public_key d) = 0 \<and> (\<exists>addr. p = Signup_key a addr)"
    using signing_cell [OF T(4) t(2)] by blast
  obtain j e where e: "entries (th_manager s) j = Some (a, e)"
    "le_value (rd_public_key e) = public_value k' \<or> le_value (rd_public_key e) = 0 \<and> (\<exists>addr. p' = Signup_key a addr)"
    using signing_cell [OF T'(4) a] by blast
  have "d = e" using table.cells_apart [OF T(1) d(1) e(1)] by simp
  then show False using d(2) e(2) T(2) T'(2) T(5,6) [OF t'] by auto
qed

lemma stands_for_one:
  assumes "ss t = Some (k, p)" "signing p = Some a"
    and "\<And>t' k' p'. ss t' = Some (k', p') \<Longrightarrow> t' \<noteq> t \<Longrightarrow> signing p' \<noteq> Some a"
  shows "stands_for E ss a d (completed E k p d)"
  unfolding stands_for_def using assms by (metis option.inject prod.inject)

lemma represents_move:
  assumes r: "represents E s R" and t: "th_sessions s t = Some (k, p)"
    and m': "entries m' = (entries (th_manager s))(i := y)"
    and r': "\<And>j. j \<noteq> i \<Longrightarrow> R' j = R j"
    and here: "y = None \<Longrightarrow> R' i = None"
      "\<And>a d. y = Some (a, d) \<Longrightarrow> \<exists>x. R' i = Some x \<and> stands_for E ((th_sessions s)(t \<mapsto> (k, p'))) a d x"
    and there: "\<And>j b d. j \<noteq> i \<Longrightarrow> entries (th_manager s) j = Some (b, d) \<Longrightarrow> signing p \<noteq> Some b \<and> signing p' \<noteq> Some b"
  shows "represents E (move t k s (p', m')) R'"
proof -
  have f: "th_sessions (move t k s (p', m')) = (th_sessions s)(t \<mapsto> (k, p'))" "th_manager (move t k s (p', m')) = m'"
    by (simp_all add: move_def)
  have "R' j = None \<longleftrightarrow> entries m' j = None" for j
    using here r' representsD(1) [OF r, of j] m' by (cases "j = i"; cases y) auto
  moreover have "stands_for E ((th_sessions s)(t \<mapsto> (k, p'))) b d x" if e: "entries m' j = Some (b, d)" "R' j = Some x" for j b d x
  proof (cases "j = i")
    case True
    then show ?thesis using here(2) [of b d] e m' by simp
  next
    case False
    then have j: "entries (th_manager s) j = Some (b, d)" "R j = Some x" using e m' r' by simp_all
    then have "stands_for E (th_sessions s) b d x" using representsD(2) [OF r j(1)] by simp
    then show ?thesis using there [OF False j(1)] t unfolding stands_for_def by (simp split: if_splits) (metis option.inject prod.inject)
  qed
  ultimately show ?thesis unfolding represents_def f by blast
qed

section \<open>Every fair event succeeds and is a step of the registry\<close>

text \<open>What an event of the session with public value \<open>n\<close> leads to.\<close>

definition serves :: "server_env \<Rightarrow> (nat \<Rightarrow> relay_descriptor option) \<Rightarrow> nat \<Rightarrow> threads option \<Rightarrow> bool" where
  "serves E R n r \<longleftrightarrow> (\<exists>s' R'. r = Some s' \<and> threads_ok s' \<and> represents E s' R' \<and> (R' = R \<or> registry_step n R R'))"

lemma servesI:
  "threads_ok s' \<Longrightarrow> represents E s' R' \<Longrightarrow> R' = R \<or> registry_step n R R' \<Longrightarrow> serves E R n (Some s')"
  by (auto simp: serves_def)

text \<open>An access that only reads.\<close>

lemma serves_read:
  assumes "threads_ok s" "represents E s R" and t: "th_sessions s t = Some (k, p)"
    and p: "signing p = None" and p': "signing p' = None" "point_ok (entries (th_manager s)) (public_value k) p'"
  shows "serves E R (public_value k) (Some (move t k s (p', th_manager s)))"
proof (rule servesI)
  show "threads_ok (move t k s (p', th_manager s))"
    by (rule threads_ok_stay [OF assms(1) t p'(2)]) (use p'(1) in auto)
  obtain i where i: "entries (th_manager s) i = None"
    using entries_live [OF threads_okD(1) [OF assms(1) t], of "items_length (th_manager s)"] by (auto simp: live_def)
  have "entries (th_manager s) = (entries (th_manager s))(i := None)" using i by auto
  then show "represents E (move t k s (p', th_manager s)) R"
    by (rule represents_move [OF assms(2) t]) (use i p p'(1) representsD(1) [OF assms(2), of i] in simp_all)
qed simp

text \<open>An access that changes the entry \<open>i\<close>, to a new descriptor of the cell \<open>a\<close> or to nothing.\<close>

lemma serves_change:
  assumes "threads_ok s" "represents E s R" and t: "th_sessions s t = Some (k, p)"
    and m': "manager_ok m'" "entries m' = (entries (th_manager s))(i := y)"
    and c: "\<And>x. entries (th_manager s) i = Some x \<Longrightarrow> may_change (public_value k) p x"
    and p': "point_ok (entries m') (public_value k) p'"
    and cell: "\<And>b. signing p = Some b \<or> signing p' = Some b \<Longrightarrow> b = a"
      "\<And>j d. j \<noteq> i \<Longrightarrow> entries (th_manager s) j \<noteq> Some (a, d)"
      "\<And>t' k' q. th_sessions s t' = Some (k', q) \<Longrightarrow> t' \<noteq> t \<Longrightarrow> signing q \<noteq> Some a"
    and y: "y = None \<and> R' i = None \<or> (\<exists>d. y = Some (a, d) \<and> R' i = Some (completed E k p' d))"
    and r': "R' = R \<or> registry_step (public_value k) R R'" "\<And>j. j \<noteq> i \<Longrightarrow> R' j = R j"
  shows "serves E R (public_value k) (Some (move t k s (p', m')))"
proof (rule servesI [OF _ _ r'(1)])
  show "threads_ok (move t k s (p', m'))"
  proof (rule threads_ok_move [OF assms(1) t m' c p'])
    fix b addr t' k' addr'
    assume "p' = Signup_key b addr" "th_sessions s t' = Some (k', Signup_key b addr')"
    then show "t' = t" using cell(1) [of b] cell(3) [of t' k' "Signup_key b addr'"] by auto
  qed simp_all
  show "represents E (move t k s (p', m')) R'"
  proof (rule represents_move [OF assms(2) t m'(2) r'(2)])
    fix b d assume b: "y = Some (b, d)"
    then have e: "b = a" "R' i = Some (completed E k p' d)" using y by auto
    have "stands_for E ((th_sessions s)(t \<mapsto> (k, p'))) a d (completed E k p' d)"
    proof (cases "signing p' = Some a")
      case True
      then show ?thesis by (intro stands_for_one [where t = t]) (use cell(3) in simp_all)
    next
      case False
      then have "completed E k p' d = d" using cell(1) by (cases p') auto
      then show ?thesis using False cell(3) unfolding stands_for_def by (auto split: if_splits)
    qed
    then show "\<exists>x. R' i = Some x \<and> stands_for E ((th_sessions s)(t \<mapsto> (k, p'))) b d x" using e by simp
  next
    fix j b d assume "j \<noteq> i" "entries (th_manager s) j = Some (b, d)"
    then show "signing p \<noteq> Some b \<and> signing p' \<noteq> Some b" using cell(1,2) by blast
  qed (use y in auto)
qed

text \<open>An entry with a session's own key is filled by no other thread.\<close>

lemma owned_not_signed:
  assumes ok: "threads_ok s" and t: "th_sessions s t = Some (k, p)" and e: "entries (th_manager s) i = Some (a, d)"
    "le_value (rd_public_key d) = public_value k" and t': "th_sessions s t' = Some (k', q)" "t' \<noteq> t"
  shows "signing q \<noteq> Some a"
proof
  assume a: "signing q = Some a"
  then obtain j x where x: "entries (th_manager s) j = Some (a, x)"
    "le_value (rd_public_key x) = public_value k' \<or> le_value (rd_public_key x) = 0"
    using signing_cell [OF threads_okD(4) [OF ok t'(1)] a] by auto
  have "x = d" using table.cells_apart [OF threads_okD(1) [OF ok t] x(1) e(1)] by simp
  then show False using x(2) e(2) threads_okD(2) [OF ok t] threads_okD(5) [OF ok t t'(1)] t'(2) by auto
qed

lemma own_public_key:
  assumes "gmp_documented (se_gmp E)" "public_value key < 256 ^ 256" "length out = 256"
  shows "get_other_public_key (se_gmp E) key out = Some (own_public E key)" "le_value (own_public E key) = public_value key"
proof -
  obtain pk where pk: "get_other_public_key (se_gmp E) key out = Some pk" "le_value pk = public_value key"
    by (rule public_key_export [OF assms])
  have "get_other_public_key (se_gmp E) key (replicate 256 0) = Some pk"
    using pk(1) export_unique [OF assms(1,2,3), of "replicate 256 0"]
    by (simp add: get_other_public_key_def get_dh_key_other_public_def DH_KEY_BYTES_def)
  then show "get_other_public_key (se_gmp E) key out = Some (own_public E key)" "le_value (own_public E key) = public_value key"
    using pk by (simp_all add: own_public_def)
qed

lemma serves_begin_signup:
  assumes ok: "threads_ok s" and r: "represents E s R" and t: "th_sessions s t = Some (k, Waiting None)"
    and room: "items_length (th_manager s) \<le> 2 ^ 30" and E: "se_alloc E = (\<lambda>_. True)" "gmp_documented (se_gmp E)"
  shows "serves E R (public_value k) (map_option (move t k s) (begin_signup E None addr (th_manager s)))"
proof -
  note T = threads_okD [OF ok t]
  obtain i a m' where g: "gen_relay (\<lambda>_. True) (th_manager s) = Some (a, m')" "manager_ok m'" "entries (th_manager s) i = None"
    "\<forall>j b d. entries (th_manager s) j = Some (b, d) \<longrightarrow> b \<noteq> a" "entries m' = (entries (th_manager s))(i \<mapsto> (a, zero_descriptor))"
    using table.gen [OF T(1) room] by blast
  let ?d = "\<lparr>rd_sock_addr = addr, rd_public_key = own_public E k\<rparr>"
  have "registry_step (public_value k) R (R(i \<mapsto> ?d))"
    by (rule registry_step.register) (use g(3) representsD(1) [OF r, of i] own_public_key(2) [OF E(2) T(3), of "replicate 256 0"] in simp_all)
  moreover have "signing q \<noteq> Some a" if "th_sessions s t' = Some (k', q)" for t' k' q
    using signing_cell [OF threads_okD(4) [OF ok that], of a] g(4) by blast
  moreover have "entries (th_manager s) j \<noteq> Some (a, d)" for j d using g(4) by blast
  ultimately have "serves E R (public_value k) (Some (move t k s (Signup_key a addr, m')))"
    by (intro serves_change [OF ok r t g(2,5), where a = a and R' = "R(i \<mapsto> ?d)"]) (use g(3-5) in auto)
  then show ?thesis using E(1) g(1) by (simp add: begin_signup_def)
qed

lemma serves_write_key:
  assumes ok: "threads_ok s" and r: "represents E s R" and t: "th_sessions s t = Some (k, Signup_key a addr)"
    and E: "gmp_documented (se_gmp E)"
  shows "serves E R (public_value k) (map_option (move t k s) (next_access E k (Signup_key a addr) (th_manager s)))"
proof -
  note T = threads_okD [OF ok t]
  obtain i where i: "entries (th_manager s) i = Some (a, zero_descriptor)" using T(4) by auto
  have pk: "get_other_public_key (se_gmp E) k (rd_public_key zero_descriptor) = Some (own_public E k)"
    "le_value (own_public E k) = public_value k"
    using own_public_key [OF E T(3), of "replicate 256 0"] by (simp_all add: zero_descriptor_def)
  let ?d = "zero_descriptor\<lparr>rd_public_key := own_public E k\<rparr>"
  obtain m' where m': "put_descriptor (th_manager s) a ?d = Some m'" "manager_ok m'" "entries m' = (entries (th_manager s))(i \<mapsto> (a, ?d))"
    using table.put [OF T(1) i] by blast
  obtain x where x: "R i = Some x" "stands_for E (th_sessions s) a zero_descriptor x" using representsD(2) [OF r i] by blast
  then have "x = completed E k (Signup_addr a addr) ?d"
    using t by (fastforce simp: stands_for_def descriptor_written)
  moreover have "entries (th_manager s) j \<noteq> Some (a, d)" if "j \<noteq> i" for j d using table.cells_apart [OF T(1) i, of j d] that by blast
  moreover have "signing q \<noteq> Some a" if "th_sessions s t' = Some (k', q)" "t' \<noteq> t" for t' k' q
    using signers_apart [OF ok t _ that(1)] that(2) by simp
  ultimately have "serves E R (public_value k) (Some (move t k s (Signup_addr a addr, m')))"
    by (intro serves_change [OF ok r t m'(2,3), where a = a and R' = R]) (use i x(1) pk(2) m'(3) in \<open>auto simp: may_change_def\<close>)
  then show ?thesis using table.read [OF T(1) i] pk(1) m'(1) by simp
qed

lemma serves_write_addr:
  assumes ok: "threads_ok s" and r: "represents E s R" and t: "th_sessions s t = Some (k, Signup_addr a addr)"
  shows "serves E R (public_value k) (map_option (move t k s) (next_access E k (Signup_addr a addr) (th_manager s)))"
proof -
  note T = threads_okD [OF ok t]
  obtain i pk where i: "entries (th_manager s) i = Some (a, zero_descriptor\<lparr>rd_public_key := pk\<rparr>)" "le_value pk = public_value k"
    using T(4) by auto
  let ?d = "zero_descriptor\<lparr>rd_public_key := pk, rd_sock_addr := addr\<rparr>"
  obtain m' where m': "put_descriptor (th_manager s) a ?d = Some m'" "manager_ok m'" "entries m' = (entries (th_manager s))(i \<mapsto> (a, ?d))"
    using table.put [OF T(1) i(1)] by blast
  obtain x where x: "R i = Some x" "stands_for E (th_sessions s) a (zero_descriptor\<lparr>rd_public_key := pk\<rparr>) x"
    using representsD(2) [OF r i(1)] by blast
  then have "x = completed E k (Signup_id a) ?d"
    using t by (fastforce simp: stands_for_def)
  moreover have "entries (th_manager s) j \<noteq> Some (a, d)" if "j \<noteq> i" for j d using table.cells_apart [OF T(1) i(1), of j d] that by blast
  moreover have "signing q \<noteq> Some a" if "th_sessions s t' = Some (k', q)" "t' \<noteq> t" for t' k' q
    using signers_apart [OF ok t _ that(1)] that(2) by simp
  ultimately have "serves E R (public_value k) (Some (move t k s (Signup_id a, m')))"
    by (intro serves_change [OF ok r t m'(2,3), where a = a and R' = R])
      (use i x(1) m'(3) in \<open>auto simp: may_change_def owns_def\<close>)
  then show ?thesis using table.read [OF T(1) i(1)] m'(1) by simp
qed

lemma serves_remove:
  assumes ok: "threads_ok s" and r: "represents E s R" and t: "th_sessions s t = Some (k, p)" "signing p = None"
    and o: "owns_id (entries (th_manager s)) (public_value k) i" and E: "se_alloc E = (\<lambda>_. True)"
  shows "serves E R (public_value k) (map_option (move t k s)
    (map_option (\<lambda>(_, m). (Signout_reply None server_response_success, m)) (remove_relay (se_alloc E) (th_manager s) i)))"
proof -
  note T = threads_okD [OF ok t(1)]
  obtain a d where i: "entries (th_manager s) i = Some (a, d)" "le_value (rd_public_key d) = public_value k"
    using o by (auto simp: owns_id_def)
  obtain m' where m': "remove_relay (\<lambda>_. True) (th_manager s) i = Some (True, m')" "manager_ok m'"
    "entries m' = (entries (th_manager s))(i := None)" using table.remove [OF T(1) i(1)] by blast
  note own = owned_not_signed [OF ok t(1) i]
  obtain x where x: "R i = Some x" "stands_for E (th_sessions s) a d x" using representsD(2) [OF r i(1)] by blast
  have "signing q \<noteq> Some a" if "th_sessions s t' = Some (k', q)" for t' k' q
    using that own [OF that] t by (cases "t' = t") auto
  then have "x = d" using x(2) unfolding stands_for_def by blast
  then have "registry_step (public_value k) R (R(i := None))" using x(1) i(2) by (auto intro: registry_step.withdraw)
  moreover have "entries (th_manager s) j \<noteq> Some (a, e)" if "j \<noteq> i" for j e using table.cells_apart [OF T(1) i(1), of j e] that by blast
  ultimately have "serves E R (public_value k) (Some (move t k s (Signout_reply None server_response_success, m')))"
    by (intro serves_change [OF ok r t(1) m'(2,3), where a = a and R' = "R(i := None)"])
      (use i own t(2) in \<open>auto simp: may_change_def\<close>)
  then show ?thesis using E m'(1) by simp
qed

lemma serves_request:
  assumes ok: "threads_ok s" and r: "represents E s R" and t: "th_sessions s t = Some (k, Waiting rd)"
    and f: "fair_event (Requests t request) s" and E: "se_alloc E = (\<lambda>_. True)" "gmp_documented (se_gmp E)"
  shows "serves E R (public_value k) (map_option (move t k s) (begin_request E rd request (th_manager s)))"
proof -
  note T = threads_okD [OF ok t]
  note go = serves_read [OF ok r t]
  show ?thesis
  proof (cases request)
    case (Signup_request addr)
    show ?thesis
    proof (cases rd)
      case None
      then show ?thesis using serves_begin_signup [OF ok r _ _ E] t f Signup_request by simp
    next
      case (Some a)
      then show ?thesis using go [of Ended] Signup_request by (simp add: begin_signup_def)
    qed
  next
    case (Signout_request i)
    show ?thesis
    proof (cases rd)
      case (Some a)
      then obtain j d where j: "entries (th_manager s) j = Some (a, d)" "le_value (rd_public_key d) = public_value k"
        using T(4) by (auto simp: owns_def)
      obtain w where w: "cell_id (th_manager s) a = Some w" "unat w = j" using table.id_of [OF T(1) j(1)] by auto
      then show ?thesis using go [of "Own_remove w"] Some j Signout_request by (auto simp: begin_signout_def owns_id_def)
    next
      case None
      show ?thesis
      proof (cases "get_relay (th_manager s) (unat i)")
        case (Some a)
        then obtain d where "entries (th_manager s) (unat i) = Some (a, d)" using table.found [OF T(1)] by blast
        then show ?thesis
          using go [of "Named_compare a"] f t Some None Signout_request by (auto simp: begin_signout_def owns_def)
      qed (use go [of "Signout_reply None server_response_base_error"] None Signout_request in \<open>simp add: begin_signout_def\<close>)
    qed
  qed
qed

lemma serves_proceed:
  assumes ok: "threads_ok s" and r: "represents E s R" and t: "th_sessions s t = Some (k, p)"
    and E: "se_alloc E = (\<lambda>_. True)" "gmp_documented (se_gmp E)" "length (se_junk_key E) = 256"
  shows "serves E R (public_value k) (map_option (move t k s) (proceed E k p (th_manager s)))"
proof -
  note T = threads_okD [OF ok t]
  note go = serves_read [OF ok r t]
  have id: "\<exists>w d. cell_id (th_manager s) a = Some w \<and> cell_descriptor (th_manager s) a = Some d \<and>
      le_value (rd_public_key d) = public_value k \<and> owns_id (entries (th_manager s)) (public_value k) (unat w)"
    if "owns (entries (th_manager s)) (public_value k) a" for a
  proof -
    obtain j d where j: "entries (th_manager s) j = Some (a, d)" "le_value (rd_public_key d) = public_value k"
      using \<open>owns _ _ a\<close> by (auto simp: owns_def)
    then show ?thesis using table.id_of [OF T(1) j(1)] table.read [OF T(1) j(1)] by (auto simp: owns_id_def)
  qed
  show ?thesis
  proof (cases p)
    case (Named_compare a)
    then obtain d where d: "cell_descriptor (th_manager s) a = Some d" "le_value (rd_public_key d) = public_value k"
      using id [of a] T(4) by auto
    note pk = own_public_key [OF E(2) T(3) E(3)]
    show ?thesis
    proof (cases "rd_public_key d = own_public E k")
      case True
      then show ?thesis using go [of "Named_id a"] Named_compare d pk T(4) by simp
    next
      case False
      then show ?thesis using go [of "Signout_reply (Some a) server_response_base_error"] Named_compare d pk T(4) by simp
    qed
  next
    case (Signup_id a)
    then show ?thesis using id [of a] go [of "Signup_reply a _"] T(4) by auto
  next
    case (Named_id a)
    then show ?thesis using id [of a] go [of "Named_remove _"] T(4) by auto
  next
    case (Signup_key a addr)
    then show ?thesis using serves_write_key [OF ok r _ E(2)] t by simp
  next
    case (Signup_addr a addr)
    then show ?thesis using serves_write_addr [OF ok r] t by simp
  next
    case (Own_remove i)
    then show ?thesis using serves_remove [OF ok r t _ _ E(1), of "unat i"] T(4) by simp
  next
    case (Named_remove i)
    then show ?thesis using serves_remove [OF ok r t _ _ E(1), of "unat i"] T(4) by simp
  qed (use go [of p] go [of "Waiting _"] T(4) in auto)
qed

lemma threads_ok_connect:
  assumes ok: "threads_ok s" and f: "fair_event (Connects t key) s" and t: "th_sessions s t = None"
  shows "threads_ok (s\<lparr>th_sessions := (th_sessions s)(t \<mapsto> (key, Waiting None))\<rparr>)"
proof (rule threads_okI)
  show "manager_ok (th_manager (s\<lparr>th_sessions := (th_sessions s)(t \<mapsto> (key, Waiting None))\<rparr>))"
    using ok by (simp add: threads_ok_def)
  fix t1 k1 p1
  assume 1: "th_sessions (s\<lparr>th_sessions := (th_sessions s)(t \<mapsto> (key, Waiting None))\<rparr>) t1 = Some (k1, p1)"
  show "0 < public_value k1 \<and> public_value k1 < 256 ^ 256 \<and>
      point_ok (entries (th_manager (s\<lparr>th_sessions := (th_sessions s)(t \<mapsto> (key, Waiting None))\<rparr>))) (public_value k1) p1"
  proof (cases "t1 = t")
    case True
    then show ?thesis using 1 f by auto
  next
    case False
    then show ?thesis using 1 threads_okD(2-4) [OF ok, of t1 k1 p1] by simp
  qed
  fix t2 k2 p2
  assume 2: "th_sessions (s\<lparr>th_sessions := (th_sessions s)(t \<mapsto> (key, Waiting None))\<rparr>) t2 = Some (k2, p2)" "t1 \<noteq> t2"
  show "public_value k1 \<noteq> public_value k2 \<and> (\<forall>a x y. p1 = Signup_key a x \<longrightarrow> p2 \<noteq> Signup_key a y)"
  proof (cases "t1 = t \<or> t2 = t")
    case True
    have "public_value k \<noteq> public_value key" if "th_sessions s t' = Some (k, p)" for t' k p using f that by auto
    then show ?thesis using True 1 2 by (auto split: if_splits) metis+
  next
    case False
    then show ?thesis using 1 2 threads_okD(5,6) [OF ok, of t1 k1 p1 t2 k2 p2] by auto
  qed
qed

lemma threads_ok_disconnect: "threads_ok s \<Longrightarrow> threads_ok (s\<lparr>th_sessions := (th_sessions s)(t := None)\<rparr>)"
  unfolding threads_ok_def by (simp split: if_splits)

lemma represents_connect:
  assumes "represents E s R" "\<And>k p. th_sessions s t = Some (k, p) \<Longrightarrow> signing p = None"
    "\<And>k p. u = Some (k, p) \<Longrightarrow> signing p = None"
  shows "represents E (s\<lparr>th_sessions := (th_sessions s)(t := u)\<rparr>) R"
proof -
  have "stands_for E ((th_sessions s)(t := u)) a d x" if "stands_for E (th_sessions s) a d x" for a d x
    using that assms(2,3) unfolding stands_for_def by (auto split: if_splits) (metis option.distinct(1))
  then show ?thesis using assms(1) unfolding represents_def by simp
qed

lemma settled_signs_nothing: "settled p \<Longrightarrow> signing p = None"
  by (cases p) simp_all

lemma page_read:
  assumes "manager_ok m"
  shows "\<exists>js next. get_relay_batch m start n = Some (map (descriptor_at m) js, next) \<and>
    distinct js \<and> set js \<subseteq> live m \<and> length js = min n (card (live m))"
  using get_relay_batch_live [OF assms, of start n] by blast

text \<open>The session that an event belongs to.\<close>

fun acting :: "server_event \<Rightarrow> int option" where
  "acting (Connects t key) = Some t"
| "acting (Disconnects t) = Some t"
| "acting (Requests t request) = Some t"
| "acting (Accesses t) = Some t"
| "acting (Pages start) = None"

lemma fair_event_served:
  assumes ok: "threads_ok s" and r: "represents E s R" and f: "fair_event e s"
    and E: "se_alloc E = (\<lambda>_. True)" "gmp_documented (se_gmp E)" "length (se_junk_key E) = 256"
  shows "\<exists>s' R'. thread_event E e s = Some s' \<and> threads_ok s' \<and> represents E s' R' \<and>
    (R' = R \<or> (\<exists>t k p. acting e = Some t \<and> th_sessions s t = Some (k, p) \<and> registry_step (public_value k) R R'))"
proof -
  have same: ?thesis if "thread_event E e s = Some s" using that ok r by blast
  show ?thesis
  proof (cases e)
    case (Connects t key)
    show ?thesis
    proof (cases "th_sessions s t")
      case None
      then show ?thesis
        using Connects threads_ok_connect [OF ok _ None, of key] represents_connect [OF r, of t "Some (key, Waiting None)"] f by auto
    qed (use same Connects in simp)
  next
    case (Disconnects t)
    show ?thesis
    proof (cases "\<exists>k p. th_sessions s t = Some (k, p) \<and> settled p")
      case True
      then have "thread_event E e s = Some (s\<lparr>th_sessions := (th_sessions s)(t := None)\<rparr>)"
        "represents E (s\<lparr>th_sessions := (th_sessions s)(t := None)\<rparr>) R"
        using Disconnects represents_connect [OF r, of t None] settled_signs_nothing by auto
      then show ?thesis using threads_ok_disconnect [OF ok] by blast
    qed (use same Disconnects in \<open>auto split: option.splits\<close>)
  next
    case (Requests t request)
    show ?thesis
    proof (cases "\<exists>k rd. th_sessions s t = Some (k, Waiting rd)")
      case True
      then obtain k rd where t: "th_sessions s t = Some (k, Waiting rd)" by blast
      then show ?thesis
        using serves_request [OF ok r t _ E(1,2)] Requests f by (fastforce simp: serves_def)
    qed (use same Requests in \<open>auto split: option.splits thread_point.splits\<close>)
  next
    case (Accesses t)
    show ?thesis
    proof (cases "th_sessions s t")
      case (Some x)
      then obtain k p where t: "th_sessions s t = Some (k, p)" by (cases x) simp
      then show ?thesis using serves_proceed [OF ok r t E] Accesses by (fastforce simp: serves_def)
    qed (use same Accesses in simp)
  next
    case (Pages start)
    have m: "manager_ok (th_manager s)" using ok by (simp add: threads_ok_def)
    obtain page nxt where "get_relay_batch (th_manager s) start 14 = Some (page, nxt)" using page_read [OF m] by blast
    then have "thread_event E e s = Some (s\<lparr>th_pages := th_pages s @ [page]\<rparr>)"
      using Pages by (simp add: SERVER_RELAYS_MAP_AMOUNT_def)
    moreover have "threads_ok (s\<lparr>th_pages := th_pages s @ [page]\<rparr>)" "represents E (s\<lparr>th_pages := th_pages s @ [page]\<rparr>) R"
      using ok r by (simp_all add: threads_ok_def represents_def)
    ultimately show ?thesis by blast
  qed
qed

lemma first_threads_ok:
  assumes "\<not> rm_initialized m"
  shows "threads_ok (first_threads m)" "represents E (first_threads m) (\<lambda>_. None)"
  using init_manager_ok [OF assms] entries_live [of "init_relay_manager m"]
  by (simp_all add: first_threads_def threads_ok_def represents_def)

section \<open>Properties\<close>

text \<open>Where the sessions' keys come from.\<close>

lemma event_keys:
  "thread_event E e s = Some s' \<Longrightarrow> th_sessions s' t = Some (k, p) \<Longrightarrow>
   (\<exists>p'. th_sessions s t = Some (k, p')) \<or> e = Connects t k"
  by (cases e) (auto simp: move_def split: if_splits option.splits thread_point.splits)

lemma fair_run:
  assumes "threads_ok s" "represents E s R" "fair_schedule E es s"
    and E: "se_alloc E = (\<lambda>_. True)" "gmp_documented (se_gmp E)" "length (se_junk_key E) = 256"
    and "\<And>t k p. th_sessions s t = Some (k, p) \<Longrightarrow> public_value k \<in> N" "\<And>t k. Connects t k \<in> set es \<Longrightarrow> public_value k \<in> N"
  shows "\<exists>s' R'. run_schedule E es s = Some s' \<and> threads_ok s' \<and> represents E s' R' \<and>
    (\<lambda>R R'. \<exists>n \<in> N. registry_step n R R')\<^sup>*\<^sup>* R R'"
  using assms(1-3,7,8)
proof (induction es arbitrary: s R)
  case Nil
  then show ?case by auto
next
  case (Cons e es)
  have f: "fair_event e s" using Cons.prems(3) by simp
  obtain s1 R1 where 1: "thread_event E e s = Some s1" "threads_ok s1" "represents E s1 R1"
    "R1 = R \<or> (\<exists>t k p. acting e = Some t \<and> th_sessions s t = Some (k, p) \<and> registry_step (public_value k) R R1)"
    using fair_event_served [OF Cons.prems(1,2) f E] by blast
  have n: "public_value k \<in> N" if "th_sessions s1 t = Some (k, p)" for t k p
    using event_keys [OF 1(1) that] Cons.prems(4) [of t k] Cons.prems(5) [of t k] by auto
  have "(\<lambda>R R'. \<exists>n \<in> N. registry_step n R R')\<^sup>*\<^sup>* R R1" using 1(4) Cons.prems(4) by blast
  moreover have fs: "fair_schedule E es s1" using Cons.prems(3) 1(1) by simp
  moreover have cs: "public_value k \<in> N" if "Connects t k \<in> set es" for t k
    using Cons.prems(5) [of t k] that by simp
  moreover have "\<exists>s' R'. run_schedule E es s1 = Some s' \<and> threads_ok s' \<and> represents E s' R' \<and>
      (\<lambda>R R'. \<exists>n \<in> N. registry_step n R R')\<^sup>*\<^sup>* R1 R'"
    by (rule Cons.IH [OF 1(2,3) fs]) (erule n cs)+
  ultimately show ?case using 1(1) by (fastforce intro: rtranclp_trans)
qed

lemma fair_from_start:
  assumes "fair_schedule E es (first_threads m)" "\<not> rm_initialized m"
    and "\<forall>n. se_alloc E n" "gmp_documented (se_gmp E)" "length (se_junk_key E) = 256"
  obtains s R where "run_schedule E es (first_threads m) = Some s" "threads_ok s" "represents E s R"
    "(\<lambda>R R'. \<exists>t key. Connects t key \<in> set es \<and> registry_step (public_value key) R R')\<^sup>*\<^sup>* (\<lambda>_. None) R"
proof -
  have E: "se_alloc E = (\<lambda>_. True)" using assms(3) by auto
  let ?N = "{public_value k | t k. Connects t k \<in> set es}"
  have "(\<lambda>R R'. \<exists>n \<in> ?N. registry_step n R R') = (\<lambda>R R'. \<exists>t key. Connects t key \<in> set es \<and> registry_step (public_value key) R R')"
    by (intro ext) blast
  then show thesis
    using that fair_run [OF first_threads_ok [OF assms(2)] assms(1) E assms(4,5), of ?N] by (auto simp: first_threads_def)
qed

text \<open>The pointer to a relay that a thread holds at a point.\<close>

fun pointer :: "thread_point \<Rightarrow> nat option" where
  "pointer (Waiting rd) = rd"
| "pointer (Signup_key a addr) = Some a"
| "pointer (Signup_addr a addr) = Some a"
| "pointer (Signup_id a) = Some a"
| "pointer (Named_compare a) = Some a"
| "pointer (Named_id a) = Some a"
| "pointer (Signup_reply a i) = Some a"
| "pointer (Signout_reply rd code) = rd"
| "pointer p = None"

lemma pointer_cell: "point_ok v n p \<Longrightarrow> pointer p = Some a \<Longrightarrow> \<exists>i d. v i = Some (a, d)"
  by (cases p) (auto simp: owns_def)


text \<open>A relay that signs up while a client asks for relays.\<close>

definition sample_schedule :: "server_event list" where
  "sample_schedule = [Connects 4 sample_key, Requests 4 (Signup_request (rd_sock_addr zero_descriptor)), Pages 0,
     Accesses 4, Accesses 4, Accesses 4, Accesses 4]"

lemma sample_schedule_fair: "fair_schedule sample_env sample_schedule (first_threads blank_manager)"
  by (simp add: sample_schedule_def first_threads_def blank_manager_ok sample_key_def split: option.split)

lemma sample_threads: "\<not> rm_initialized blank_manager" "\<forall>n. se_alloc sample_env n" "gmp_documented (se_gmp sample_env)"
  "length (se_junk_key sample_env) = 256"
  by (simp_all add: reference_gmp_documented) (simp add: blank_manager_def)




text \<open>C20. What a client is given in the middle of any fair schedule: a page of different relays of the registry, 14 or
  all there are, each with the descriptor the registry has, except where the relay's signup is at that
  moment half done; then the page has an address of zeros for it, and it may have a key of zeros.\<close>

theorem pages_of_fair_schedules:
  assumes "fair_schedule E es (first_threads m)" "\<not> rm_initialized m"
    and "\<forall>n. se_alloc E n" "gmp_documented (se_gmp E)" "length (se_junk_key E) = 256"
    and "run_schedule E es (first_threads m) = Some s" "represents E s R"
  shows "\<exists>js. thread_event E (Pages start) s =
      Some (s\<lparr>th_pages := th_pages s @ [map (descriptor_at (th_manager s)) js]\<rparr>) \<and>
    distinct js \<and> set js \<subseteq> dom R \<and> length js = min 14 (card (dom R)) \<and>
    (\<forall>j \<in> set js. R j = Some (descriptor_at (th_manager s) j) \<or>
       (\<exists>t key p a. th_sessions s t = Some (key, p) \<and> signing p = Some a \<and> get_relay (th_manager s) j = Some a \<and>
          rd_sock_addr (descriptor_at (th_manager s) j) = rd_sock_addr zero_descriptor))"
proof -
  have ok: "threads_ok s" by (rule fair_from_start [OF assms(1-5)]) (use assms(6) in simp)
  then have m: "manager_ok (th_manager s)" by (simp add: threads_ok_def)
  obtain js nxt where js: "get_relay_batch (th_manager s) start 14 = Some (map (descriptor_at (th_manager s)) js, nxt)"
    "distinct js" "set js \<subseteq> live (th_manager s)" "length js = min 14 (card (live (th_manager s)))"
    using page_read [OF m] by blast
  have lv: "dom R = live (th_manager s)"
    using representsD(1) [OF assms(7)] entries_live [OF m] by (auto simp: dom_def)
  have "R j = Some (descriptor_at (th_manager s) j) \<or>
      (\<exists>t key p a. th_sessions s t = Some (key, p) \<and> signing p = Some a \<and> get_relay (th_manager s) j = Some a \<and>
         rd_sock_addr (descriptor_at (th_manager s) j) = rd_sock_addr zero_descriptor)" if j: "j \<in> set js" for j
  proof -
    obtain a d where e: "entries (th_manager s) j = Some (a, d)" using entries_live [OF m, of j] js(3) j by fastforce
    obtain x where x: "R j = Some x" "stands_for E (th_sessions s) a d x" using representsD(2) [OF assms(7) e] by blast
    note d = entries_descriptor [OF e]
    show ?thesis
    proof (cases "\<exists>t key p. th_sessions s t = Some (key, p) \<and> signing p = Some a")
      case True
      then obtain t key p where t: "th_sessions s t = Some (key, p)" "signing p = Some a" by blast
      then have "rd_sock_addr d = rd_sock_addr zero_descriptor"
        using threads_okD(4) [OF ok t(1)] table.cells_apart [OF m e] by (cases p) auto
      then show ?thesis using t d by auto
    next
      case False
      then show ?thesis using x d by (auto simp: stands_for_def)
    qed
  qed
  then show ?thesis using js lv by (intro exI [of _ js]) (simp add: SERVER_RELAYS_MAP_AMOUNT_def)
qed

lemma pages_of_fair_schedules_witness:
  "\<exists>s R js. represents sample_env s R \<and> distinct js \<and> length js = min 14 (card (dom R)) \<and>
    thread_event sample_env (Pages 3) s = Some (s\<lparr>th_pages := th_pages s @ [map (descriptor_at (th_manager s)) js]\<rparr>)"
proof -
  obtain s R where s: "run_schedule sample_env sample_schedule (first_threads blank_manager) = Some s" "represents sample_env s R"
    by (rule fair_from_start [OF sample_schedule_fair sample_threads])
  then show ?thesis using pages_of_fair_schedules [OF sample_schedule_fair sample_threads s, of 3] by blast
qed

section \<open>Schedules that go wrong\<close>

lemma first_signup:
  assumes "\<not> rm_initialized m"
  obtains a m1 where "gen_relay (\<lambda>_. True) (init_relay_manager m) = Some (a, m1)" "manager_ok m1"
    "entries m1 = [0 \<mapsto> (a, zero_descriptor)]" "live m1 = {0}"
proof -
  let ?m = "init_relay_manager m"
  note ok = init_manager_ok [OF assms]
  have z: "items_length ?m \<le> 2 ^ 30" "free_ids ?m = []" "max_item_index ?m = 0"
    using assms by (simp_all add: init_relay_manager_def RELAY_ITEMS_MIN_LENGTH_def free_ids_def)
  obtain i m1 where g: "gen_relay (\<lambda>_. True) ?m = Some (rm_next ?m, m1)" "live m1 = insert i (live ?m)"
    "i = (if free_ids ?m = [] then max_item_index ?m else last (free_ids ?m))"
    by (rule gen_relay_ok [where alloc_ok = "\<lambda>_. True", OF conjunct1 [OF ok] z(1)]) simp_all
  obtain j a m2 where t: "gen_relay (\<lambda>_. True) ?m = Some (a, m2)" "manager_ok m2" "entries m2 = (entries ?m)(j \<mapsto> (a, zero_descriptor))"
    using table.gen [OF conjunct1 [OF ok] z(1)] by blast
  have e: "entries ?m = Map.empty" using entries_live [OF conjunct1 [OF ok]] ok by auto
  have lv: "live m2 = {0}" using g t(1) ok z by simp
  then have "j = 0" using entries_live [OF t(2), of j] t(3) by simp
  then show thesis using that [OF t(1,2)] t(3) e lv by simp
qed

text \<open>A client can be given a relay that is not there yet: when a page is read after \<open>gen_relay\<close> and before the
  descriptor is written, which \<open>handle_signup\<close> does without the mutex, the page has an entry of zeros, with
  neither key nor address.\<close>

theorem half_signup_is_handed_out:
  assumes "\<not> rm_initialized m" "\<forall>n. se_alloc E n"
  shows "\<exists>s. run_schedule E [Connects t key, Requests t (Signup_request addr), Pages start] (first_threads m) = Some s \<and>
    th_pages s = [[zero_descriptor]]"
proof -
  have E: "se_alloc E = (\<lambda>_. True)" using assms(2) by auto
  obtain a m1 where m1: "gen_relay (\<lambda>_. True) (init_relay_manager m) = Some (a, m1)" "manager_ok m1"
    "entries m1 = [0 \<mapsto> (a, zero_descriptor)]" "live m1 = {0}" by (rule first_signup [OF assms(1)])
  obtain js nxt where js: "get_relay_batch m1 start 14 = Some (map (descriptor_at m1) js, nxt)"
    "set js \<subseteq> live m1" "length js = min 14 (card (live m1))" using page_read [OF m1(2)] by blast
  have "js = [0]" using js(2,3) m1(4) by (auto simp: length_Suc_conv)
  then have "get_relay_batch m1 start 14 = Some ([zero_descriptor], nxt)"
    using js(1) entries_descriptor [of m1 0 a zero_descriptor] m1(3) by simp
  then show ?thesis
    using E m1(1) by (simp add: first_threads_def begin_signup_def move_def SERVER_RELAYS_MAP_AMOUNT_def)
qed

lemma half_signup_is_handed_out_witness:
  "\<exists>s. run_schedule sample_env [Connects 4 sample_key, Requests 4 (Signup_request (rd_sock_addr zero_descriptor)), Pages 9]
     (first_threads blank_manager) = Some s \<and> th_pages s = [[zero_descriptor]]"
  using half_signup_is_handed_out [OF sample_threads(1,2)] by blast

text \<open>C37. A key of zero is enough to make the server write into freed memory: a peer whose handshake sent the public
  value 0 signs out the id of a signup that is half done, whose key in the table is still zero; the check
  of the key passes, the relay is freed, and the thread of the signup goes on to write its key there.\<close>

theorem zero_key_frees_signup:
  assumes "\<not> rm_initialized m" "\<forall>n. se_alloc E n" "gmp_documented (se_gmp E)" "length (se_junk_key E) = 256"
    and "public_value zero = 0" "t \<noteq> u"
  shows "\<exists>s. run_schedule E [Connects t key, Connects u zero, Requests t (Signup_request addr),
      Requests u (Signout_request 0), Accesses u, Accesses u, Accesses u] (first_threads m) = Some s \<and>
    (\<exists>a. th_sessions s t = Some (key, Signup_key a addr) \<and> cell_descriptor (th_manager s) a = None) \<and>
    thread_event E (Accesses t) s = None"
proof -
  have E: "se_alloc E = (\<lambda>_. True)" using assms(2) by auto
  obtain a m1 where m1: "gen_relay (\<lambda>_. True) (init_relay_manager m) = Some (a, m1)" "manager_ok m1"
    "entries m1 = [0 \<mapsto> (a, zero_descriptor)]" by (rule first_signup [OF assms(1)])
  have e: "entries m1 0 = Some (a, zero_descriptor)" using m1(3) by simp
  have pk: "get_other_public_key (se_gmp E) zero (se_junk_key E) = Some (own_public E zero)" "le_value (own_public E zero) = 0"
    using own_public_key [OF assms(3) _ assms(4), of zero] assms(5) by simp_all
  have "length (own_public E zero) = 256" using length_other_public [OF pk(1) assms(4)] .
  then have own: "own_public E zero = rd_public_key zero_descriptor"
    using pk(2) le_value_inj [of "own_public E zero" "replicate 256 0"] by (simp add: zero_descriptor_def)
  have r: "get_relay m1 0 = Some a" "cell_descriptor m1 a = Some zero_descriptor"
    using entries_descriptor [OF e] table.read [OF m1(2) e] by simp_all
  obtain w m2 where w: "cell_id m1 a = Some w" "unat w = 0" "remove_relay (\<lambda>_. True) m1 (unat w) = Some (True, m2)"
    by (rule table.withdraws [OF m1(2) e])
  then have f: "cell_descriptor m2 a = None" using table.remove [OF m1(2) e] by simp
  have b: "begin_signout None 0 m1 = Some (Named_compare a, m1)" using r by (simp add: begin_signout_def)
  show ?thesis
    using E m1(1) b pk(1) r(2) own w(1,3) f assms(6)
    by (simp add: first_threads_def begin_signup_def move_def)
qed

lemma zero_key_frees_signup_witness:
  "\<exists>s a. th_sessions s 4 = Some (sample_key, Signup_key a (rd_sock_addr zero_descriptor)) \<and>
     cell_descriptor (th_manager s) a = None \<and> thread_event sample_env (Accesses 4) s = None"
  using zero_key_frees_signup [OF sample_threads, where t = 4 and u = 5 and key = sample_key and
      zero = "sample_key\<lparr>kd_session := (kd_session sample_key)\<lparr>other_public := 0\<rparr>\<rparr>"]
  by fastforce

text \<open>One key on two connections is enough as well: both sign out the relay signed up with it, one removes it, and the
  other, which had found it before, compares its key with freed memory.\<close>

theorem two_signouts_race:
  assumes "manager_ok m" "\<forall>n. se_alloc E n" "gmp_documented (se_gmp E)" "length (se_junk_key E) = 256"
    and "public_value key < 256 ^ 256" "public_value key' = public_value key" "t \<noteq> u"
    and "entries m (unat i) = Some (a, d)" "rd_public_key d = own_public E key"
    and "s = \<lparr>th_sessions = [t \<mapsto> (key, Waiting None), u \<mapsto> (key', Waiting None)], th_manager = m, th_pages = []\<rparr>"
  shows "run_schedule E [Requests t (Signout_request i), Requests u (Signout_request i),
      Accesses u, Accesses u, Accesses u, Accesses t] s = None"
proof -
  have E: "se_alloc E = (\<lambda>_. True)" using assms(2) by auto
  have u': "public_value key' < 256 ^ 256" using assms(5,6) by simp
  note pk = own_public_key [OF assms(3) u' assms(4)] own_public_key [OF assms(3,5,4)]
  have own: "own_public E key' = own_public E key"
    using export_unique [OF assms(3,5,4,4)] pk assms(6)
    by (simp add: get_other_public_key_def get_dh_key_other_public_def DH_KEY_BYTES_def)
  have r: "get_relay m (unat i) = Some a" "cell_descriptor m a = Some d"
    using entries_descriptor [OF assms(8)] table.read [OF assms(1,8)] by simp_all
  obtain w m2 where w: "cell_id m a = Some w" "unat w = unat i" "remove_relay (\<lambda>_. True) m (unat w) = Some (True, m2)"
    by (rule table.withdraws [OF assms(1,8)])
  then have f: "cell_descriptor m2 a = None" using table.remove [OF assms(1,8)] by simp
  have b: "begin_signout None i m = Some (Named_compare a, m)" using r by (simp add: begin_signout_def)
  show ?thesis
    using E b pk(1,3) r(2) own w(1,3) f assms(7,9) by (simp add: assms(10) move_def)
qed

end
