(* ===== verification/Session_Ends.thy ===== *)
theory Session_Ends
  imports Schedules
begin

text \<open>
  The session of a relay with the server, run to its end: \<open>process_relay\<close> of \<open>src/server/handlers/relay_handler.c\<close>
  ends on any input, as the session of a client does (\<open>Sessions\<close>). A request is total on a consistent table because
  the accesses it is made of are, by the laws of \<open>Registry\<close>; every message takes something from the socket.
\<close>

section \<open>A request on a consistent table\<close>

text \<open>A pointer that is none or to a relay in the table.\<close>

definition good_pointer :: "relay_manager \<Rightarrow> nat option \<Rightarrow> bool" where
  "good_pointer m rd \<longleftrightarrow> (\<forall>a. rd = Some a \<longrightarrow> (\<exists>i d. entries m i = Some (a, d)))"

text \<open>The table grows only when all its items are live.\<close>

lemma gen_relay_grows:
  assumes ok: "manager_ok m" "items_length m \<le> 2 ^ 30" and g: "gen_relay (\<lambda>_. True) m = Some (a, m')"
  shows "items_length m' = items_length m \<or> items_length m' = 2 * items_length m \<and> card (live m) = items_length m"
proof (cases "max_stack_index m = 0 \<and> items_length m \<le> max_item_index m")
  case True
  note D = manager_okD [OF ok(1)]
  have "free_ids m = []" using True by (simp add: free_ids_def)
  then have "live m = {..<items_length m}" using D(4,10,11) True by auto
  moreover have "items_length m' = 2 * items_length m"
    using g True ok(2) D(2) by (auto simp: gen_relay_def grow_items_def new_item_def u32n_small Let_def split: Option.bind_splits if_splits)
  ultimately show ?thesis by simp
next
  case False
  then show ?thesis
    using g by (auto simp: gen_relay_def grow_items_def new_item_def Let_def split: Option.bind_splits if_splits)
qed

lemma items_length_kept:
  "put_descriptor m a x = Some m' \<Longrightarrow> items_length m' = items_length m"
  "remove_relay alloc_ok m i = Some (r, m') \<Longrightarrow> items_length m' = items_length m"
  by (auto simp: put_descriptor_def remove_relay_def Let_def split: Option.bind_splits if_splits)

lemma live_entries: "manager_ok m \<Longrightarrow> live m = dom (entries m)"
  using entries_live [of m] by (auto simp: dom_def)

lemma finite_live: "finite (live m)"
  by (rule finite_subset [of _ "{..<items_length m}"]) (auto simp: live_def)

text \<open>What a request can do: nothing and fail, answer without a change, enter a relay, or take one out.\<close>

datatype request_result = Refused | Unchanged "nat option" | Entered nat | Removed

definition request_effect ::
  "relay_manager \<Rightarrow> thread_point \<Rightarrow> relay_manager \<Rightarrow> request_result \<Rightarrow> bool" where
  "request_effect m p m' r \<longleftrightarrow> manager_ok m' \<and>
     (case r of
        Refused \<Rightarrow> p = Ended \<and> m' = m
      | Unchanged rd \<Rightarrow> (\<exists>code. p = Signout_reply rd code) \<and> m' = m \<and> good_pointer m rd
      | Entered a \<Rightarrow> (\<exists>w i d. p = Signup_reply a w \<and> entries m i = None \<and> entries m' = (entries m)(i \<mapsto> (a, d))) \<and>
          (items_length m' = items_length m \<or> items_length m' = 2 * items_length m \<and> card (live m) = items_length m)
      | Removed \<Rightarrow> (\<exists>code i. p = Signout_reply None code \<and> entries m i \<noteq> None \<and> entries m' = (entries m)(i := None)) \<and>
          items_length m' = items_length m)"

lemma run_removal:
  assumes ok: "manager_ok m" "entries m i = Some (a, d)"
  obtains w m' where "cell_id m a = Some w" "remove_relay (\<lambda>_. True) m (unat w) = Some (True, m')"
    "request_effect m (Signout_reply None server_response_success) m' Removed"
proof -
  obtain w m' where w: "cell_id m a = Some w" "remove_relay (\<lambda>_. True) m (unat w) = Some (True, m')" "manager_ok m'"
    "entries m' = (entries m)(i := None)" by (rule table.withdraws [OF ok])
  have "request_effect m (Signout_reply None server_response_success) m' Removed"
    using w(3,4) items_length_kept(2) [OF w(2)] ok(2)
    by (simp add: request_effect_def) (rule exI [of _ i], simp)
  with w(1,2) show thesis by (rule that)
qed

text \<open>A request that runs to its answer, in a table that is consistent after it.\<close>

definition request_runs :: "server_env \<Rightarrow> key_data \<Rightarrow> nat option \<Rightarrow> relay_request \<Rightarrow> relay_manager \<Rightarrow> bool" where
  "request_runs E key rd request m \<longleftrightarrow>
     (\<exists>p m' r. run_request E key rd request m = Some (p, m') \<and> request_effect m p m' r \<and> (r = Refused \<longleftrightarrow> p = Ended) \<and>
       (\<forall>a. r = Entered a \<longrightarrow> rd = None) \<and> (\<forall>rd'. r = Unchanged rd' \<longrightarrow> rd = None))"

lemma request_runsI:
  "run_request E key rd request m = Some (p, m') \<Longrightarrow> request_effect m p m' r \<Longrightarrow> (r = Refused \<longleftrightarrow> p = Ended) \<Longrightarrow>
   (\<And>a. r = Entered a \<Longrightarrow> rd = None) \<Longrightarrow> (\<And>rd'. r = Unchanged rd' \<Longrightarrow> rd = None) \<Longrightarrow> request_runs E key rd request m"
  unfolding request_runs_def by blast

lemma signup_runs_fresh:
  assumes ok: "manager_ok m" "items_length m \<le> 2 ^ 30" and E: "se_alloc E = (\<lambda>_. True)" "gmp_documented (se_gmp E)"
    and k: "public_value key < 256 ^ 256"
  shows "request_runs E key None (Signup_request addr) m"
proof -
  obtain i a m1 where g: "gen_relay (\<lambda>_. True) m = Some (a, m1)" "manager_ok m1" "entries m i = None"
    "entries m1 = (entries m)(i \<mapsto> (a, zero_descriptor))" using table.gen [OF ok] by blast
  have e1: "entries m1 i = Some (a, zero_descriptor)" using g(4) by simp
  let ?d = "zero_descriptor\<lparr>rd_public_key := own_public E key\<rparr>"
  obtain m2 where m2: "put_descriptor m1 a ?d = Some m2" "manager_ok m2" "entries m2 = (entries m1)(i \<mapsto> (a, ?d))"
    using table.put [OF g(2) e1] by blast
  have e2: "entries m2 i = Some (a, ?d)" using m2(3) by simp
  let ?e = "?d\<lparr>rd_sock_addr := addr\<rparr>"
  obtain m3 where m3: "put_descriptor m2 a ?e = Some m3" "manager_ok m3" "entries m3 = (entries m2)(i \<mapsto> (a, ?e))"
    using table.put [OF m2(2) e2] by blast
  have e3: "entries m3 i = Some (a, ?e)" using m3(3) by simp
  obtain w where w: "cell_id m3 a = Some w" using table.id_of [OF m3(2) e3] by auto
  have pk: "get_other_public_key (se_gmp E) key (rd_public_key zero_descriptor) = Some (own_public E key)"
    using own_public_key(1) [OF E(2) k, of "replicate 256 0"] by (simp add: zero_descriptor_def)
  have "run_request E key None (Signup_request addr) m = Some (Signup_reply a w, m3)"
    using E(1) g(1) pk table.read [OF g(2) e1] table.read [OF m2(2) e2] m2(1) m3(1) w
    by (simp add: run_request_def begin_signup_def)
  moreover have "request_effect m (Signup_reply a w) m3 (Entered a)"
    using m3(2,3) m2(3) g(3,4) gen_relay_grows [OF ok g(1)] items_length_kept(1) [OF m2(1)] items_length_kept(1) [OF m3(1)]
    by (simp add: request_effect_def) blast
  ultimately show ?thesis by (rule request_runsI) simp_all
qed

lemma signout_runs_own:
  assumes ok: "manager_ok m" and rd: "good_pointer m (Some a)" and E: "se_alloc E = (\<lambda>_. True)"
  shows "request_runs E key (Some a) (Signout_request i) m"
proof -
  obtain j d where j: "entries m j = Some (a, d)" using rd by (auto simp: good_pointer_def)
  obtain w m' where w: "cell_id m a = Some w" "remove_relay (\<lambda>_. True) m (unat w) = Some (True, m')"
    "request_effect m (Signout_reply None server_response_success) m' Removed" by (rule run_removal [OF ok j])
  then have "run_request E key (Some a) (Signout_request i) m = Some (Signout_reply None server_response_success, m')"
    using E by (simp add: run_request_def begin_signout_def)
  then show ?thesis using w(3) by (rule request_runsI) simp_all
qed

lemma signout_runs_named:
  assumes ok: "manager_ok m" and E: "se_alloc E = (\<lambda>_. True)" "gmp_documented (se_gmp E)" "length (se_junk_key E) = 256"
    and k: "public_value key < 256 ^ 256"
  shows "request_runs E key None (Signout_request i) m"
proof (cases "get_relay m (unat i)")
  case g: None
  then have "run_request E key None (Signout_request i) m = Some (Signout_reply None server_response_base_error, m)"
    by (simp add: run_request_def begin_signout_def)
  moreover have "request_effect m (Signout_reply None server_response_base_error) m (Unchanged None)"
    using ok by (simp add: request_effect_def good_pointer_def)
  ultimately show ?thesis by (rule request_runsI) simp_all
next
  case g: (Some a)
  then obtain d where j: "entries m (unat i) = Some (a, d)" using table.found [OF ok] by blast
  note pk = own_public_key(1) [OF E(2) k E(3)] table.read [OF ok j]
  show ?thesis
  proof (cases "rd_public_key d = own_public E key")
    case True
    obtain w m' where w: "cell_id m a = Some w" "remove_relay (\<lambda>_. True) m (unat w) = Some (True, m')"
      "request_effect m (Signout_reply None server_response_success) m' Removed" by (rule run_removal [OF ok j])
    then have "run_request E key None (Signout_request i) m = Some (Signout_reply None server_response_success, m')"
      using E(1) g pk True by (simp add: run_request_def begin_signout_def)
    then show ?thesis using w(3) by (rule request_runsI) simp_all
  next
    case False
    then have "run_request E key None (Signout_request i) m = Some (Signout_reply (Some a) server_response_base_error, m)"
      using g pk by (simp add: run_request_def begin_signout_def)
    moreover have "request_effect m (Signout_reply (Some a) server_response_base_error) m (Unchanged (Some a))"
      using ok j by (auto simp: request_effect_def good_pointer_def)
    ultimately show ?thesis by (rule request_runsI) simp_all
  qed
qed

lemma run_request_total:
  assumes ok: "manager_ok m" "items_length m \<le> 2 ^ 30" and rd: "good_pointer m rd"
    and E: "se_alloc E = (\<lambda>_. True)" "gmp_documented (se_gmp E)" "length (se_junk_key E) = 256"
    and k: "public_value key < 256 ^ 256"
  shows "request_runs E key rd request m"
proof (cases request)
  case (Signup_request addr)
  have "run_request E key (Some a) (Signup_request addr) m = Some (Ended, m)" "request_effect m Ended m Refused" for a
    using ok by (simp_all add: run_request_def begin_signup_def request_effect_def)
  then show ?thesis
    using Signup_request signup_runs_fresh [OF ok E(1,2) k] by (cases rd) (auto intro: request_runsI)
next
  case (Signout_request i)
  then show ?thesis using signout_runs_own [OF ok(1) _ E(1)] signout_runs_named [OF ok(1) E k] rd by (cases rd) simp_all
qed

section \<open>A session run to its end\<close>

text \<open>
  What a session keeps between messages when nothing else runs. It has at most one relay of its own in the table at a
  time, so the table stays within its bound.
\<close>

definition session_inv :: "relay_manager \<Rightarrow> nat option \<Rightarrow> bool" where
  "session_inv m rd \<longleftrightarrow> table_sound m \<and> good_pointer m rd \<and> items_length m \<le> 2 ^ 30 \<and>
     card (live m) \<le> 2 ^ 29 + (if rd = None then 0 else 1)"

fun point_data :: "thread_point \<Rightarrow> nat option" where
  "point_data (Signup_reply a w) = Some a"
| "point_data (Signout_reply rd code) = rd"
| "point_data p = None"

lemma request_keeps:
  assumes inv: "session_inv m rd" and e: "request_effect m p m' r" "table_sound m'"
    and n: "\<forall>a. r = Entered a \<longrightarrow> rd = None" "\<forall>rd'. r = Unchanged rd' \<longrightarrow> rd = None" and p: "p \<noteq> Ended"
  shows "session_inv m' (point_data p)"
proof -
  have ok: "manager_ok m" using inv by (simp add: session_inv_def table_sound_def)
  have ok': "manager_ok m'" using e(1) by (simp add: request_effect_def)
  note lv = live_entries [OF ok] live_entries [OF ok']
  show ?thesis
  proof (cases r)
    case Refused
    then show ?thesis using e(1) p by (simp add: request_effect_def)
  next
    case (Unchanged rd')
    then show ?thesis using e(1) inv n(2) by (auto simp: request_effect_def session_inv_def)
  next
    case (Entered a)
    then obtain w i d where i: "p = Signup_reply a w" "entries m i = None" "entries m' = (entries m)(i \<mapsto> (a, d))"
      and l: "items_length m' = items_length m \<or> items_length m' = 2 * items_length m \<and> card (live m) = items_length m"
      using e(1) by (auto simp: request_effect_def)
    have "card (live m') = card (live m) + 1" using i finite_live [of m] by (auto simp: lv domIff)
    then show ?thesis using inv n(1) Entered e(2) i l by (auto simp: session_inv_def good_pointer_def)
  next
    case Removed
    then obtain code i where i: "p = Signout_reply None code" "entries m i \<noteq> None" "entries m' = (entries m)(i := None)"
      and l: "items_length m' = items_length m" using e(1) by (auto simp: request_effect_def)
    have "live m' = live m - {i}" "i \<in> live m" using i by (auto simp: lv)
    then have "card (live m') + 1 = card (live m)" using card.remove [OF finite_live, of i m] by simp
    then show ?thesis using inv e(2) i(1) l by (auto simp: session_inv_def good_pointer_def split: if_splits)
  qed
qed

lemma answer_leaves:
  assumes "answer_request fd rd key b p sv = (ok, rd', b', sv')"
  shows "sv_manager sv' = sv_manager sv" "unread fd (sv_net sv') = unread fd (sv_net sv)"
    "net_closed (sv_net sv') = net_closed (sv_net sv)" "ok \<Longrightarrow> rd' = point_data p \<and> p \<noteq> Ended"
  using assms send_leaves
  by (cases p; fastforce simp: on_net_def answers unread_def split: prod.splits)+

lemma exit_leaves:
  "relay_handle_exit fd key sv = Some (ok, rd, b, sv') \<Longrightarrow>
   rd = None \<and> sv_manager sv' = sv_manager sv \<and> unread fd (sv_net sv') = unread fd (sv_net sv) \<and>
   net_closed (sv_net sv') = net_closed (sv_net sv)"
  using send_leaves by (fastforce simp: relay_handle_exit_def on_net_def answers unread_def split: prod.splits)

lemma handler_total:
  assumes inv: "session_inv (sv_manager sv) rd"
    and E: "\<forall>n. se_alloc E n" "gmp_documented (se_gmp E)" "length (se_junk_key E) = 256" "public_value key < 256 ^ 256"
  shows "\<exists>ok rd' b' sv'. map_option (\<lambda>(p, m). answer_request fd rd key b p (sv\<lparr>sv_manager := m\<rparr>))
      (run_request E key rd request (sv_manager sv)) = Some (ok, rd', b', sv') \<and>
    unread fd (sv_net sv') = unread fd (sv_net sv) \<and> net_closed (sv_net sv') = net_closed (sv_net sv) \<and>
    (ok \<and> table_sound (sv_manager sv') \<longrightarrow> session_inv (sv_manager sv') rd')"
proof -
  have al: "se_alloc E = (\<lambda>_. True)" using E(1) by auto
  have t: "manager_ok (sv_manager sv)" "items_length (sv_manager sv) \<le> 2 ^ 30" "good_pointer (sv_manager sv) rd"
    using inv by (simp_all add: session_inv_def table_sound_def)
  obtain p m' r where q: "run_request E key rd request (sv_manager sv) = Some (p, m')" "request_effect (sv_manager sv) p m' r"
    "\<forall>a. r = Entered a \<longrightarrow> rd = None" "\<forall>rd'. r = Unchanged rd' \<longrightarrow> rd = None"
    using run_request_total [OF t al E(2-4), of request] by (auto simp: request_runs_def)
  obtain ok rd' b' sv' where a: "answer_request fd rd key b p (sv\<lparr>sv_manager := m'\<rparr>) = (ok, rd', b', sv')" by (metis prod_cases4)
  note l = answer_leaves [OF a]
  have "session_inv (sv_manager sv') rd'" if "ok" "table_sound (sv_manager sv')"
    using request_keeps [OF inv q(2) _ q(3,4)] l(1,4) that by simp
  then show ?thesis using q(1) a l by simp
qed

lemma relay_message_total:
  assumes inv: "session_inv (sv_manager sv) rd" and b: "length buffer = 4096"
    and E: "\<forall>n. se_alloc E n" "gmp_documented (se_gmp E)" "length (se_junk_key E) = 256"
    and k: "read_key (sv_context sv) keyp = Some key" "public_value key < 256 ^ 256"
  shows "\<exists>ok running rd' b' sv'. relay_handle_message E fd rd keyp buffer sv = Some (ok, running, rd', b', sv') \<and>
    (ok \<and> running \<longrightarrow> unread fd (sv_net sv') < unread fd (sv_net sv) \<and> session_inv (sv_manager sv') rd') \<and>
    net_closed (sv_net sv') = net_closed (sv_net sv) \<and> sv_context sv' = sv_context sv \<and> length b' = 4096"
proof -
  have t: "table_sound (sv_manager sv)" "items_length (sv_manager sv) \<le> 2 ^ 30" using inv by (simp_all add: session_inv_def)
  obtain r b1 sv1 where r: "on_net (recv_enc_server_msg fd buffer key) sv = (r, b1, sv1)" by (metis prod_cases3)
  note k1 = on_net_keeps [OF r] recv_takes [OF r b]
  have inv1: "session_inv (sv_manager sv1) rd" using inv k1(1) by simp
  note handlers = handlers_run [of E fd rd key b1 sv1] handler_total [OF inv1 E k(2), where fd = fd and b = b1]
  have "\<exists>ok running rd' b' sv'. relay_handle_message E fd rd keyp buffer sv = Some (ok, running, rd', b', sv') \<and>
    (ok \<and> running \<longrightarrow> unread fd (sv_net sv') < unread fd (sv_net sv) \<and> (table_sound (sv_manager sv') \<longrightarrow> session_inv (sv_manager sv') rd')) \<and>
    net_closed (sv_net sv') = net_closed (sv_net sv)"
  proof (cases r)
    case False
    then show ?thesis using r k(1) k1(2)
      by (intro exI [of _ False] exI [of _ True] exI [of _ rd] exI [of _ b1] exI [of _ sv1]) (simp add: relay_handle_message_def)
  next
    case True
    note u = k1(2) k1(3) [OF True]
    obtain o1 rd1 b2 sv2 where s: "handle_signup E fd rd key b1 sv1 = Some (o1, rd1, b2, sv2)"
      "unread fd (sv_net sv2) = unread fd (sv_net sv1)" "net_closed (sv_net sv2) = net_closed (sv_net sv1)"
      "o1 \<and> table_sound (sv_manager sv2) \<longrightarrow> session_inv (sv_manager sv2) rd1"
      using handlers by metis
    obtain o2 rd2 b3 sv3 where o: "handle_signout E fd rd key b1 sv1 = Some (o2, rd2, b3, sv3)"
      "unread fd (sv_net sv3) = unread fd (sv_net sv1)" "net_closed (sv_net sv3) = net_closed (sv_net sv1)"
      "o2 \<and> table_sound (sv_manager sv3) \<longrightarrow> session_inv (sv_manager sv3) rd2"
      using handlers by metis
    obtain o3 b4 sv4 where e: "relay_handle_exit fd key sv1 = Some (o3, None, b4, sv4)"
      by (cases "on_net (send_enc_relay_exit_response fd key server_response_success) sv1") (simp add: relay_handle_exit_def)
    note x = exit_leaves [OF e]
    have "relay_handle_message E fd rd keyp buffer sv =
        (if get16 0 b1 = RELAY_COMMAND_SIGNUP then Some (o1, True, rd1, b2, sv2)
         else if get16 0 b1 = RELAY_COMMAND_SIGNOUT then Some (o2, True, rd2, b3, sv3)
         else if get16 0 b1 = RELAY_COMMAND_EXIT then Some (o3, False, None, b4, sv4)
         else Some (False, True, rd, b1, sv1))"
      using True r k s(1) o(1) e by (simp add: relay_handle_message_def Let_def)
    then show ?thesis using s(2-4) o(2-4) x u by simp blast
  qed
  then obtain ok running rd' b' sv' where h: "relay_handle_message E fd rd keyp buffer sv = Some (ok, running, rd', b', sv')"
    "ok \<and> running \<longrightarrow> unread fd (sv_net sv') < unread fd (sv_net sv) \<and> (table_sound (sv_manager sv') \<longrightarrow> session_inv (sv_manager sv') rd')"
    "net_closed (sv_net sv') = net_closed (sv_net sv)" by blast
  then show ?thesis using sound_relay_message [OF t E(1) b h(1)] by blast
qed

lemma relay_loop_ends:
  assumes "session_inv (sv_manager sv) rd" "length buffer = 4096" "read_key (sv_context sv) keyp = Some key"
    and E: "\<forall>n. se_alloc E n" "gmp_documented (se_gmp E)" "length (se_junk_key E) = 256" "public_value key < 256 ^ 256"
  shows "\<exists>ok sv1. relay_loop E fd keyp rd buffer sv = Some (ok, end_session fd sv1) \<and>
    sv_context sv1 = sv_context sv \<and> net_closed (sv_net sv1) = net_closed (sv_net sv)"
  using assms(1-3)
proof (induction "unread fd (sv_net sv)" arbitrary: sv rd buffer rule: less_induct)
  case less
  obtain ok running rd' b' sv' where h: "relay_handle_message E fd rd keyp buffer sv = Some (ok, running, rd', b', sv')"
    "ok \<and> running \<longrightarrow> unread fd (sv_net sv') < unread fd (sv_net sv) \<and> session_inv (sv_manager sv') rd'"
    "net_closed (sv_net sv') = net_closed (sv_net sv)" "sv_context sv' = sv_context sv" "length b' = 4096"
    using relay_message_total [OF less.prems(1,2) E(1-3) less.prems(3) E(4), of fd] by blast
  show ?case
  proof (cases "ok \<and> running")
    case True
    then show ?thesis using less.hyps [of sv' rd' b'] h less.prems by (subst relay_loop.simps) simp
  next
    case False
    then show ?thesis using h by (subst relay_loop.simps) (intro exI [of _ ok] exI [of _ sv'], auto)
  qed
qed

section \<open>Properties\<close>

text \<open>C24. In every reachable state the session of a relay, run to its end on whatever the relay sends, ends without an
  abort: any sequence of signups, signouts of own, foreign and unknown ids, wrong commands and cut messages leads to
  the end of the session, which takes the relay's key and no other out of the table of keys and closes the socket.\<close>

theorem relay_session_ends:
  assumes "server_reachable E (ss, sv)" "\<forall>n. se_alloc E n" "local_relays_ok E" "items_length (sv_manager sv) \<le> 2 ^ 29"
    and "gmp_documented (se_gmp E)" "length (se_junk_key E) = 256" "public_value key < 256 ^ 256"
    and "0 \<le> fd" "fd < 2 ^ 31" "sock_lookup (sv_context sv) (nat fd) = Some (key, data)" "length buffer = 4096"
  shows "\<exists>ok sv'. process_relay E fd buffer sv = Some (ok, sv') \<and>
    sock_lookup (sv_context sv') = (sock_lookup (sv_context sv))(nat fd := None) \<and>
    net_closed (sv_net sv') = net_closed (sv_net sv) @ [fd]"
proof -
  note ok = sessions_reachable [OF assms(1-3)]
  note i = fd_index_valid [OF assms(8,9)]
  obtain keyp where k: "get_sock_key (sv_context sv) fd = Some keyp" "read_key (sv_context sv) keyp = Some key"
    using get_sock_key_reads [OF sessions_okD(2) [OF ok], of fd key data] assms(10) i by auto
  have "card (live (sv_manager sv)) \<le> card {..<items_length (sv_manager sv)}"
    by (rule card_mono) (auto simp: live_def)
  then have "card (live (sv_manager sv)) \<le> 2 ^ 29" using assms(4) by simp
  then have "session_inv (sv_manager sv) None"
    using sessions_okD(1) [OF ok] assms(4) by (simp add: session_inv_def good_pointer_def)
  from relay_loop_ends [OF this assms(11) k(2) assms(2,5-7), of fd]
  obtain r sv1 where l: "relay_loop E fd keyp None buffer sv = Some (r, end_session fd sv1)"
    "sv_context sv1 = sv_context sv" "net_closed (sv_net sv1) = net_closed (sv_net sv)" by blast
  obtain c where "free_socket (sv_context sv) fd False = (c, [])" "sock_lookup c = (sock_lookup (sv_context sv))(nat fd := None)"
    using free_socket_ok [OF sessions_okD(2) [OF ok], of fd False] i by auto
  then show ?thesis
    using k(1) l by (simp add: process_relay_def end_session_def close_fd_def)
qed

lemma relay_session_ends_witness:
  "\<exists>sv ok sv'. process_relay sample_env 4 (replicate 4096 0) sv = Some (ok, sv') \<and> sock_lookup (sv_context sv) 4 \<noteq> None \<and>
    sock_lookup (sv_context sv') 4 = None"
proof -
  let ?sv = "\<lparr>sv_manager = init_relay_manager blank_manager, sv_context = init_socket_context blank_context, sv_net = quiet_net\<rparr>"
  have r0: "server_reachable sample_env (\<lambda>_. None, ?sv)"
    by (rule server_reachable.started) (simp_all add: blank_manager_def blank_context_def)
  obtain c where c: "add_socket (se_alloc sample_env) (sv_context ?sv) 4 sample_key None = Some (True, c)"
    "sock_lookup c = (sock_lookup (sv_context ?sv))(4 \<mapsto> (sample_key, None))"
    by (rule add_socket_ok [where alloc_ok = "se_alloc sample_env", OF blank_context_ok(1), of 4 sample_key None])
       (simp_all add: fd_index_def blank_context_ok)
  obtain keyp where "get_sock_key c 4 = Some keyp" by (rule add_socket_key [OF c(1)])
  from server_step.relay_accepted [where ss = "\<lambda>_. None", OF c(1) this length_replicate] r0
  have r: "server_reachable sample_env ((\<lambda>_. None)(4 \<mapsto> Relay_user keyp None (replicate 4096 0)), ?sv\<lparr>sv_context := c\<rparr>)"
    by (intro server_reachable.step [OF r0]) (simp_all add: blank_manager_ok)
  have a: "\<forall>n. se_alloc sample_env n" by simp
  have k: "sock_lookup (sv_context (?sv\<lparr>sv_context := c\<rparr>)) (nat 4) = Some (sample_key, None)" using c(2) by simp
  obtain ok sv' where "process_relay sample_env 4 (replicate 4096 0) (?sv\<lparr>sv_context := c\<rparr>) = Some (ok, sv')"
    "sock_lookup (sv_context sv') = (sock_lookup (sv_context (?sv\<lparr>sv_context := c\<rparr>)))(nat 4 := None)"
    using relay_session_ends [OF r a sample_local_relays _ sample_threads(3,4) _ _ _ k length_replicate, of 0]
    by (auto simp: blank_manager_ok sample_key_def)
  then show ?thesis using k by (intro exI [of _ "?sv\<lparr>sv_context := c\<rparr>"] exI [of _ ok] exI [of _ sv']) simp
qed

end
