(* ===== verification/Local_Copies.thy ===== *)
theory Local_Copies
  imports Onion Hashmaps Programs
begin

text \<open>
  Client and relay do not share the files of the server or of each other: \<open>src/client\<close> and \<open>src/relay\<close> have functions
  of their own for the plain and encrypted messages of the directory, for the key exchange of a link, for
  addresses, for streams and for the commands. The rest of the development uses one definition of each; here the
  second and third ones are translated from their own files, and every one is proved equal to the one that is used.
\<close>

section \<open>The client\<close>

text \<open>\<open>src/client/net/recv_messages.c\<close>\<close>

definition client_recv_tls_msg :: "int \<Rightarrow> bytes \<Rightarrow> net \<Rightarrow> bool \<times> bytes \<times> net" where
  "client_recv_tls_msg fd data s = read_buffer fd data s"

definition client_recv_server_msg :: "int \<Rightarrow> bytes \<Rightarrow> net \<Rightarrow> bool \<times> bytes \<times> net" where
  "client_recv_server_msg fd buffer s = read_buffer fd buffer s"

definition client_recv_enc_server_msg :: "int \<Rightarrow> bytes \<Rightarrow> key_data \<Rightarrow> net \<Rightarrow> bool \<times> bytes \<times> net" where
  "client_recv_enc_server_msg fd buffer key s =
     (let (count, buffer, s) = read_buffer fd buffer s
      in if \<not> count then (False, buffer, s) else (True, symmetric_decrypt key buffer SERVER_MSG_SIZE, s))"

definition client_recv_handshake_confirmation ::
  "int \<Rightarrow> bytes \<Rightarrow> key_data \<Rightarrow> net \<Rightarrow> server_handshake_confirmation option \<times> bytes \<times> net" where
  "client_recv_handshake_confirmation fd buffer key s =
     (let (ok, buffer, s) = client_recv_enc_server_msg fd buffer key s
      in if \<not> ok then (None, buffer, s) else (Some (confirmation_of buffer), buffer, s))"

definition client_recv_handshake_res ::
  "int \<Rightarrow> bytes \<Rightarrow> net \<Rightarrow> server_handshake_response option \<times> bytes \<times> net" where
  "client_recv_handshake_res fd buffer s =
     (let (ok, buffer, s) = client_recv_server_msg fd buffer s
      in if \<not> ok then (None, buffer, s) else (Some (handshake_response_of buffer), buffer, s))"

definition client_recv_exit_res :: "int \<Rightarrow> bytes \<Rightarrow> key_data \<Rightarrow> net \<Rightarrow> bool \<times> bytes \<times> net" where
  "client_recv_exit_res fd buffer key s = client_recv_enc_server_msg fd buffer key s"

text \<open>\<open>src/client/net/send_messages.c\<close>\<close>

definition client_send_tls_msg :: "int \<Rightarrow> bytes \<Rightarrow> net \<Rightarrow> bool \<times> net" where
  "client_send_tls_msg fd data s = send_fd fd data s"

definition client_send_server_msg :: "int \<Rightarrow> bytes \<Rightarrow> net \<Rightarrow> bool \<times> bytes \<times> net" where
  "client_send_server_msg fd data s =
     (let buffer = splice 0 data (replicate SERVER_MSG_SIZE 0);
          (ok, s) = send_fd fd buffer s
      in (ok, buffer, s))"

definition client_send_enc_server_msg :: "int \<Rightarrow> bytes \<Rightarrow> key_data \<Rightarrow> net \<Rightarrow> bool \<times> bytes \<times> net" where
  "client_send_enc_server_msg fd data key s =
     (let buffer = symmetric_encrypt key (splice 0 data (replicate SERVER_MSG_SIZE 0)) SERVER_MSG_SIZE;
          (ok, s) = send_fd fd buffer s
      in (ok, buffer, s))"

definition client_send_handshake_key :: "int \<Rightarrow> bytes \<Rightarrow> net \<Rightarrow> bool \<times> bytes \<times> net" where
  "client_send_handshake_key fd key s = client_send_server_msg fd key s"

text \<open>\<open>src/client/router/handle_tls.c\<close>, with the contents of its local arrays as arguments.\<close>

definition client_handle_tls_sender ::
  "gmp \<Rightarrow> dh_globals \<Rightarrow> bytes \<Rightarrow> bytes \<Rightarrow> bytes \<times> bytes \<Rightarrow> int \<Rightarrow> key_data \<Rightarrow> net \<Rightarrow> (bool \<times> key_data \<times> net) option" where
  "client_handle_tls_sender G g tls_other tls_this local fd this s =
     (let (ok, tls_other, s) = client_recv_tls_msg fd tls_other s
      in if \<not> ok then Some (False, this, close_fd fd s)
         else
           Option.bind (derive_symmetric_key_from_public G g local this tls_other) (\<lambda>this.
           Option.bind (get_public_identity_key G (kd_identity this) tls_this) (\<lambda>tls_this.
           let (ok, s) = client_send_tls_msg fd tls_this s
           in if \<not> ok then Some (False, this, close_fd fd s) else Some (True, this, s))))"

definition client_handle_tls_recviever ::
  "gmp \<Rightarrow> dh_globals \<Rightarrow> bytes \<Rightarrow> bytes \<Rightarrow> bytes \<times> bytes \<Rightarrow> int \<Rightarrow> key_data \<Rightarrow> net \<Rightarrow> (bool \<times> key_data \<times> net) option" where
  "client_handle_tls_recviever G g tls_this tls_other local fd this s =
     Option.bind (get_public_identity_key G (kd_identity this) tls_this) (\<lambda>tls_this.
     let (ok, s) = client_send_tls_msg fd tls_this s
     in if \<not> ok then Some (False, this, close_fd fd s)
        else
          let (ok, tls_other, s) = client_recv_tls_msg fd tls_other s
          in if \<not> ok then Some (False, this, close_fd fd s)
             else Option.bind (derive_symmetric_key_from_public G g local this tls_other) (\<lambda>this. Some (True, this, s)))"

text \<open>\<open>src/client/core/client.c\<close>\<close>

definition client_sockaddr_to_unix :: "sock_addr \<Rightarrow> bytes \<times> nat" where
  "client_sockaddr_to_unix a =
     (let storage = replicate 128 0;
          header = (\<lambda>family. splice 2 (le16_bytes (sa_port a)) (splice 0 (le16_bytes (ucast family)) storage))
      in if sa_family a = AF_INET then (splice 4 (take 4 (sa_addr a)) (header AF_INET), 16)
         else if sa_family a = AF_INET6 then (splice 8 (take 16 (sa_addr a)) (header AF_INET6), 28)
         else (storage, 0))"

text \<open>\<open>src/client/services/stream_hashmap.c\<close>; freeing frees the buffers of the filled entries.\<close>

definition stream_hashmap_init :: "circular_buffer hashmap \<Rightarrow> circular_buffer hashmap" where
  "stream_hashmap_init m =
     fold (\<lambda>i m. m[i := (m ! i)\<lparr>entry_type := HASHMAP_STATE_EMPTY\<rparr>]) [0..<HASHMAP_AMOUNT] m"

definition stream_hashmap_free :: "circular_buffer hashmap \<Rightarrow> circular_buffer list" where
  "stream_hashmap_free m =
     map (\<lambda>i. he_data (m ! i)) (filter (\<lambda>i. entry_type (m ! i) = HASHMAP_STATE_FILLED) [0..<HASHMAP_AMOUNT])"

text \<open>The loop of the client's \<open>socket_hashmap_find\<close>; \<open>start_index\<close> is \<open>home stream_id\<close>.\<close>

function stream_find_probe :: "circular_buffer hashmap \<Rightarrow> u16 \<Rightarrow> nat \<Rightarrow> nat option" where
  "stream_find_probe m stream_id index =
     (if entry_type (m ! index) \<noteq> HASHMAP_STATE_EMPTY then
        if entry_type (m ! index) = HASHMAP_STATE_FILLED \<and> he_stream_id (m ! index) = stream_id
        then Some index
        else
          let index = (index + 1) mod HASHMAP_AMOUNT
          in if index = home stream_id then None else stream_find_probe m stream_id index
      else None)"
  by pat_completeness auto
termination
  by (relation "measure (\<lambda>(m, s, index). (home s + 4095 - index mod HASHMAP_AMOUNT) mod HASHMAP_AMOUNT)")
     (use probe_progress in \<open>auto simp: HASHMAP_AMOUNT_def\<close>)

declare stream_find_probe.simps [simp del]

definition stream_hashmap_find :: "circular_buffer hashmap \<Rightarrow> u16 \<Rightarrow> nat option" where
  "stream_hashmap_find m stream_id = stream_find_probe m stream_id (home stream_id)"

section \<open>The relay\<close>

text \<open>\<open>src/relay/net\<close> and the commands of \<open>src/relay/core/relay.c\<close>\<close>

definition relay_recv_server_msg :: "int \<Rightarrow> bytes \<Rightarrow> net \<Rightarrow> bool \<times> bytes \<times> net" where
  "relay_recv_server_msg fd buffer s = read_buffer fd buffer s"

definition relay_recv_enc_server_msg :: "int \<Rightarrow> bytes \<Rightarrow> key_data \<Rightarrow> net \<Rightarrow> bool \<times> bytes \<times> net" where
  "relay_recv_enc_server_msg fd buffer key s =
     (let (count, buffer, s) = read_buffer fd buffer s
      in if \<not> count then (False, buffer, s) else (True, symmetric_decrypt key buffer SERVER_MSG_SIZE, s))"

definition relay_send_server_msg :: "int \<Rightarrow> bytes \<Rightarrow> net \<Rightarrow> bool \<times> bytes \<times> net" where
  "relay_send_server_msg fd data s =
     (let buffer = splice 0 data (replicate SERVER_MSG_SIZE 0);
          (ok, s) = send_fd fd buffer s
      in (ok, buffer, s))"

definition relay_send_enc_server_msg :: "int \<Rightarrow> bytes \<Rightarrow> key_data \<Rightarrow> net \<Rightarrow> bool \<times> bytes \<times> net" where
  "relay_send_enc_server_msg fd data key s =
     (let buffer = symmetric_encrypt key (splice 0 data (replicate SERVER_MSG_SIZE 0)) SERVER_MSG_SIZE;
          (ok, s) = send_fd fd buffer s
      in (ok, buffer, s))"

text \<open>\<open>src/relay/router/relay_middle.c\<close>\<close>

definition middle_sockaddr_to_unix :: "sock_addr \<Rightarrow> bytes \<times> nat" where
  "middle_sockaddr_to_unix a =
     (let storage = replicate 128 0;
          header = (\<lambda>family. splice 2 (le16_bytes (sa_port a)) (splice 0 (le16_bytes (ucast family)) storage))
      in if sa_family a = AF_INET then (splice 4 (take 4 (sa_addr a)) (header AF_INET), 16)
         else if sa_family a = AF_INET6 then (splice 8 (take 16 (sa_addr a)) (header AF_INET6), 28)
         else (storage, 0))"

section \<open>They agree\<close>

lemma client_messages_agree:
  "client_recv_tls_msg = recv_tls_msg" "client_recv_server_msg = recv_server_msg"
  "client_recv_enc_server_msg = recv_enc_server_msg"
  "client_recv_handshake_confirmation = recv_server_handshake_confirmation"
  "client_recv_handshake_res = recv_server_handshake_res" "client_recv_exit_res = recv_server_exit_res"
  "client_send_tls_msg = send_tls_msg" "client_send_server_msg = send_server_msg"
  "client_send_enc_server_msg = send_enc_server_msg" "client_send_handshake_key = send_server_handshake_key"
proof -
  show e: "client_recv_tls_msg = recv_tls_msg" "client_recv_server_msg = recv_server_msg"
      "client_recv_enc_server_msg = recv_enc_server_msg" "client_send_server_msg = send_server_msg"
    by (intro ext; auto simp: client_recv_tls_msg_def recv_tls_msg_def client_recv_server_msg_def recv_server_msg_def
      client_recv_enc_server_msg_def recv_enc_server_msg_def client_send_server_msg_def send_server_msg_def
      split: prod.splits bool.splits)+
  show "client_recv_handshake_confirmation = recv_server_handshake_confirmation"
    "client_recv_handshake_res = recv_server_handshake_res" "client_recv_exit_res = recv_server_exit_res"
    "client_send_tls_msg = send_tls_msg" "client_send_enc_server_msg = send_enc_server_msg"
    "client_send_handshake_key = send_server_handshake_key"
    by (intro ext; auto simp: client_recv_handshake_confirmation_def recv_server_handshake_confirmation_def
      client_recv_handshake_res_def recv_server_handshake_res_def client_recv_exit_res_def recv_server_exit_res_def
      client_send_tls_msg_def send_tls_msg_def client_send_enc_server_msg_def send_enc_server_msg_def
      client_send_handshake_key_def send_server_handshake_key_def e Let_def split: prod.splits bool.splits)+
qed

lemma relay_messages_agree:
  "relay_recv_server_msg = recv_server_msg" "relay_recv_enc_server_msg = recv_enc_server_msg"
  "relay_send_server_msg = send_server_msg" "relay_send_enc_server_msg = send_enc_server_msg"
  by (intro ext; auto simp: relay_recv_server_msg_def recv_server_msg_def relay_recv_enc_server_msg_def recv_enc_server_msg_def
    relay_send_server_msg_def send_server_msg_def relay_send_enc_server_msg_def send_enc_server_msg_def Let_def
    split: prod.splits bool.splits)+

lemma client_tls_agrees:
  "client_handle_tls_sender = handle_tls_sender" "client_handle_tls_recviever = handle_tls_recviever"
  by (intro ext; auto simp: client_handle_tls_sender_def handle_tls_sender_def client_handle_tls_recviever_def
    handle_tls_recviever_def client_messages_agree Let_def split: prod.splits bool.splits Option.bind_splits)+

lemma addresses_agree: "client_sockaddr_to_unix = sockaddr_to_unix" "middle_sockaddr_to_unix = sockaddr_to_unix"
  by (intro ext; simp add: client_sockaddr_to_unix_def middle_sockaddr_to_unix_def sockaddr_to_unix_def)+

lemma client_streams_agree: "stream_hashmap_init = socket_hashmap_init" "stream_hashmap_free = socket_hashmap_free"
proof -
  show "stream_hashmap_init = socket_hashmap_init"
    by (intro ext) (simp add: stream_hashmap_init_def socket_hashmap_init_def)
  have "map f (filter P xs) = concat (map (\<lambda>i. if P i then [f i] else []) xs)" for f :: "nat \<Rightarrow> circular_buffer" and P xs
    by (induction xs) simp_all
  then show "stream_hashmap_free = socket_hashmap_free"
    by (intro ext) (simp add: stream_hashmap_free_def socket_hashmap_free_def)
qed

lemma stream_find_probe_agrees: "stream_find_probe m stream_id index = find_probe m stream_id index"
  by (induction m stream_id index rule: stream_find_probe.induct)
    (subst stream_find_probe.simps, subst find_probe.simps, simp add: Let_def)

lemma client_find_agrees: "stream_hashmap_find = socket_hashmap_find"
  by (intro ext) (simp add: stream_hashmap_find_def socket_hashmap_find_def stream_find_probe_agrees)

section \<open>The commands of the relay\<close>

text \<open>\<open>run_relay_cmd\<close> of \<open>src/relay/core/relay.c\<close>: what it leaves unread of the standard input.\<close>

definition RELAY_INPUT_SIZE :: nat where "RELAY_INPUT_SIZE = 128"

function run_relay_cmd :: "string \<Rightarrow> string" where
  "run_relay_cmd stdin =
     (case fgets (int RELAY_INPUT_SIZE) stdin of
        (None, rest) \<Rightarrow> rest
      | (Some line, rest) \<Rightarrow> if cut_line line = ''exit'' then rest else run_relay_cmd rest)"
  by pat_completeness auto

termination
  by (relation "measure length") (auto simp: RELAY_INPUT_SIZE_def intro: fgets_shorter [of 128, OF _ sym])

declare run_relay_cmd.simps [simp del]

lemma relay_commands_agree: "run_relay_cmd = run_cmd"
proof
  show "run_relay_cmd stdin = run_cmd stdin" for stdin
    by (induction stdin rule: run_relay_cmd.induct)
      (subst run_relay_cmd.simps, subst run_cmd.simps, auto simp: RELAY_INPUT_SIZE_def INPUT_SIZE_def split: prod.splits option.splits)
qed

end
