(* ===== verification/Spec2Isabelle.thy ===== *)
theory Spec2Isabelle
  imports Event_Loops AES SHA256 DH Encryptions Stream_Buffers Hashmaps Protocol Relay_Manager Socket_Context Net Server
    Onion Relay_Session C_Strings Config Client_Session Circuit Directory Sessions Programs Client_Cells Traffic
    Registry Threads Schedules Session_Ends Local_Copies
begin

text \<open>
  A verification library of MyOnionRouter, an onion-routing network in C.

  \<^bold>\<open>The program.\<close> Three programs share one protocol. The server (\<open>src/server\<close>) is the directory: relays sign up
  and out with it, clients ask it for relays. A relay (\<open>src/relay\<close>) accepts connections; each becomes a
  session that is either the middle of a circuit, passing cells between two links, or its end, opening
  connections to the internet for the client's streams. The client (\<open>src/client\<close>) takes relays from the
  directory, builds a circuit of them one key exchange at a time, and runs the user's commands over it. The
  crypto library (\<open>src/encryptions\<close>) has AES-128, SHA-256 and Diffie-Hellman keys over GMP; \<open>src/utils\<close> has
  strings, files, configurations and sockets; \<open>src/library/include\<close> the structures of the protocol and copies of
  the headers.

  \<^bold>\<open>The theories\<close>, each below what it imports:

    \<^item> \<open>Prelude\<close>: machine types, byte buffers with bounds-checked copies, little-endian integers, and
      the shared facts, in the collections \<open>mem_simps\<close> and \<open>len_simps\<close>.
    \<^item> \<open>AES\<close> (\<open>encryptions/aes\<close>), \<open>SHA256\<close> (\<open>encryptions/sha\<close>), \<open>DH\<close> (\<open>encryptions/dh\<close>), \<open>Encryptions\<close>
      (\<open>encryptions/source\<close>): the crypto library. GMP is the record \<open>gmp\<close> of the functions used.
    \<^item> \<open>Stream_Buffers\<close> (\<open>client/services/stream_buffers.c\<close>) and \<open>Hashmaps\<close> (\<open>socket_hashmap.c\<close> of the relay,
      \<open>stream_hashmap.c\<close> of the client): the data structures of streams.
    \<^item> \<open>Protocol\<close> (\<open>library/include/protocol\<close>): the packed structures as byte layouts with readers and writers.
    \<^item> \<open>Relay_Manager\<close> and \<open>Socket_Context\<close> (\<open>server/services\<close>): the server's table of relays and of keys.
    \<^item> \<open>Net\<close> (the \<open>net\<close> directories, \<open>connect_server_by_sockaddr.c\<close>): sockets and the messages of the directory.
    \<^item> \<open>Server\<close> (\<open>server/handlers\<close>, the callback of \<open>server/core/server.c\<close>): one connection of the server;
      \<open>Sessions\<close>: all of them at once, interleaved message by message. \<open>Registry\<close>: what they rely on in the relay table.
      \<open>Threads\<close>: \<open>relay_handler.c\<close> access by access; \<open>Schedules\<close>: threads interleaved so. \<open>Session_Ends\<close>: a relay's
      session run to its end.
    \<^item> \<open>Onion\<close> (\<open>send_tor_buffer\<close>, \<open>recv_tor_buffer\<close>, \<open>handle_tls.c\<close>): cells on the wire, the keys of links.
    \<^item> \<open>Event_Loops\<close>: what the loops over \<open>epoll_wait\<close> have in common.
    \<^item> \<open>Relay_Session\<close> (\<open>relay/router\<close>, \<open>relay_send_messages.c\<close>): a relay's sessions. \<open>Client_Session\<close>
      (\<open>client/router/client_session.c\<close>, \<open>send_tor_messages.c\<close>, \<open>parse_tor_messages.c\<close>): the client's. \<open>Client_Cells\<close>:
      what the client's session writes to its link.
    \<^item> \<open>Circuit\<close>: client and relays against each other. \<open>Traffic\<close>: cells through all event loops of a circuit.
    \<^item> \<open>C_Strings\<close> (\<open>utils/string_utils\<close>, the string functions of the C library) and \<open>Config\<close>
      (\<open>utils/file_utils\<close>, \<open>utils/server_cfg\<close>, \<open>client_config.c\<close>, \<open>relay_config.c\<close>).
    \<^item> \<open>Directory\<close> (\<open>server_query.c\<close>, \<open>server_register.c\<close>, \<open>ip_fetch.c\<close>, \<open>connect_server.c\<close>): the sessions of client and
      relay with the server, and those sessions against the server's side.
    \<^item> \<open>Programs\<close> (the \<open>core\<close> directories, \<open>create_and_bind.c\<close>, \<open>accept_loop.c\<close>): from \<open>main\<close> to the exit code.
    \<^item> \<open>Local_Copies\<close>: functions that client and relay have again in files of their own, proved equal to the ones used.

  \<^bold>\<open>How the code is modelled.\<close> A C function is a definition of the same name, with a prefix where client, relay and
  server have different functions of one name. A structure is a record. Where its bytes go over the wire, a writer
  and a reader give its packed, little-endian layout. Integers are words of
  the code's width wherever they can wrap; table indices whose bounds are proved are natural numbers. Global and local
  variables that a function changes are fields of a state that is passed through it: \<open>net\<close> for the sockets,
  \<open>server\<close>, \<open>relay_run\<close>, \<open>end_run\<close>, \<open>client_run\<close>, \<open>dir_run\<close>, \<open>relay_vars\<close> for the programs. What a local array
  holds before it is written is part of the environment records. A pointer into a table is an index; where it may
  outlive what it points to (the keys of the server, the relay a session signed up) it is an address that can be stale.
  \<open>None\<close> is what C leaves undefined or ends with an abort: an access outside an object, a use of \<open>NULL\<close> or of freed
  memory, the overflow of an export. Errors the code reports are its own codes and truth values.

  What comes from outside is an argument. The operating system is the record \<open>net\<close>: the pieces that
  reads find, whether sends go out, the descriptors of new connections, the clock; its logs of what was
  sent, dialled and closed are what most theorems speak about. \<open>epoll_wait\<close>, \<open>accept\<close>, \<open>getaddrinfo\<close>,
  \<open>pthread_create\<close>, \<open>malloc\<close>, the file system, \<open>/dev/urandom\<close> and the standard input are lists or functions of
  results. A read may be short, as the code does not ask again; a send is all or nothing.

  \<^bold>\<open>Concurrency.\<close> A program's threads are one for each connection. The relay's and the client's sessions share
  nothing but constants, so a session is a function of its events. The server's share two tables, whose functions hold a
  mutex from beginning to end; the relation \<open>server_step\<close> of \<open>Sessions\<close> interleaves any number of sessions, one
  message at a time, and the function that runs a connection to its end is proved to be a run of it. The relay handlers
  also work outside the mutex, through pointers to relays: \<open>Threads\<close> cuts them into single accesses (a call on the table, a
  read or write through a pointer), proves that without interruption these are the handlers, and runs any schedule of them; \<open>Schedules\<close> has the proofs. \<open>accept_loop\<close>
  of \<open>Programs\<close> serves connections one after the other.

  \<^bold>\<open>What is proved.\<close>

    \<^item> Crypto library: decryption inverts encryption for AES under every key; the key schedule on words is that of
      FIPS 197; preparing and hashing a buffer is SHA-256 of the padded message; both ends of a key exchange derive
      one AES key. Every whole block of a buffer survives encryption; a cut last block does not.
    \<^item> Data structures: the circular buffer keeps what is pushed in order, from every position but the one where growing a
      full buffer loses data, which is proved too; the hash maps, the relay table and the key table are finite maps,
      in every reachable state, up to the exceptions stated.
    \<^item> Cells: for circuits of any length, what the client seals arrives at the last relay, and what that
      relay sends back reaches the client, unchanged in all bytes that the layers cover in whole blocks. The create and
      extend exchanges give client and relay one key and make a circuit longer by one relay. The middle relay's
      event handler is the step of this abstract circuit.
    \<^item> Sessions: the end relay waits for exactly the client and its open streams; the client's stream table stays
      usable whatever is typed and received, and the client writes nothing but whole cells. A typed connect, line, ping and
      destroy are followed through all relays to their effects. Data from the internet arrives one byte late.
    \<^item> Server: with any interleaving of sessions both tables stay sound, requests for relays are answered, a signout
      removes exactly the relay that signed up, the sessions of clients and relays end on any input. With threads cut between
      any two accesses, no schedule of relays that keep to the protocol uses freed memory, and the table stands for a
      registry changed by whole registrations and withdrawals; only a page may show a relay half signed up.
      A key of zero, or one key on two connections, breaks this, which is proved by schedules. Two more
      ways to misuse the protocol are proved: removing a foreign relay, and pages of relays that repeat.
    \<^item> Programs: a client gathers the relays the server sends; a relay signs up, serves, and at \<open>exit\<close> signs out
      with the id it was given; the server from \<open>main\<close> on is a run of \<open>server_step\<close> between set-up and
      release; configurations are read back; a relay without a port is not refused.

  \<^bold>\<open>Interfaces.\<close> A locale states each contract that several parts rely on, with an interpretation on the code's
  model: \<open>block_cipher\<close> (what the loops over a buffer need of a cipher; AES), \<open>byte_fifo\<close> (a queue of bytes; the circular
  buffer), \<open>bounded_store\<close> (a map with a capacity; the hash maps), \<open>event_loop\<close> (four loops of client
  and relay), \<open>accepting\<close> (the accept loop under a program's own steps; server and relay), \<open>relay_registry\<close> (what the threads of the server
  rely on in the relay table and in the pointers it hands out; the relay table).

  \<^bold>\<open>Bounds.\<close> Loops that run to a fixed end are structural or have a measure, so they have no fuel. \<open>relay_loop\<close>,
  \<open>client_loop\<close> and \<open>input_sockaddr\<close>, which read until their input says stop, are partial functions; for
  the first two the end is proved for every input. The search for a stream id and the doubling of the key table are \<open>None\<close>
  where they would not end, and the theorems say when that is. The relay table has at most \<open>2 ^ 30\<close> items (16 GB) in
  the reachable states of the server, stream buffers at most \<open>2 ^ 30\<close> bytes, which keeps the arithmetic of the code
  within 32 bits. A cell's last 13 bytes are outside the whole blocks of an onion layer, so statements
  about payloads through a circuit are for at most 485 bytes.

  \<^bold>\<open>Not modelled.\<close> What is only printed, with \<open>print_block\<close> and
  \<open>print_asymmertic\<close>; releasing GMP numbers, beyond the keys that are cleared. An access of a thread is
  one step, so a descriptor is not seen half copied within its key or its address. A session uses its key in the table of keys while another may move that
  table; this is shown as a stale address.
\<close>

end
